(* ===== verification/Prelude.thy ===== *)
theory Prelude
  imports Main "HOL-Library.Word"
begin

text \<open>
  Shared vocabulary of the development: byte strings, Python exceptions as values, the integer
  and slice primitives of Python that the repository's modules use (\<open>int.to_bytes\<close>,
  \<open>int.from_bytes\<close>, \<open>struct.pack\<close>, \<open>bytes([n])\<close>, indexing, slicing, \<open>str\<close> of an
  integer), the generic lemmas about them, and the collections of facts the components share.
\<close>

section \<open>Types\<close>

text \<open>A Python \<open>bytes\<close> object is a list of octets; a Python \<open>str\<close> is a list of code points.\<close>

type_synonym byte = "8 word"
type_synonym bytes = "8 word list"
type_synonym pystr = "nat list"

text \<open>The exception classes the code raises, catches or lets through.\<close>

datatype exn_kind =
    AssertionError | ValueError | UnicodeEncodeError | UnicodeDecodeError | StructError
  | OverflowError | IndexError | KeyError | AttributeError | RuntimeError | ConnectionError
  | TimeoutError | FileNotFoundError | InvalidTag | LibraryError

datatype py_error = PyError (err_kind: exn_kind) (err_msg: pystr)

type_synonym 'a res = "py_error + 'a"

named_theorems eval_simps "rules that evaluate the model on closed arguments"

text \<open>String literals: \<open>lit\<close> is a \<open>str\<close>, \<open>blit\<close> a \<open>bytes\<close> literal (ASCII only).\<close>

definition lit :: "string \<Rightarrow> pystr" where
  "lit s = map of_char s"

definition blit :: "string \<Rightarrow> bytes" where
  "blit s = map of_char s"

lemma length_lit [simp]: "length (lit s) = length s"
  by (simp add: lit_def)

lemma length_blit [simp]: "length (blit s) = length s"
  by (simp add: blit_def)

lemma lit_simps [eval_simps]: "lit [] = []" "lit (c # s) = of_char c # lit s"
  by (simp_all add: lit_def)

lemma blit_simps [eval_simps]: "blit [] = []" "blit (c # s) = of_char c # blit s"
  by (simp_all add: blit_def)

section \<open>Raising and sequencing\<close>

definition raise :: "exn_kind \<Rightarrow> string \<Rightarrow> 'a res" where
  "raise k s = Inl (PyError k (lit s))"

definition bindE :: "'a res \<Rightarrow> ('a \<Rightarrow> 'b res) \<Rightarrow> 'b res" where
  "bindE m f = (case m of Inl e \<Rightarrow> Inl e | Inr x \<Rightarrow> f x)"

definition guardE :: "bool \<Rightarrow> exn_kind \<Rightarrow> string \<Rightarrow> unit res" where
  "guardE b k s = (if b then Inr () else raise k s)"

lemma bindE_simps [simp]: "bindE (Inl e) f = Inl e" "bindE (Inr x) f = f x"
  by (simp_all add: bindE_def)

lemma bindE_raise [simp]: "bindE (raise k s) f = raise k s"
  by (simp add: raise_def)

lemma bindE_eq_Inr: "bindE m f = Inr y \<longleftrightarrow> (\<exists>x. m = Inr x \<and> f x = Inr y)"
  by (cases m) simp_all

lemma bindE_eq_Inl: "bindE m f = Inl e \<longleftrightarrow> m = Inl e \<or> (\<exists>x. m = Inr x \<and> f x = Inl e)"
  by (cases m) simp_all

text \<open>A sequence succeeds with a property when its first part does and hands over what the rest needs.\<close>

lemma bindE_total:
  assumes "\<exists>x. m = Inr x \<and> Q x" and "\<And>x. m = Inr x \<Longrightarrow> Q x \<Longrightarrow> \<exists>y. f x = Inr y \<and> R y"
  shows "\<exists>y. bindE m f = Inr y \<and> R y"
  using assms by auto

lemma raise_neq_Inr [simp]: "raise k s \<noteq> Inr x" "Inr x \<noteq> raise k s"
  by (simp_all add: raise_def)

lemma raise_eq_Inl: "raise k s = Inl e \<longleftrightarrow> e = PyError k (lit s)"
  by (auto simp: raise_def)

lemma guardE_True [simp]: "guardE True k s = Inr ()"
  by (simp add: guardE_def)

lemma guardE_False [simp]: "guardE False k s = raise k s"
  by (simp add: guardE_def)

lemma guardE_eq_Inr [simp]: "guardE b k s = Inr u \<longleftrightarrow> b"
  by (simp add: guardE_def)

lemma guardE_eq_Inl: "guardE b k s = Inl e \<longleftrightarrow> \<not> b \<and> e = PyError k (lit s)"
  by (auto simp: guardE_def raise_eq_Inl)

text \<open>The kinds of exception a computation can end in: used to state error behaviour.\<close>

definition fails_only :: "exn_kind set \<Rightarrow> 'a res \<Rightarrow> bool" where
  "fails_only K m = (case m of Inl e \<Rightarrow> err_kind e \<in> K | Inr _ \<Rightarrow> True)"

lemma fails_only_simps [simp]:
  "fails_only K (Inr x)"
  "fails_only K (Inl e) \<longleftrightarrow> err_kind e \<in> K"
  "fails_only K (raise k s) \<longleftrightarrow> k \<in> K"
  "fails_only K (guardE b k s) \<longleftrightarrow> b \<or> k \<in> K"
  by (auto simp: fails_only_def raise_def guardE_def)

lemma fails_only_bindE [intro!]:
  "fails_only K m \<Longrightarrow> (\<And>x. m = Inr x \<Longrightarrow> fails_only K (f x)) \<Longrightarrow> fails_only K (bindE m f)"
  by (cases m) simp_all

lemma fails_only_mono: "fails_only K m \<Longrightarrow> K \<subseteq> L \<Longrightarrow> fails_only L m"
  by (cases m) auto

section \<open>Slices and indexing\<close>

text \<open>Python's \<open>d[i:j]\<close> for non-negative bounds: both ends are clipped to the length.\<close>

definition slice :: "'a list \<Rightarrow> nat \<Rightarrow> nat \<Rightarrow> 'a list" where
  "slice d i j = take (j - i) (drop i d)"

definition py_index :: "'a list \<Rightarrow> nat \<Rightarrow> 'a res" where
  "py_index d i = (if i < length d then Inr (d ! i) else raise IndexError ''index out of range'')"

lemma length_slice: "length (slice d i j) = min (j - i) (length d - i)"
  by (simp add: slice_def min.commute)

lemma slice_exact: "i + n \<le> length d \<Longrightarrow> length (slice d i (i + n)) = n"
  by (simp add: length_slice)

lemma slice_append_mid:
  "length a = i \<Longrightarrow> length b = n \<Longrightarrow> slice (a @ b @ c) i (i + n) = b"
  by (simp add: slice_def)

lemma slice_split: "i \<le> j \<Longrightarrow> j \<le> k \<Longrightarrow> slice d i j @ slice d j k = slice d i k"
proof -
  assume "i \<le> j" and "j \<le> k"
  then obtain a b where "j = i + a" and "k = i + a + b"
    by (metis le_add_diff_inverse)
  then show ?thesis
    by (simp add: slice_def take_add add.commute [of a i])
qed

lemma slice_split_append: "i \<le> j \<Longrightarrow> j \<le> k \<Longrightarrow> slice d i j @ slice d j k @ r = slice d i k @ r"
  using slice_split [of i j k d] by (metis append.assoc)

lemma slice_0_length [simp]: "slice d 0 (length d) = d"
  by (simp add: slice_def)

lemma drop_slice: "j \<le> length d \<Longrightarrow> i \<le> j \<Longrightarrow> drop i d = slice d i j @ drop j d"
  by (metis add.commute append_take_drop_id drop_drop le_add_diff_inverse2 slice_def)

section \<open>Big-endian integers\<close>

text \<open>\<open>be_enc k n\<close> is the \<open>k\<close>-byte big-endian form of \<open>n\<close> (its low \<open>8 * k\<close> bits).\<close>

fun be_enc :: "nat \<Rightarrow> nat \<Rightarrow> bytes" where
  "be_enc 0 n = []"
| "be_enc (Suc k) n = be_enc k (n div 256) @ [word_of_nat n]"

lemma be_enc_numeral [eval_simps]:
  "be_enc (numeral k) n = be_enc (pred_numeral k) (n div 256) @ [word_of_nat n]"
  by (metis be_enc.simps(2) numeral_eq_Suc)

definition be_dec :: "bytes \<Rightarrow> nat" where
  "be_dec bs = foldl (\<lambda>a b. a * 256 + unat b) 0 bs"

lemma length_be_enc [simp]: "length (be_enc k n) = k"
  by (induction k arbitrary: n) simp_all

lemma be_dec_Nil [simp]: "be_dec [] = 0"
  by (simp add: be_dec_def)

lemma be_dec_snoc [simp]: "be_dec (bs @ [b]) = be_dec bs * 256 + unat b"
  by (simp add: be_dec_def)

lemma be_dec_append: "be_dec (xs @ ys) = be_dec xs * 256 ^ length ys + be_dec ys"
proof (induction ys rule: rev_induct)
  case Nil
  then show ?case by simp
next
  case (snoc y ys)
  have "be_dec (xs @ ys @ [y]) = be_dec (xs @ ys) * 256 + unat y"
    using be_dec_snoc [of "xs @ ys" y] by simp
  then show ?case
    by (simp add: snoc.IH algebra_simps)
qed

lemma be_dec_Cons: "be_dec (b # bs) = unat b * 256 ^ length bs + be_dec bs"
  using be_dec_append [of "[b]" bs] by (simp add: be_dec_def)

lemma unat_byte_less [simp]: "unat (b :: 8 word) < 256"
  using unsigned_less [of b] by simp

lemma uint_byte_less [simp]: "uint (b :: 8 word) < 256"
  using unsigned_less [where 'a = int, of b] by simp

lemma be_dec_less [simp]: "be_dec bs < 256 ^ length bs"
proof (induction bs rule: rev_induct)
  case Nil
  then show ?case by simp
next
  case (snoc b bs)
  have "be_dec bs * 256 + unat b < (be_dec bs + 1) * 256"
    by (simp add: add_strict_left_mono)
  also have "\<dots> \<le> 256 ^ length bs * 256"
    using snoc by (intro mult_le_mono) simp_all
  finally show ?case by simp
qed

lemma be_dec_be_enc_mod: "be_dec (be_enc k n) = n mod 256 ^ k"
proof (induction k arbitrary: n)
  case 0
  then show ?case by simp
next
  case (Suc k)
  have "n mod 256 ^ Suc k = 256 * (n div 256 mod 256 ^ k) + n mod 256"
    by (simp add: mod_mult2_eq)
  moreover have "unat (word_of_nat n :: 8 word) = n mod 256"
    by (simp add: unat_of_nat)
  ultimately show ?case by (simp add: Suc.IH)
qed

lemma be_dec_be_enc [simp]: "n < 256 ^ k \<Longrightarrow> be_dec (be_enc k n) = n"
  by (simp add: be_dec_be_enc_mod)

lemma be_enc_be_dec: "be_enc (length bs) (be_dec bs) = bs"
proof (induction bs rule: rev_induct)
  case Nil
  then show ?case by simp
next
  case (snoc b bs)
  have less: "unat b < 256" by simp
  have "unat (word_of_nat (be_dec bs * 256 + unat b) :: 8 word) = (be_dec bs * 256 + unat b) mod 256"
    by (simp only: unat_of_nat) simp
  with less have "(word_of_nat (be_dec bs * 256 + unat b) :: 8 word) = b"
    by (intro word_unat_eq_iff [THEN iffD2]) simp
  with less show ?case using snoc by simp
qed

lemma be_enc_inject: "m < 256 ^ k \<Longrightarrow> n < 256 ^ k \<Longrightarrow> be_enc k m = be_enc k n \<longleftrightarrow> m = n"
  by (metis be_dec_be_enc)

lemma be_dec_inject: "length xs = length ys \<Longrightarrow> be_dec xs = be_dec ys \<longleftrightarrow> xs = ys"
  by (metis be_enc_be_dec)

section \<open>Python's integer conversions\<close>

text \<open>\<open>n.to_bytes(k, "big")\<close>, \<open>struct.pack\<close> of one unsigned field of \<open>k\<close> bytes, \<open>bytes([n])\<close>.\<close>

definition int_to_bytes :: "nat \<Rightarrow> int \<Rightarrow> bytes res" where
  "int_to_bytes k n =
     (if n < 0 then raise OverflowError ''can't convert negative int to unsigned''
      else if 256 ^ k \<le> nat n then raise OverflowError ''int too big to convert''
      else Inr (be_enc k (nat n)))"

definition struct_pack :: "nat \<Rightarrow> int \<Rightarrow> bytes res" where
  "struct_pack k n =
     (if n < 0 \<or> 256 ^ k \<le> nat n then raise StructError ''argument out of range''
      else Inr (be_enc k (nat n)))"

definition byte_of_int :: "int \<Rightarrow> byte res" where
  "byte_of_int n =
     (if n < 0 \<or> 256 \<le> n then raise ValueError ''bytes must be in range(0, 256)''
      else Inr (word_of_int n))"

fun bytes_of_ints :: "int list \<Rightarrow> bytes res" where
  "bytes_of_ints [] = Inr []"
| "bytes_of_ints (n # ns) =
     bindE (byte_of_int n) (\<lambda>b. bindE (bytes_of_ints ns) (\<lambda>bs. Inr (b # bs)))"

lemmas [eval_simps] = int_to_bytes_def struct_pack_def byte_of_int_def

lemma int_to_bytes_Inr:
  "int_to_bytes k n = Inr bs \<longleftrightarrow> 0 \<le> n \<and> nat n < 256 ^ k \<and> bs = be_enc k (nat n)"
  by (auto simp: int_to_bytes_def)

lemma struct_pack_Inr:
  "struct_pack k n = Inr bs \<longleftrightarrow> 0 \<le> n \<and> nat n < 256 ^ k \<and> bs = be_enc k (nat n)"
  by (auto simp: struct_pack_def)

lemma byte_of_int_Inr:
  "byte_of_int n = Inr b \<longleftrightarrow> 0 \<le> n \<and> n < 256 \<and> b = word_of_int n"
  by (auto simp: byte_of_int_def)

lemma uint_word_of_int_byte: "0 \<le> n \<Longrightarrow> n < 256 \<Longrightarrow> uint (word_of_int n :: 8 word) = n"
  by (simp add: uint_word_of_int)

lemma int_to_bytes_nat [simp]: "n < 256 ^ k \<Longrightarrow> int_to_bytes k (int n) = Inr (be_enc k n)"
  by (simp add: int_to_bytes_def)

lemma struct_pack_nat [simp]: "n < 256 ^ k \<Longrightarrow> struct_pack k (int n) = Inr (be_enc k n)"
  by (simp add: struct_pack_def)

lemma int_to_bytes_fails: "fails_only {OverflowError} (int_to_bytes k n)"
  by (simp add: int_to_bytes_def)

lemma struct_pack_fails: "fails_only {StructError} (struct_pack k n)"
  by (simp add: struct_pack_def)

lemma byte_of_int_fails: "fails_only {ValueError} (byte_of_int n)"
  by (simp add: byte_of_int_def)

lemma bytes_of_ints_fails: "fails_only {ValueError} (bytes_of_ints ns)"
  by (induction ns) (auto simp: byte_of_int_fails)

lemma byte_of_int_byte [simp]: "byte_of_int (uint b) = Inr b"
  by (simp add: byte_of_int_def not_le)

section \<open>Decimal rendering of integers\<close>

fun nat_str :: "nat \<Rightarrow> pystr" where
  "nat_str n = (if n < 10 then [48 + n] else nat_str (n div 10) @ [48 + n mod 10])"

declare nat_str.simps [simp del]

definition int_str :: "int \<Rightarrow> pystr" where
  "int_str n = (if n < 0 then 45 # nat_str (nat (- n)) else nat_str (nat n))"

section \<open>List facts used across components\<close>

lemma append_same_length_inject:
  "length a = length c \<Longrightarrow> a @ b = c @ d \<longleftrightarrow> a = c \<and> b = d"
  by simp

lemma in_set_tl: "x \<in> set (tl xs) \<Longrightarrow> x \<in> set xs"
  by (cases xs) simp_all

lemma take_append_exact: "length a = n \<Longrightarrow> take n (a @ b) = a"
  by simp

lemma drop_append_exact: "length a = n \<Longrightarrow> drop n (a @ b) = b"
  by simp

end
