(* ===== verification/Utf8.thy ===== *)
theory Utf8
  imports Prelude
begin

text \<open>
  The two UTF-8 operations of Python's standard library the repository uses: \<open>str.encode()\<close>
  (strict, raising on surrogates) and \<open>bytes.decode(errors="replace")\<close>, which substitutes
  U+FFFD for each maximal ill-formed subsequence.  The round trip \<open>utf8_replace_encode\<close> is what
  the codec (alerts) and the server's echo loop rest on.
\<close>

section \<open>Encoding\<close>

definition utf8_char :: "nat \<Rightarrow> nat list res" where
  "utf8_char c =
     (if c < 128 then Inr [c]
      else if c < 2048 then Inr [192 + c div 64, 128 + c mod 64]
      else if 55296 \<le> c \<and> c < 57344 then raise UnicodeEncodeError ''surrogates not allowed''
      else if c < 65536 then Inr [224 + c div 4096, 128 + c div 64 mod 64, 128 + c mod 64]
      else if c < 1114112 then
        Inr [240 + c div 262144, 128 + c div 4096 mod 64, 128 + c div 64 mod 64, 128 + c mod 64]
      else raise UnicodeEncodeError ''not a code point'')"

fun utf8_encode :: "pystr \<Rightarrow> bytes res" where
  "utf8_encode [] = Inr []"
| "utf8_encode (c # cs) =
     bindE (utf8_char c) (\<lambda>xs. bindE (utf8_encode cs) (\<lambda>bs. Inr (map word_of_nat xs @ bs)))"

section \<open>Decoding with replacement\<close>

text \<open>For a lead byte: the number of continuation bytes and the range allowed for the first.\<close>

definition utf8_lead :: "nat \<Rightarrow> (nat \<times> nat \<times> nat) option" where
  "utf8_lead n =
     (if 194 \<le> n \<and> n \<le> 223 then Some (1, 128, 191)
      else if n = 224 then Some (2, 160, 191)
      else if n = 237 then Some (2, 128, 159)
      else if 225 \<le> n \<and> n \<le> 239 then Some (2, 128, 191)
      else if n = 240 then Some (3, 144, 191)
      else if 241 \<le> n \<and> n \<le> 243 then Some (3, 128, 191)
      else if n = 244 then Some (3, 128, 143)
      else None)"

text \<open>The longest run of at most \<open>k\<close> valid continuation bytes; only the first has its own range.\<close>

fun utf8_conts :: "nat \<Rightarrow> nat \<Rightarrow> nat \<Rightarrow> bytes \<Rightarrow> nat list" where
  "utf8_conts 0 lo hi bs = []"
| "utf8_conts (Suc k) lo hi [] = []"
| "utf8_conts (Suc k) lo hi (c # cs) =
     (if lo \<le> unat c \<and> unat c \<le> hi then unat c # utf8_conts k 128 191 cs else [])"

definition utf8_point :: "nat \<Rightarrow> nat \<Rightarrow> nat list \<Rightarrow> nat" where
  "utf8_point k n cs = foldl (\<lambda>a c. a * 64 + c mod 64) (n mod 2 ^ (6 - k)) cs"

text \<open>One decoded code point and the number of further bytes it takes.\<close>

definition utf8_step :: "byte \<Rightarrow> bytes \<Rightarrow> nat \<times> nat" where
  "utf8_step b bs =
     (let n = unat b in
      if n < 128 then (n, 0)
      else case utf8_lead n of
        None \<Rightarrow> (65533, 0)
      | Some (k, lo, hi) \<Rightarrow>
          (let cs = utf8_conts k lo hi bs in
           if length cs = k then (utf8_point k n cs, k) else (65533, length cs)))"

function utf8_replace :: "bytes \<Rightarrow> pystr" where
  "utf8_replace [] = []"
| "utf8_replace (b # bs) =
     fst (utf8_step b bs) # utf8_replace (drop (snd (utf8_step b bs)) bs)"
  by pat_completeness auto
termination
  by (relation "measure length") auto

section \<open>Round trip\<close>

lemma utf8_replace_ascii: "unat b < 128 \<Longrightarrow> utf8_replace (b # bs) = unat b # utf8_replace bs"
  by (simp add: utf8_step_def)

lemma unat_word_of_nat_byte [simp]: "n < 256 \<Longrightarrow> unat (word_of_nat n :: 8 word) = n"
  by (simp add: unat_of_nat)

lemma utf8_conts_take:
  assumes "length xs = k" and "\<forall>x \<in> set (tl xs). 128 \<le> x \<and> x \<le> 191"
    and "xs \<noteq> [] \<Longrightarrow> lo \<le> hd xs \<and> hd xs \<le> hi" and "hi \<le> 191"
  shows "utf8_conts k lo hi (map word_of_nat xs @ bs) = xs"
  using assms
proof (induction xs arbitrary: k lo hi)
  case Nil
  then show ?case by simp
next
  case (Cons x xs)
  from Cons.prems obtain j where k: "k = Suc j" and j: "length xs = j" by (cases k) auto
  have "utf8_conts j 128 191 (map word_of_nat xs @ bs) = xs"
    using Cons.prems j by (intro Cons.IH) (auto dest: in_set_tl)
  with Cons.prems k show ?case by simp
qed

lemma utf8_replace_lead:
  assumes lead: "utf8_lead n = Some (k, lo, hi)" and n: "128 \<le> n" "n < 256"
    and len: "length xs = k" and conts: "\<forall>x \<in> set xs. 128 \<le> x \<and> x \<le> 191"
    and hd: "lo \<le> hd xs" "hd xs \<le> hi" and hi: "hi \<le> 191"
  shows "utf8_replace (map word_of_nat (n # xs) @ bs) = utf8_point k n xs # utf8_replace bs"
proof -
  have c: "utf8_conts k lo hi (map word_of_nat xs @ bs) = xs"
    using len conts hd hi by (intro utf8_conts_take) (auto dest: in_set_tl)
  have "utf8_step (word_of_nat n) (map word_of_nat xs @ bs) = (utf8_point k n xs, k)"
    using lead n len c by (simp add: utf8_step_def Let_def)
  then show ?thesis using len by simp
qed

text \<open>Reassembling the 6-bit groups.\<close>

lemma add_mod_small: "(a :: nat) mod m = 0 \<Longrightarrow> q < m \<Longrightarrow> (a + q) mod m = q"
  by (metis add.left_neutral mod_add_left_eq mod_less)

lemma utf8_point_two: "c < 2048 \<Longrightarrow> utf8_point 1 (192 + c div 64) [128 + c mod 64] = c"
proof -
  assume "c < 2048"
  then have "c div 64 < 32" by (simp add: div_less_iff_less_mult)
  then show ?thesis by (simp add: utf8_point_def add_mod_small)
qed

lemma utf8_point_three:
  assumes "c < 65536"
  shows "utf8_point 2 (224 + c div 4096) [128 + c div 64 mod 64, 128 + c mod 64] = c"
proof -
  have "c div 4096 < 16" using assms by (simp add: div_less_iff_less_mult)
  moreover have "c div 4096 = c div 64 div 64" by (simp flip: div_mult2_eq)
  ultimately show ?thesis by (simp add: utf8_point_def add_mod_small)
qed

lemma utf8_point_four:
  assumes "c < 1114112"
  shows "utf8_point 3 (240 + c div 262144)
    [128 + c div 4096 mod 64, 128 + c div 64 mod 64, 128 + c mod 64] = c"
proof -
  have "c div 262144 < 8" using assms by (simp add: div_less_iff_less_mult)
  moreover have "c div 4096 = c div 64 div 64" "c div 262144 = c div 64 div 64 div 64"
    by (simp_all flip: div_mult2_eq)
  ultimately show ?thesis by (simp add: utf8_point_def add_mod_small)
qed

lemma utf8_replace_char:
  assumes "utf8_char c = Inr xs"
  shows "utf8_replace (map word_of_nat xs @ bs) = c # utf8_replace bs"
proof -
  consider (one) "c < 128" "xs = [c]"
    | (two) "128 \<le> c" "c < 2048" "xs = [192 + c div 64, 128 + c mod 64]"
    | (three) "2048 \<le> c" "c < 65536" "c < 55296 \<or> 57344 \<le> c"
        "xs = [224 + c div 4096, 128 + c div 64 mod 64, 128 + c mod 64]"
    | (four) "65536 \<le> c" "c < 1114112"
        "xs = [240 + c div 262144, 128 + c div 4096 mod 64, 128 + c div 64 mod 64, 128 + c mod 64]"
    using assms by (auto simp: utf8_char_def split: if_splits)
  then show ?thesis
  proof cases
    case one
    then show ?thesis by (simp add: utf8_step_def)
  next
    case two
    let ?n = "192 + c div 64"
    have "2 \<le> c div 64" "c div 64 < 32"
      using two by (simp_all add: less_eq_div_iff_mult_less_eq div_less_iff_less_mult)
    then have "utf8_lead ?n = Some (1, 128, 191)" by (simp add: utf8_lead_def)
    then show ?thesis
      using two utf8_point_two [of c] utf8_replace_lead [of ?n 1 128 191 "[128 + c mod 64]" bs] by simp
  next
    case three
    let ?n = "224 + c div 4096" and ?x = "128 + c div 64 mod 64" and ?y = "128 + c mod 64"
    have p: "utf8_point 2 ?n [?x, ?y] = c"
      using three by (simp only: utf8_point_three)
    have x: "128 \<le> ?x" "?x \<le> 191" "?y \<le> 191" by simp_all
    define q where "q = c div 64"
    have q: "32 \<le> q" "q < 1024" "q < 864 \<or> 896 \<le> q" and n: "?n = 224 + q div 64"
      using three by (auto simp: q_def less_eq_div_iff_mult_less_eq div_less_iff_less_mult
        simp flip: div_mult2_eq)
    have "?n = 224 \<Longrightarrow> 160 \<le> ?x"
      using q(1) unfolding n q_def [symmetric] by simp
    moreover have "?n = 237 \<Longrightarrow> ?x \<le> 159"
      using q(3) div_mult_mod_eq [of q 64] unfolding n q_def [symmetric] by auto
    moreover have top: "?n \<le> 239"
      using q(2) unfolding n by simp
    ultimately    obtain lo hi where lead: "utf8_lead ?n = Some (2, lo, hi)" "lo \<le> ?x" "?x \<le> hi" "hi \<le> 191"
      using three x unfolding utf8_lead_def
      by (cases "?n = 224"; cases "?n = 237") (auto simp: div_le_mono)
    have "utf8_replace (map word_of_nat (?n # [?x, ?y]) @ bs) =
        utf8_point 2 ?n [?x, ?y] # utf8_replace bs"
      by (rule utf8_replace_lead [OF lead(1)]) (use lead x top in \<open>simp_all add: le_less_trans\<close>)
    then show ?thesis unfolding three(4) p .
  next
    case four
    let ?n = "240 + c div 262144" and ?x = "128 + c div 4096 mod 64"
      and ?y = "128 + c div 64 mod 64" and ?z = "128 + c mod 64"
    have p: "utf8_point 3 ?n [?x, ?y, ?z] = c"
      using four by (simp only: utf8_point_four)
    have x: "128 \<le> ?x" "?x \<le> 191" "?y \<le> 191" "?z \<le> 191" by simp_all
    define q where "q = c div 4096"
    have q: "16 \<le> q" "q < 272" and n: "?n = 240 + q div 64"
      using four by (auto simp: q_def less_eq_div_iff_mult_less_eq div_less_iff_less_mult
        simp flip: div_mult2_eq)
    have "?n = 240 \<Longrightarrow> 144 \<le> ?x"
      using q(1) unfolding n q_def [symmetric] by simp
    moreover have "?n = 244 \<Longrightarrow> ?x \<le> 143"
      using q(2) div_mult_mod_eq [of q 64] unfolding n q_def [symmetric] by simp
    moreover have top: "?n \<le> 244"
      using q(2) unfolding n by simp
    ultimately    obtain lo hi where lead: "utf8_lead ?n = Some (3, lo, hi)" "lo \<le> ?x" "?x \<le> hi" "hi \<le> 191"
      using four x unfolding utf8_lead_def
      by (cases "?n = 240"; cases "?n = 244") auto
    have "utf8_replace (map word_of_nat (?n # [?x, ?y, ?z]) @ bs) =
        utf8_point 3 ?n [?x, ?y, ?z] # utf8_replace bs"
      by (rule utf8_replace_lead [OF lead(1)]) (use lead x top in \<open>simp_all add: le_less_trans\<close>)
    then show ?thesis unfolding four(3) p .
  qed
qed

lemma utf8_replace_encode: "utf8_encode s = Inr bs \<Longrightarrow> utf8_replace bs = s"
proof (induction s arbitrary: bs)
  case Nil
  then show ?case by simp
next
  case (Cons c cs)
  from Cons.prems obtain xs bs' where x: "utf8_char c = Inr xs" and r: "utf8_encode cs = Inr bs'"
    and bs: "bs = map word_of_nat xs @ bs'"
    by (auto simp: bindE_eq_Inr)
  show ?case
    unfolding bs utf8_replace_char [OF x] Cons.IH [OF r] by (rule refl)
qed

lemma utf8_encode_append:
  "utf8_encode (s @ t) = bindE (utf8_encode s) (\<lambda>a. bindE (utf8_encode t) (\<lambda>b. Inr (a @ b)))"
proof (induction s)
  case Nil
  then show ?case by (cases "utf8_encode t") simp_all
next
  case (Cons c cs)
  then show ?case
    by (cases "utf8_char c"; cases "utf8_encode cs"; cases "utf8_encode t") simp_all
qed

lemma utf8_encode_fails: "fails_only {UnicodeEncodeError} (utf8_encode s)"
  by (induction s) (auto simp: utf8_char_def)

section \<open>Decoded text is encodable\<close>

text \<open>The result of a decoding with replacement can always be encoded again.\<close>

lemma utf8_conts_hd: "utf8_conts k lo hi bs = c # cs \<Longrightarrow> lo \<le> c \<and> c \<le> hi"
  by (cases "(k, lo, hi, bs)" rule: utf8_conts.cases) (auto split: if_splits)

lemma utf8_conts_length: "length (utf8_conts k lo hi bs) \<le> min k (length bs)"
  by (induction k lo hi bs rule: utf8_conts.induct) auto

lemma utf8_char_scalar:
  "c < 55296 \<or> 57344 \<le> c \<and> c < 1114112 \<Longrightarrow>
    \<exists>xs. utf8_char c = Inr xs \<and> length xs = (if c < 128 then 1 else if c < 2048 then 2 else if c < 65536 then 3 else 4)"
  by (auto simp: utf8_char_def)

lemma utf8_point_two_range: "utf8_point 1 n [c] < 2048"
proof -
  have "n mod 32 < 32" "c mod 64 < 64" by simp_all
  then show ?thesis by (simp add: utf8_point_def)
qed

lemma mod64_range: "128 \<le> c \<Longrightarrow> c \<le> 191 \<Longrightarrow> c mod 64 = c - (128 :: nat)"
  using add_mod_small [of 128 64 "c - 128"] by simp

lemma utf8_point_three_range:
  assumes "utf8_lead n = Some (2, lo, hi)" and "lo \<le> c" and "c \<le> hi"
  shows "utf8_point 2 n [c, d] < 55296 \<or> 57344 \<le> utf8_point 2 n [c, d] \<and> utf8_point 2 n [c, d] < 65536"
proof -
  have n: "224 \<le> n" "n \<le> 239" using assms(1) by (auto simp: utf8_lead_def split: if_splits)
  then have m: "n mod 16 = n - 224" using add_mod_small [of 224 16 "n - 224"] by simp
  define x y where "x = c mod 64" and "y = d mod 64"
  have p: "utf8_point 2 n [c, d] = (n - 224) * 4096 + x * 64 + y"
    using m by (simp add: utf8_point_def x_def y_def)
  have cd: "x < 64" "y < 64" by (simp_all add: x_def y_def)
  consider "n < 237" | "n = 237" | "237 < n" by linarith
  then show ?thesis
  proof cases
    case 2
    with assms have "128 \<le> c" "c \<le> 159" by (auto simp: utf8_lead_def)
    then have "x \<le> 31" using mod64_range [of c] by (simp add: x_def)
    with 2 p cd show ?thesis by simp
  qed (use p cd n in linarith)+
qed

lemma utf8_point_four_range:
  assumes "utf8_lead n = Some (3, lo, hi)" and "lo \<le> c" and "c \<le> hi"
  shows "65536 \<le> utf8_point 3 n [c, d, e] \<and> utf8_point 3 n [c, d, e] < 1114112"
proof -
  have n: "240 \<le> n" "n \<le> 244" using assms(1) by (auto simp: utf8_lead_def split: if_splits)
  then have m: "n mod 8 = n - 240" using add_mod_small [of 240 8 "n - 240"] by simp
  define x y z where "x = c mod 64" and "y = d mod 64" and "z = e mod 64"
  have p: "utf8_point 3 n [c, d, e] = (n - 240) * 262144 + x * 4096 + y * 64 + z"
    using m by (simp add: utf8_point_def x_def y_def z_def)
  have cd: "x < 64" "y < 64" "z < 64" by (simp_all add: x_def y_def z_def)
  have c: "128 \<le> c" "c \<le> 191" using assms by (auto simp: utf8_lead_def split: if_splits)
  have cm: "x = c - 128" using mod64_range [OF c] by (simp add: x_def)
  consider "n = 240" | "240 < n" "n < 244" | "n = 244" using n by linarith
  then show ?thesis
  proof cases
    case 1
    with assms have "144 \<le> c" by (auto simp: utf8_lead_def)
    with 1 p cd cm show ?thesis by linarith
  next
    case 2
    with p cd show ?thesis by linarith
  next
    case 3
    with assms have "c \<le> 143" by (auto simp: utf8_lead_def)
    with 3 p cd cm show ?thesis by linarith
  qed
qed

lemma utf8_step_encodes:
  "\<exists>xs. utf8_char (fst (utf8_step b bs)) = Inr xs \<and> length xs \<le> 3 * Suc (snd (utf8_step b bs)) \<and>
    snd (utf8_step b bs) \<le> length bs"
proof (cases "utf8_lead (unat b)")
  case None
  then have "utf8_step b bs = (if unat b < 128 then (unat b, 0) else (65533, 0))"
    by (simp add: utf8_step_def)
  then show ?thesis by (simp add: utf8_char_def)
next
  case (Some klh)
  obtain k lo hi where klh: "klh = (k, lo, hi)" by (cases klh)
  define cs where "cs = utf8_conts k lo hi bs"
  have len: "length cs \<le> k" "length cs \<le> length bs" using utf8_conts_length [of k lo hi bs] by (simp_all add: cs_def)
  have big: "\<not> unat b < 128" and k: "k = 1 \<or> k = 2 \<or> k = 3"
    using Some klh by (auto simp: utf8_lead_def split: if_splits)
  show ?thesis
  proof (cases "length cs = k")
    case False
    then have "utf8_step b bs = (65533, length cs)"
      using Some klh big by (simp add: utf8_step_def cs_def [symmetric])
    with len show ?thesis by (simp add: utf8_char_def)
  next
    case True
    then have s: "utf8_step b bs = (utf8_point k (unat b) cs, k)"
      using Some klh big by (simp add: utf8_step_def cs_def [symmetric])
    from k have "\<exists>xs. utf8_char (utf8_point k (unat b) cs) = Inr xs \<and> length xs \<le> 3 * Suc k"
    proof (elim disjE)
      assume "k = 1"
      with True obtain c where "cs = [c]" by (auto simp: length_Suc_conv)
      with \<open>k = 1\<close> utf8_point_two_range [of "unat b" c] utf8_char_scalar [of "utf8_point 1 (unat b) cs"]
      show ?thesis by (auto split: if_splits)
    next
      assume "k = 2"
      with True obtain c d where cs: "cs = [c, d]" by (auto simp: length_Suc_conv numeral_2_eq_2)
      have "lo \<le> c \<and> c \<le> hi" using utf8_conts_hd cs cs_def by metis
      with \<open>k = 2\<close> cs utf8_point_three_range [of "unat b" lo hi c d] Some klh
        utf8_char_scalar [of "utf8_point 2 (unat b) cs"]
      show ?thesis by (auto split: if_splits)
    next
      assume "k = 3"
      with True obtain c d e where cs: "cs = [c, d, e]" by (auto simp: length_Suc_conv numeral_3_eq_3)
      have "lo \<le> c \<and> c \<le> hi" using utf8_conts_hd cs cs_def by metis
      with \<open>k = 3\<close> cs utf8_point_four_range [of "unat b" lo hi c d e] Some klh
        utf8_char_scalar [of "utf8_point 3 (unat b) cs"]
      show ?thesis by (auto split: if_splits)
    qed
    with s len True show ?thesis by simp
  qed
qed

lemma utf8_encode_replace: "\<exists>out. utf8_encode (utf8_replace bs) = Inr out \<and> length out \<le> 3 * length bs"
proof (induction bs rule: utf8_replace.induct)
  case 1
  then show ?case by simp
next
  case (2 b bs)
  obtain xs where "utf8_char (fst (utf8_step b bs)) = Inr xs" "length xs \<le> 3 * Suc (snd (utf8_step b bs))"
    "snd (utf8_step b bs) \<le> length bs" using utf8_step_encodes by blast
  with 2 show ?case by auto
qed

section \<open>Strict decoding\<close>

text \<open>
  \<open>bytes.decode()\<close>: the well-formed byte strings are those that the replacing decoder reads without
  replacing anything, that is, whose decoding encodes to them again.
\<close>

definition utf8_decode :: "bytes \<Rightarrow> pystr res" where
  "utf8_decode bs = (if utf8_encode (utf8_replace bs) = Inr bs then Inr (utf8_replace bs)
     else raise UnicodeDecodeError ''invalid data'')"

lemma utf8_decode_encode: "utf8_encode s = Inr bs \<Longrightarrow> utf8_decode bs = Inr s"
  by (simp add: utf8_decode_def utf8_replace_encode)

end
