(* ===== verification/Hex.thy ===== *)
theory Hex
  imports Prelude
begin

text \<open>
  \<open>bytes.hex()\<close> and \<open>bytes.fromhex()\<close>, through which credential identifiers become dictionary
  keys and records become JSON strings: \<open>hex\<close> is injective and \<open>fromhex\<close> inverts it.
\<close>

definition hex_digit :: "nat \<Rightarrow> nat" where
  "hex_digit n = (if n < 10 then 48 + n else 87 + n)"

fun hex_str :: "bytes \<Rightarrow> pystr" where
  "hex_str [] = []"
| "hex_str (b # bs) = hex_digit (unat b div 16) # hex_digit (unat b mod 16) # hex_str bs"

definition hex_value :: "nat \<Rightarrow> nat option" where
  "hex_value c =
     (if 48 \<le> c \<and> c \<le> 57 then Some (c - 48)
      else if 97 \<le> c \<and> c \<le> 102 then Some (c - 87)
      else if 65 \<le> c \<and> c \<le> 70 then Some (c - 55)
      else None)"

definition ascii_space :: "nat \<Rightarrow> bool" where
  "ascii_space c \<longleftrightarrow> c = 32 \<or> (9 \<le> c \<and> c \<le> 13)"

text \<open>Between bytes \<open>fromhex\<close> skips ASCII white space; anything else than two digits is an error.\<close>

definition fromhex_error :: "bytes res" where
  "fromhex_error = raise ValueError ''non-hexadecimal number found in fromhex() arg''"

fun fromhex :: "pystr \<Rightarrow> bytes res" where
  "fromhex [] = Inr []"
| "fromhex [c] = (if ascii_space c then Inr [] else fromhex_error)"
| "fromhex (c # d # s) =
     (if ascii_space c then fromhex (d # s)
      else (case (hex_value c, hex_value d) of
              (Some h, Some l) \<Rightarrow> bindE (fromhex s) (\<lambda>bs. Inr (word_of_nat (16 * h + l) # bs))
            | _ \<Rightarrow> fromhex_error))"

lemma hex_digit_no_space: "n < 16 \<Longrightarrow> \<not> ascii_space (hex_digit n)"
  by (auto simp: ascii_space_def hex_digit_def)

lemma hex_value_digit [simp]: "n < 16 \<Longrightarrow> hex_value (hex_digit n) = Some n"
  by (auto simp: hex_value_def hex_digit_def)

lemma fromhex_hex [simp]: "fromhex (hex_str bs) = Inr bs"
proof (induction bs)
  case (Cons b bs)
  have "unat b < 256" by simp
  then have "unat b div 16 < 16" by linarith
  then show ?case using Cons by (simp add: hex_digit_no_space)
qed simp

lemma hex_str_inject [simp]: "hex_str x = hex_str y \<longleftrightarrow> x = y"
  by (metis fromhex_hex sum.inject(2))

lemma fromhex_fails: "fails_only {ValueError} (fromhex s)"
  by (induction s rule: fromhex.induct) (auto simp: fromhex_error_def split: option.splits)

end
