(* ===== verification/Codec.thy ===== *)
theory Codec
  imports Prelude Utf8
begin

text \<open>
  The wire codec (\<open>codec.py\<close>): the cursor-based reader \<open>_R\<close>, the length-prefix helpers, and the
  encoder and decoder of each of the six message kinds.  The interface other modules rely on is
  the locale \<open>message_codec\<close> (decoding inverts encoding, whatever bytes follow) and its extension
  \<open>canonical_codec\<close> (a decoded message re-encodes to the bytes it was read from); both are
  interpreted on the code's encoders and decoders at the end.
\<close>

section \<open>Constants\<close>

definition TAG_CLIENT_HELLO :: int where [simp]: "TAG_CLIENT_HELLO = 1"
definition TAG_SERVER_HELLO :: int where [simp]: "TAG_SERVER_HELLO = 2"
definition TAG_CLIENT_FINISH :: int where [simp]: "TAG_CLIENT_FINISH = 3"
definition TAG_APP_DATA :: int where [simp]: "TAG_APP_DATA = 4"
definition TAG_ALERT :: int where [simp]: "TAG_ALERT = 5"
definition TAG_CLOSE :: int where [simp]: "TAG_CLOSE = 6"

definition HASH_LEN :: nat where [simp]: "HASH_LEN = 64"
definition NONCE_LEN :: nat where [simp]: "NONCE_LEN = 32"

definition ALERT_WARNING :: int where [simp]: "ALERT_WARNING = 1"
definition ALERT_FATAL :: int where [simp]: "ALERT_FATAL = 2"

section \<open>Parsed messages\<close>

record parsed_client_hello =
  ch_version :: int
  ch_credential_id :: bytes
  ch_client_nonce :: bytes
  ch_opaque_ke1 :: bytes

record parsed_server_hello =
  sh_version :: int
  sh_server_nonce :: bytes
  sh_opaque_ke2 :: bytes
  sh_certificate_chain :: bytes
  sh_server_config :: bytes
  sh_server_config_sig :: bytes
  sh_cert_verify_sig :: bytes

record parsed_client_finish =
  cf_opaque_ke3 :: bytes

record parsed_app_data =
  ad_seq :: int
  ad_ciphertext :: bytes

record parsed_alert =
  al_level :: int
  al_message :: pystr

section \<open>Reader\<close>

text \<open>\<open>_R\<close> keeps the whole buffer and an offset; a failed read raises and ends the decode.\<close>

record reader =
  rd_d :: bytes
  rd_p :: nat

definition reader_init :: "bytes \<Rightarrow> reader" where
  "reader_init d = \<lparr>rd_d = d, rd_p = 0\<rparr>"

definition truncated_msg :: "nat \<Rightarrow> nat \<Rightarrow> nat \<Rightarrow> pystr" where
  "truncated_msg p n have_n =
     lit ''Truncated at offset '' @ nat_str p @ lit '': need '' @ nat_str n @
     lit '', have '' @ nat_str have_n"

definition r_read :: "nat \<Rightarrow> reader \<Rightarrow> (bytes \<times> reader) res" where
  "r_read n r =
     (let c = slice (rd_d r) (rd_p r) (rd_p r + n) in
      if length c \<noteq> n then Inl (PyError ValueError (truncated_msg (rd_p r) n (length c)))
      else Inr (c, r\<lparr>rd_p := rd_p r + n\<rparr>))"

definition r_u8 :: "reader \<Rightarrow> (int \<times> reader) res" where
  "r_u8 r = bindE (r_read 1 r) (\<lambda>(c, r'). bindE (py_index c 0) (\<lambda>b. Inr (int (unat b), r')))"

definition r_u16 :: "reader \<Rightarrow> (int \<times> reader) res" where
  "r_u16 r = bindE (r_read 2 r) (\<lambda>(c, r'). Inr (int (be_dec c), r'))"

definition r_u24 :: "reader \<Rightarrow> (int \<times> reader) res" where
  "r_u24 r = bindE (r_read 3 r) (\<lambda>(c, r'). Inr (int (be_dec c), r'))"

definition r_u32 :: "reader \<Rightarrow> (int \<times> reader) res" where
  "r_u32 r = bindE (r_read 4 r) (\<lambda>(c, r'). Inr (int (be_dec c), r'))"

definition r_u64 :: "reader \<Rightarrow> (int \<times> reader) res" where
  "r_u64 r = bindE (r_read 8 r) (\<lambda>(c, r'). Inr (int (be_dec c), r'))"

definition r_v16 :: "reader \<Rightarrow> (bytes \<times> reader) res" where
  "r_v16 r = bindE (r_u16 r) (\<lambda>(n, r'). r_read (nat n) r')"

definition r_v24 :: "reader \<Rightarrow> (bytes \<times> reader) res" where
  "r_v24 r = bindE (r_u24 r) (\<lambda>(n, r'). r_read (nat n) r')"

definition p16 :: "bytes \<Rightarrow> bytes res" where
  "p16 d = bindE (struct_pack 2 (int (length d))) (\<lambda>l. Inr (l @ d))"

definition p24 :: "bytes \<Rightarrow> bytes res" where
  "p24 d = bindE (int_to_bytes 3 (int (length d))) (\<lambda>l. Inr (l @ d))"

section \<open>Messages\<close>

definition encode_client_hello :: "int \<Rightarrow> bytes \<Rightarrow> bytes \<Rightarrow> bytes \<Rightarrow> bytes res" where
  "encode_client_hello version credential_id client_nonce opaque_ke1 =
     bindE (guardE (length credential_id = HASH_LEN) AssertionError ''credential_id must be 64B'') (\<lambda>_.
     bindE (guardE (length client_nonce = NONCE_LEN) AssertionError ''client_nonce must be 32B'') (\<lambda>_.
     bindE (bytes_of_ints [TAG_CLIENT_HELLO, version]) (\<lambda>h.
     bindE (p16 opaque_ke1) (\<lambda>k. Inr (h @ credential_id @ client_nonce @ k)))))"

definition decode_client_hello :: "bytes \<Rightarrow> parsed_client_hello res" where
  "decode_client_hello data =
     bindE (r_u8 (reader_init data)) (\<lambda>(tag, r).
     bindE (guardE (tag = TAG_CLIENT_HELLO) AssertionError ''Not a ClientHello'') (\<lambda>_.
     bindE (r_u8 r) (\<lambda>(version, r).
     bindE (r_read HASH_LEN r) (\<lambda>(cid, r).
     bindE (r_read NONCE_LEN r) (\<lambda>(nonce, r).
     bindE (r_v16 r) (\<lambda>(ke1, r).
       Inr \<lparr>ch_version = version, ch_credential_id = cid, ch_client_nonce = nonce,
            ch_opaque_ke1 = ke1\<rparr>))))))"

definition encode_server_hello_core ::
  "int \<Rightarrow> bytes \<Rightarrow> bytes \<Rightarrow> bytes \<Rightarrow> bytes \<Rightarrow> bytes res" where
  "encode_server_hello_core version server_nonce certificate server_config opaque_ke2 =
     bindE (guardE (length server_nonce = NONCE_LEN) AssertionError '''') (\<lambda>_.
     bindE (bytes_of_ints [version]) (\<lambda>v.
     bindE (p16 opaque_ke2) (\<lambda>k.
     bindE (p24 certificate) (\<lambda>c.
     bindE (p16 server_config) (\<lambda>s. Inr (v @ server_nonce @ k @ c @ s))))))"

definition encode_server_hello :: "bytes \<Rightarrow> bytes \<Rightarrow> bytes \<Rightarrow> bytes res" where
  "encode_server_hello core server_config_sig cert_verify_sig =
     bindE (bytes_of_ints [TAG_SERVER_HELLO]) (\<lambda>t.
     bindE (p16 server_config_sig) (\<lambda>a.
     bindE (p16 cert_verify_sig) (\<lambda>b. Inr (t @ core @ a @ b))))"

definition decode_server_hello :: "bytes \<Rightarrow> parsed_server_hello res" where
  "decode_server_hello data =
     bindE (r_u8 (reader_init data)) (\<lambda>(tag, r).
     bindE (guardE (tag = TAG_SERVER_HELLO) AssertionError ''Not a ServerHello'') (\<lambda>_.
     bindE (r_u8 r) (\<lambda>(version, r).
     bindE (r_read NONCE_LEN r) (\<lambda>(srv_nonce, r).
     bindE (r_v16 r) (\<lambda>(ke2, r).
     bindE (r_v24 r) (\<lambda>(cert, r).
     bindE (r_v16 r) (\<lambda>(cfg, r).
     bindE (r_v16 r) (\<lambda>(csig, r).
     bindE (r_v16 r) (\<lambda>(cvsig, r).
       Inr \<lparr>sh_version = version, sh_server_nonce = srv_nonce, sh_opaque_ke2 = ke2,
            sh_certificate_chain = cert, sh_server_config = cfg, sh_server_config_sig = csig,
            sh_cert_verify_sig = cvsig\<rparr>)))))))))"

definition encode_client_finish :: "bytes \<Rightarrow> bytes res" where
  "encode_client_finish opaque_ke3 =
     bindE (bytes_of_ints [TAG_CLIENT_FINISH]) (\<lambda>t. bindE (p16 opaque_ke3) (\<lambda>k. Inr (t @ k)))"

definition decode_client_finish :: "bytes \<Rightarrow> parsed_client_finish res" where
  "decode_client_finish data =
     bindE (r_u8 (reader_init data)) (\<lambda>(tag, r).
     bindE (guardE (tag = TAG_CLIENT_FINISH) AssertionError ''Not a ClientFinish'') (\<lambda>_.
     bindE (r_v16 r) (\<lambda>(ke3, r). Inr \<lparr>cf_opaque_ke3 = ke3\<rparr>)))"

definition encode_app_data :: "int \<Rightarrow> bytes \<Rightarrow> bytes res" where
  "encode_app_data seq ciphertext =
     bindE (bytes_of_ints [TAG_APP_DATA]) (\<lambda>t.
     bindE (struct_pack 8 seq) (\<lambda>s.
     bindE (struct_pack 4 (int (length ciphertext))) (\<lambda>l. Inr (t @ s @ l @ ciphertext))))"

definition decode_app_data :: "bytes \<Rightarrow> parsed_app_data res" where
  "decode_app_data data =
     bindE (r_u8 (reader_init data)) (\<lambda>(tag, r).
     bindE (guardE (tag = TAG_APP_DATA) AssertionError ''Not AppData'') (\<lambda>_.
     bindE (r_u64 r) (\<lambda>(seq, r).
     bindE (r_u32 r) (\<lambda>(n, r).
     bindE (r_read (nat n) r) (\<lambda>(ct, r). Inr \<lparr>ad_seq = seq, ad_ciphertext = ct\<rparr>)))))"

definition encode_alert :: "int \<Rightarrow> pystr \<Rightarrow> bytes res" where
  "encode_alert level message =
     bindE (bytes_of_ints [TAG_ALERT, level]) (\<lambda>t.
     bindE (utf8_encode message) (\<lambda>m. bindE (p16 m) (\<lambda>b. Inr (t @ b))))"

definition decode_alert :: "bytes \<Rightarrow> parsed_alert res" where
  "decode_alert data =
     bindE (r_u8 (reader_init data)) (\<lambda>(tag, r).
     bindE (guardE (tag = TAG_ALERT) AssertionError ''Not an Alert'') (\<lambda>_.
     bindE (r_u8 r) (\<lambda>(level, r).
     bindE (r_v16 r) (\<lambda>(msg, r). Inr \<lparr>al_level = level, al_message = utf8_replace msg\<rparr>))))"

definition encode_close :: "bytes res" where
  "encode_close = bytes_of_ints [TAG_CLOSE]"

section \<open>The reader, seen as the bytes that remain\<close>

definition r_rest :: "reader \<Rightarrow> bytes" where
  "r_rest r = drop (rd_p r) (rd_d r)"

lemma r_rest_init [simp]: "r_rest (reader_init d) = d"
  by (simp add: r_rest_def reader_init_def)

lemma r_rest_adv [simp]: "r_rest (r\<lparr>rd_p := rd_p r + n\<rparr>) = drop n (r_rest r)"
  by (simp add: r_rest_def add.commute)

lemma slice_r_rest: "slice (rd_d r) (rd_p r) (rd_p r + n) = take n (r_rest r)"
  by (simp add: slice_def r_rest_def)

lemma r_read_append:
  "r_rest r = a @ t \<Longrightarrow> length a = n \<Longrightarrow> \<exists>r'. r_read n r = Inr (a, r') \<and> r_rest r' = t"
  by (simp add: r_read_def slice_r_rest Let_def)

lemma r_read_Inr: "r_read n r = Inr (a, r') \<Longrightarrow> r_rest r = a @ r_rest r' \<and> length a = n"
  by (auto simp: r_read_def slice_r_rest Let_def split: if_splits)

lemma r_read_fails: "fails_only {ValueError} (r_read n r)"
  by (simp add: r_read_def Let_def)

text \<open>
  The contract between a field's encoder and its reader: reading inverts encoding in front of any
  further bytes, a value that was read encodes to exactly the bytes consumed, and a failed read
  raises \<open>ValueError\<close>.
\<close>

locale field_codec =
  fixes enc :: "'a \<Rightarrow> bytes res"
    and rd :: "reader \<Rightarrow> ('a \<times> reader) res"
  assumes rd_enc: "enc x = Inr bs \<Longrightarrow> r_rest r = bs @ t \<Longrightarrow> \<exists>r'. rd r = Inr (x, r') \<and> r_rest r' = t"
    and enc_rd: "rd r = Inr (x, r') \<Longrightarrow> \<exists>bs. enc x = Inr bs \<and> r_rest r = bs @ r_rest r'"
    and rd_fails: "fails_only {ValueError} (rd r)"
begin

lemma prefix_free:
  assumes "enc x = Inr a" and "enc y = Inr b" and "a @ s = b @ t"
  shows "x = y \<and> s = t"
proof -
  have "\<exists>r'. rd (reader_init (a @ s)) = Inr (x, r') \<and> r_rest r' = s"
    using assms(1) by (intro rd_enc) simp_all
  moreover have "\<exists>r'. rd (reader_init (a @ s)) = Inr (y, r') \<and> r_rest r' = t"
    using assms(2,3) by (intro rd_enc) simp_all
  ultimately show ?thesis by auto
qed

lemma enc_inject: "enc x = Inr a \<Longrightarrow> enc y = Inr a \<Longrightarrow> x = y"
  using prefix_free [of x a y a "[]" "[]"] by simp

end

text \<open>Two shapes cover all fields: a big-endian integer, and bytes behind their length.\<close>

lemma field_codec_uint:
  assumes enc: "\<And>n. enc n = (if 0 \<le> n \<and> nat n < 256 ^ k then Inr (be_enc k (nat n)) else Inl (e n))"
    and rd: "\<And>r. rd r = bindE (r_read k r) (\<lambda>(c, r'). Inr (int (be_dec c), r'))"
  shows "field_codec enc rd"
proof
  fix x bs r t
  assume "enc x = Inr bs" and rest: "r_rest r = bs @ t"
  then have x: "0 \<le> x" "nat x < 256 ^ k" "bs = be_enc k (nat x)"
    by (auto simp: enc split: if_splits)
  then obtain r' where "r_read k r = Inr (bs, r')" "r_rest r' = t"
    using r_read_append [OF rest, of k] by auto
  with x show "\<exists>r'. rd r = Inr (x, r') \<and> r_rest r' = t"
    by (simp add: rd)
next
  fix r x r'
  assume "rd r = Inr (x, r')"
  then obtain c where c: "r_read k r = Inr (c, r')" "x = int (be_dec c)"
    by (auto simp: rd bindE_eq_Inr)
  then have "r_rest r = c @ r_rest r'" "length c = k"
    using r_read_Inr by auto
  then show "\<exists>bs. enc x = Inr bs \<and> r_rest r = bs @ r_rest r'"
    using c be_dec_less [of c] be_enc_be_dec [of c] by (auto simp: enc)
next
  fix r
  show "fails_only {ValueError} (rd r)"
    by (auto simp: rd r_read_fails split: prod.split)
qed

lemma field_codec_prefixed:
  assumes len: "field_codec encl rdl"
    and enc: "\<And>d. enc d = bindE (encl (int (length d))) (\<lambda>l. Inr (l @ d))"
    and rd: "\<And>r. rd r = bindE (rdl r) (\<lambda>(n, r'). r_read (nat n) r')"
    and nonneg: "\<And>n bs. encl n = Inr bs \<Longrightarrow> 0 \<le> n"
  shows "field_codec enc rd"
proof
  fix x bs r t
  assume "enc x = Inr bs" and rest: "r_rest r = bs @ t"
  then obtain l where l: "encl (int (length x)) = Inr l" "bs = l @ x"
    by (auto simp: enc bindE_eq_Inr)
  then obtain r1 where r1: "rdl r = Inr (int (length x), r1)" "r_rest r1 = x @ t"
    using field_codec.rd_enc [OF len l(1)] rest by auto
  then obtain r2 where "r_read (length x) r1 = Inr (x, r2)" "r_rest r2 = t"
    using r_read_append by blast
  with r1 show "\<exists>r'. rd r = Inr (x, r') \<and> r_rest r' = t"
    by (simp add: rd)
next
  fix r x r'
  assume "rd r = Inr (x, r')"
  then obtain n r1 where n: "rdl r = Inr (n, r1)" and x: "r_read (nat n) r1 = Inr (x, r')"
    by (auto simp: rd bindE_eq_Inr)
  obtain l where l: "encl n = Inr l" "r_rest r = l @ r_rest r1"
    using field_codec.enc_rd [OF len n] by blast
  have "r_rest r1 = x @ r_rest r'" "length x = nat n"
    using r_read_Inr [OF x] by auto
  then show "\<exists>bs. enc x = Inr bs \<and> r_rest r = bs @ r_rest r'"
    using l nonneg [OF l(1)] by (simp add: enc)
next
  fix r
  show "fails_only {ValueError} (rd r)"
    by (auto simp: rd r_read_fails field_codec.rd_fails [OF len] split: prod.split)
qed

lemma struct_pack_if:
  "struct_pack k n = (if 0 \<le> n \<and> nat n < 256 ^ k then Inr (be_enc k (nat n))
     else Inl (PyError StructError (lit ''argument out of range'')))"
  by (auto simp: struct_pack_def raise_def)

lemma int_to_bytes_if:
  "int_to_bytes k n = (if 0 \<le> n \<and> nat n < 256 ^ k then Inr (be_enc k (nat n))
     else Inl (PyError OverflowError (if n < 0 then lit ''can't convert negative int to unsigned''
       else lit ''int too big to convert'')))"
  by (auto simp: int_to_bytes_def raise_def)

lemma bytes_of_int_if:
  "bytes_of_ints [n] = (if 0 \<le> n \<and> nat n < 256 ^ 1 then Inr (be_enc 1 (nat n))
     else Inl (PyError ValueError (lit ''bytes must be in range(0, 256)'')))"
  by (cases n) (auto simp: byte_of_int_def raise_def)

lemma r_u8_alt: "r_u8 r = bindE (r_read 1 r) (\<lambda>(c, r'). Inr (int (be_dec c), r'))"
proof (cases "r_read 1 r")
  case (Inr p)
  obtain c r' where p: "p = (c, r')" by (cases p)
  then have "length c = 1" using Inr r_read_Inr by blast
  then obtain b where "c = [b]" by (auto simp: length_Suc_conv)
  then show ?thesis
    using Inr p by (simp add: r_u8_def py_index_def be_dec_Cons)
qed (simp add: r_u8_def)

interpretation f_u8: field_codec "\<lambda>n. bytes_of_ints [n]" r_u8
  by (rule field_codec_uint [OF bytes_of_int_if r_u8_alt])

interpretation f_u16: field_codec "struct_pack 2" r_u16
  by (rule field_codec_uint [OF struct_pack_if r_u16_def])

interpretation f_u24: field_codec "int_to_bytes 3" r_u24
  by (rule field_codec_uint [OF int_to_bytes_if r_u24_def])

interpretation f_u32: field_codec "struct_pack 4" r_u32
  by (rule field_codec_uint [OF struct_pack_if r_u32_def])

interpretation f_u64: field_codec "struct_pack 8" r_u64
  by (rule field_codec_uint [OF struct_pack_if r_u64_def])

interpretation f_v16: field_codec p16 r_v16
  by (rule field_codec_prefixed [OF f_u16.field_codec_axioms p16_def r_v16_def])
     (simp add: struct_pack_Inr)

interpretation f_v24: field_codec p24 r_v24
  by (rule field_codec_prefixed [OF f_u24.field_codec_axioms p24_def r_v24_def])
     (simp add: int_to_bytes_Inr)

section \<open>The message interface\<close>

text \<open>
  What a user of a message kind relies on.  \<open>message_codec\<close>: decoding the bytes of an encoded
  message yields the message, whatever follows them.  Hence encodings are injective, prefix-free
  and uniquely parsed from a stream.  \<open>canonical_codec\<close> adds that whatever decodes was written in
  the one form the encoder produces.
\<close>

locale message_codec =
  fixes enc :: "'m \<Rightarrow> bytes res"
    and dec :: "bytes \<Rightarrow> 'm res"
  assumes dec_enc: "enc m = Inr bs \<Longrightarrow> dec (bs @ t) = Inr m"
begin

lemma dec_enc_exact: "enc m = Inr bs \<Longrightarrow> dec bs = Inr m"
  using dec_enc [of m bs "[]"] by simp

lemma enc_prefix_free:
  assumes "enc m = Inr a" and "enc n = Inr b" and "a @ s = b @ t"
  shows "m = n \<and> s = t"
proof -
  have "dec (a @ s) = Inr m" using assms(1) by (rule dec_enc)
  moreover have "dec (a @ s) = Inr n" using assms(2) unfolding assms(3) by (rule dec_enc)
  ultimately show ?thesis using assms by simp
qed

lemma enc_inject: "enc m = Inr a \<Longrightarrow> enc n = Inr a \<Longrightarrow> m = n"
  using enc_prefix_free [of m a n a "[]" "[]"] by simp

text \<open>A stream of non-empty encodings has one reading.\<close>

lemma stream_inject:
  assumes "list_all2 (\<lambda>m bs. enc m = Inr bs \<and> bs \<noteq> []) ms as"
    and "list_all2 (\<lambda>m bs. enc m = Inr bs \<and> bs \<noteq> []) ns bs"
    and "concat as = concat bs"
  shows "ms = ns"
  using assms
proof (induction ms arbitrary: as ns bs)
  case Nil
  then show ?case by (cases ns) (auto simp: list_all2_Cons1)
next
  case (Cons m ms)
  then obtain a as' where a: "as = a # as'" "enc m = Inr a" "a \<noteq> []"
    and as': "list_all2 (\<lambda>m bs. enc m = Inr bs \<and> bs \<noteq> []) ms as'"
    by (auto simp: list_all2_Cons1)
  with Cons.prems obtain n ns' b bs' where b: "bs = b # bs'" "ns = n # ns'" "enc n = Inr b"
    and bs': "list_all2 (\<lambda>m bs. enc m = Inr bs \<and> bs \<noteq> []) ns' bs'"
    by (cases ns) (auto simp: list_all2_Cons1)
  have "m = n \<and> concat as' = concat bs'"
    using Cons.prems(3) a b by (intro enc_prefix_free) simp_all
  with Cons.IH [OF as' bs'] b show ?case by simp
qed

end

locale canonical_codec = message_codec +
  assumes enc_dec: "dec data = Inr m \<Longrightarrow> \<exists>bs t. enc m = Inr bs \<and> data = bs @ t"
begin

lemma dec_iff: "dec data = Inr m \<longleftrightarrow> (\<exists>bs t. enc m = Inr bs \<and> data = bs @ t)"
  using dec_enc enc_dec by blast

end

section \<open>Messages as records\<close>

definition enc_client_hello :: "parsed_client_hello \<Rightarrow> bytes res" where
  "enc_client_hello m = encode_client_hello (ch_version m) (ch_credential_id m)
     (ch_client_nonce m) (ch_opaque_ke1 m)"

definition enc_server_hello :: "parsed_server_hello \<Rightarrow> bytes res" where
  "enc_server_hello m =
     bindE (encode_server_hello_core (sh_version m) (sh_server_nonce m) (sh_certificate_chain m)
       (sh_server_config m) (sh_opaque_ke2 m))
       (\<lambda>core. encode_server_hello core (sh_server_config_sig m) (sh_cert_verify_sig m))"

definition enc_app_data :: "parsed_app_data \<Rightarrow> bytes res" where
  "enc_app_data m = encode_app_data (ad_seq m) (ad_ciphertext m)"

definition enc_client_finish :: "parsed_client_finish \<Rightarrow> bytes res" where
  "enc_client_finish m = encode_client_finish (cf_opaque_ke3 m)"

definition enc_alert :: "parsed_alert \<Rightarrow> bytes res" where
  "enc_alert m = encode_alert (al_level m) (al_message m)"

lemma r_u8_append:
  "r_rest r = b # t \<Longrightarrow> \<exists>r'. r_u8 r = Inr (uint b, r') \<and> r_rest r' = t"
  using f_u8.rd_enc [of "uint b" "[b]" r t] by simp

lemma r_u8_Inr: "r_u8 r = Inr (n, r') \<Longrightarrow> 0 \<le> n \<and> n < 256 \<and> r_rest r = word_of_int n # r_rest r'"
  using f_u8.enc_rd [of r n r'] by (auto simp: bindE_eq_Inr byte_of_int_Inr)

lemma dec_enc_client_hello:
  assumes "enc_client_hello m = Inr bs"
  shows "decode_client_hello (bs @ t) = Inr m"
proof -
  obtain k where len: "length (ch_credential_id m) = 64" "length (ch_client_nonce m) = 32"
    and v: "0 \<le> ch_version m" "ch_version m < 256" and k: "p16 (ch_opaque_ke1 m) = Inr k"
    and bs: "bs = 1 # word_of_int (ch_version m) # ch_credential_id m @ ch_client_nonce m @ k"
    using assms by (auto simp: enc_client_hello_def encode_client_hello_def bindE_eq_Inr
        byte_of_int_Inr)
  obtain r1 where r1: "r_u8 (reader_init (bs @ t)) = Inr (1, r1)"
    "r_rest r1 = word_of_int (ch_version m) # ch_credential_id m @ ch_client_nonce m @ k @ t"
    using r_u8_append [of "reader_init (bs @ t)"] by (auto simp: bs)
  obtain r2 where r2: "r_u8 r1 = Inr (ch_version m, r2)"
    "r_rest r2 = ch_credential_id m @ ch_client_nonce m @ k @ t"
    using r_u8_append [OF r1(2)] v by (auto simp: uint_word_of_int_byte)
  obtain r3 where r3: "r_read 64 r2 = Inr (ch_credential_id m, r3)"
    "r_rest r3 = ch_client_nonce m @ k @ t"
    using r_read_append [OF r2(2) len(1)] by blast
  obtain r4 where r4: "r_read 32 r3 = Inr (ch_client_nonce m, r4)" "r_rest r4 = k @ t"
    using r_read_append [OF r3(2) len(2)] by blast
  obtain r5 where "r_v16 r4 = Inr (ch_opaque_ke1 m, r5)"
    using f_v16.rd_enc [OF k r4(2)] by blast
  with r1 r2 r3 r4 show ?thesis
    by (simp add: decode_client_hello_def)
qed

lemma enc_dec_client_hello:
  assumes "decode_client_hello data = Inr m"
  shows "\<exists>bs t. enc_client_hello m = Inr bs \<and> data = bs @ t"
proof -
  obtain v cid nonce ke1 r1 r2 r3 r4 r5
    where r: "r_u8 (reader_init data) = Inr (1, r1)" "r_u8 r1 = Inr (v, r2)"
      "r_read 64 r2 = Inr (cid, r3)" "r_read 32 r3 = Inr (nonce, r4)" "r_v16 r4 = Inr (ke1, r5)"
      and m: "m = \<lparr>ch_version = v, ch_credential_id = cid, ch_client_nonce = nonce,
        ch_opaque_ke1 = ke1\<rparr>"
    using assms by (auto simp: decode_client_hello_def bindE_eq_Inr split: prod.splits)
  obtain k where k: "p16 ke1 = Inr k" "r_rest r4 = k @ r_rest r5"
    using f_v16.enc_rd [OF r(5)] by blast
  have "data = 1 # word_of_int v # cid @ nonce @ k @ r_rest r5"
    using r_u8_Inr [OF r(1)] r_u8_Inr [OF r(2)] r_read_Inr [OF r(3)] r_read_Inr [OF r(4)] k
    by simp
  moreover have "enc_client_hello m = Inr (1 # word_of_int v # cid @ nonce @ k)"
    using r_u8_Inr [OF r(2)] r_read_Inr [OF r(3)] r_read_Inr [OF r(4)] k
    by (simp add: m enc_client_hello_def encode_client_hello_def byte_of_int_def)
  ultimately show ?thesis by auto
qed

interpretation client_hello: canonical_codec enc_client_hello decode_client_hello
  by unfold_locales (fact dec_enc_client_hello, fact enc_dec_client_hello)

lemma dec_enc_server_hello:
  assumes "enc_server_hello m = Inr bs"
  shows "decode_server_hello (bs @ t) = Inr m"
proof -
  obtain k c s a b where len: "length (sh_server_nonce m) = 32"
    and v: "0 \<le> sh_version m" "sh_version m < 256"
    and k: "p16 (sh_opaque_ke2 m) = Inr k" and c: "p24 (sh_certificate_chain m) = Inr c"
    and s: "p16 (sh_server_config m) = Inr s" and a: "p16 (sh_server_config_sig m) = Inr a"
    and b: "p16 (sh_cert_verify_sig m) = Inr b"
    and bs: "bs = 2 # word_of_int (sh_version m) # sh_server_nonce m @ k @ c @ s @ a @ b"
    using assms by (auto simp: enc_server_hello_def encode_server_hello_core_def
        encode_server_hello_def bindE_eq_Inr byte_of_int_Inr)
  obtain r1 where r1: "r_u8 (reader_init (bs @ t)) = Inr (2, r1)"
    "r_rest r1 = word_of_int (sh_version m) # sh_server_nonce m @ k @ c @ s @ a @ b @ t"
    using r_u8_append [of "reader_init (bs @ t)"] by (auto simp: bs)
  obtain r2 where r2: "r_u8 r1 = Inr (sh_version m, r2)"
    "r_rest r2 = sh_server_nonce m @ k @ c @ s @ a @ b @ t"
    using r_u8_append [OF r1(2)] v by (auto simp: uint_word_of_int_byte)
  obtain r3 where r3: "r_read 32 r2 = Inr (sh_server_nonce m, r3)"
    "r_rest r3 = k @ c @ s @ a @ b @ t"
    using r_read_append [OF r2(2) len] by blast
  obtain r4 where r4: "r_v16 r3 = Inr (sh_opaque_ke2 m, r4)" "r_rest r4 = c @ s @ a @ b @ t"
    using f_v16.rd_enc [OF k r3(2)] by blast
  obtain r5 where r5: "r_v24 r4 = Inr (sh_certificate_chain m, r5)" "r_rest r5 = s @ a @ b @ t"
    using f_v24.rd_enc [OF c r4(2)] by blast
  obtain r6 where r6: "r_v16 r5 = Inr (sh_server_config m, r6)" "r_rest r6 = a @ b @ t"
    using f_v16.rd_enc [OF s r5(2)] by blast
  obtain r7 where r7: "r_v16 r6 = Inr (sh_server_config_sig m, r7)" "r_rest r7 = b @ t"
    using f_v16.rd_enc [OF a r6(2)] by blast
  obtain r8 where "r_v16 r7 = Inr (sh_cert_verify_sig m, r8)"
    using f_v16.rd_enc [OF b r7(2)] by blast
  with r1 r2 r3 r4 r5 r6 r7 show ?thesis
    by (simp add: decode_server_hello_def)
qed

text \<open>
  A decoded ServerHello splits into its tag, the core (the part CertificateVerify signs), the two
  signatures, and unread bytes; the core is what re-encoding the parsed fields gives.
\<close>

lemma decode_server_hello_split:
  assumes "decode_server_hello data = Inr m"
  shows "\<exists>core a b t. encode_server_hello_core (sh_version m) (sh_server_nonce m)
      (sh_certificate_chain m) (sh_server_config m) (sh_opaque_ke2 m) = Inr core \<and>
    p16 (sh_server_config_sig m) = Inr a \<and> p16 (sh_cert_verify_sig m) = Inr b \<and>
    data = 2 # core @ a @ b @ t"
proof -
  obtain v nonce ke2 cert cfg csig cvsig r1 r2 r3 r4 r5 r6 r7 r8
    where r: "r_u8 (reader_init data) = Inr (2, r1)" "r_u8 r1 = Inr (v, r2)"
      "r_read 32 r2 = Inr (nonce, r3)" "r_v16 r3 = Inr (ke2, r4)" "r_v24 r4 = Inr (cert, r5)"
      "r_v16 r5 = Inr (cfg, r6)" "r_v16 r6 = Inr (csig, r7)" "r_v16 r7 = Inr (cvsig, r8)"
      and m: "m = \<lparr>sh_version = v, sh_server_nonce = nonce, sh_opaque_ke2 = ke2,
        sh_certificate_chain = cert, sh_server_config = cfg, sh_server_config_sig = csig,
        sh_cert_verify_sig = cvsig\<rparr>"
    using assms by (auto simp: decode_server_hello_def bindE_eq_Inr split: prod.splits)
  obtain k where k: "p16 ke2 = Inr k" "r_rest r3 = k @ r_rest r4"
    using f_v16.enc_rd [OF r(4)] by blast
  obtain c where c: "p24 cert = Inr c" "r_rest r4 = c @ r_rest r5"
    using f_v24.enc_rd [OF r(5)] by blast
  obtain s where s: "p16 cfg = Inr s" "r_rest r5 = s @ r_rest r6"
    using f_v16.enc_rd [OF r(6)] by blast
  obtain a where a: "p16 csig = Inr a" "r_rest r6 = a @ r_rest r7"
    using f_v16.enc_rd [OF r(7)] by blast
  obtain b where b: "p16 cvsig = Inr b" "r_rest r7 = b @ r_rest r8"
    using f_v16.enc_rd [OF r(8)] by blast
  have "data = 2 # (word_of_int v # nonce @ k @ c @ s) @ a @ b @ r_rest r8"
    using r_u8_Inr [OF r(1)] r_u8_Inr [OF r(2)] r_read_Inr [OF r(3)] k c s a b by simp
  moreover have "encode_server_hello_core v nonce cert cfg ke2
      = Inr (word_of_int v # nonce @ k @ c @ s)"
    using r_u8_Inr [OF r(2)] r_read_Inr [OF r(3)] k c s
    by (simp add: encode_server_hello_core_def byte_of_int_def)
  ultimately show ?thesis using a b by (auto simp: m)
qed

lemma enc_dec_server_hello:
  "decode_server_hello data = Inr m \<Longrightarrow> \<exists>bs t. enc_server_hello m = Inr bs \<and> data = bs @ t"
  by (drule decode_server_hello_split)
     (auto simp: enc_server_hello_def encode_server_hello_def byte_of_int_def)

interpretation server_hello: canonical_codec enc_server_hello decode_server_hello
  by unfold_locales (fact dec_enc_server_hello, fact enc_dec_server_hello)

lemma dec_enc_client_finish:
  assumes "enc_client_finish m = Inr bs"
  shows "decode_client_finish (bs @ t) = Inr m"
proof -
  obtain k where k: "p16 (cf_opaque_ke3 m) = Inr k" and bs: "bs = 3 # k"
    using assms by (auto simp: enc_client_finish_def encode_client_finish_def bindE_eq_Inr
        byte_of_int_Inr)
  obtain r1 where r1: "r_u8 (reader_init (bs @ t)) = Inr (3, r1)" "r_rest r1 = k @ t"
    using r_u8_append [of "reader_init (bs @ t)"] by (auto simp: bs)
  obtain r2 where "r_v16 r1 = Inr (cf_opaque_ke3 m, r2)"
    using f_v16.rd_enc [OF k r1(2)] by blast
  with r1 show ?thesis by (simp add: decode_client_finish_def)
qed

lemma enc_dec_client_finish:
  assumes "decode_client_finish data = Inr m"
  shows "\<exists>bs t. enc_client_finish m = Inr bs \<and> data = bs @ t"
proof -
  obtain ke3 r1 r2 where r: "r_u8 (reader_init data) = Inr (3, r1)" "r_v16 r1 = Inr (ke3, r2)"
    and m: "m = \<lparr>cf_opaque_ke3 = ke3\<rparr>"
    using assms by (auto simp: decode_client_finish_def bindE_eq_Inr split: prod.splits)
  obtain k where k: "p16 ke3 = Inr k" "r_rest r1 = k @ r_rest r2"
    using f_v16.enc_rd [OF r(2)] by blast
  then show ?thesis
    using r_u8_Inr [OF r(1)]
    by (auto simp: m enc_client_finish_def encode_client_finish_def byte_of_int_def)
qed

interpretation client_finish: canonical_codec enc_client_finish decode_client_finish
  by unfold_locales (fact dec_enc_client_finish, fact enc_dec_client_finish)

lemma dec_enc_app_data:
  assumes "enc_app_data m = Inr bs"
  shows "decode_app_data (bs @ t) = Inr m"
proof -
  obtain s l where s: "struct_pack 8 (ad_seq m) = Inr s"
    and l: "struct_pack 4 (int (length (ad_ciphertext m))) = Inr l"
    and bs: "bs = 4 # s @ l @ ad_ciphertext m"
    using assms by (auto simp: enc_app_data_def encode_app_data_def bindE_eq_Inr byte_of_int_Inr)
  obtain r1 where r1: "r_u8 (reader_init (bs @ t)) = Inr (4, r1)"
    "r_rest r1 = s @ l @ ad_ciphertext m @ t"
    using r_u8_append [of "reader_init (bs @ t)"] by (auto simp: bs)
  obtain r2 where r2: "r_u64 r1 = Inr (ad_seq m, r2)" "r_rest r2 = l @ ad_ciphertext m @ t"
    using f_u64.rd_enc [OF s r1(2)] by blast
  obtain r3 where r3: "r_u32 r2 = Inr (int (length (ad_ciphertext m)), r3)"
    "r_rest r3 = ad_ciphertext m @ t"
    using f_u32.rd_enc [OF l r2(2)] by blast
  obtain r4 where "r_read (length (ad_ciphertext m)) r3 = Inr (ad_ciphertext m, r4)"
    using r_read_append [OF r3(2)] by blast
  with r1 r2 r3 show ?thesis by (simp add: decode_app_data_def)
qed

lemma enc_dec_app_data:
  assumes "decode_app_data data = Inr m"
  shows "\<exists>bs t. enc_app_data m = Inr bs \<and> data = bs @ t"
proof -
  obtain seq n ct r1 r2 r3 r4 where r: "r_u8 (reader_init data) = Inr (4, r1)"
      "r_u64 r1 = Inr (seq, r2)" "r_u32 r2 = Inr (n, r3)" "r_read (nat n) r3 = Inr (ct, r4)"
    and m: "m = \<lparr>ad_seq = seq, ad_ciphertext = ct\<rparr>"
    using assms by (auto simp: decode_app_data_def bindE_eq_Inr split: prod.splits)
  obtain s where s: "struct_pack 8 seq = Inr s" "r_rest r1 = s @ r_rest r2"
    using f_u64.enc_rd [OF r(2)] by blast
  obtain l where l: "struct_pack 4 n = Inr l" "r_rest r2 = l @ r_rest r3"
    using f_u32.enc_rd [OF r(3)] by blast
  have "r_rest r3 = ct @ r_rest r4" "int (length ct) = n"
    using r_read_Inr [OF r(4)] l by (auto simp: struct_pack_Inr)
  then show ?thesis
    using r_u8_Inr [OF r(1)] s l
    by (auto simp: m enc_app_data_def encode_app_data_def byte_of_int_def)
qed

interpretation app_data: canonical_codec enc_app_data decode_app_data
  by unfold_locales (fact dec_enc_app_data, fact enc_dec_app_data)

text \<open>
  Alerts satisfy only the weaker contract: \<open>decode_alert\<close> replaces ill-formed UTF-8, so two byte
  strings can decode to the same alert.
\<close>

lemma dec_enc_alert:
  assumes "enc_alert m = Inr bs"
  shows "decode_alert (bs @ t) = Inr m"
proof -
  obtain u k where u: "utf8_encode (al_message m) = Inr u" and k: "p16 u = Inr k"
    and v: "0 \<le> al_level m" "al_level m < 256" and bs: "bs = 5 # word_of_int (al_level m) # k"
    using assms by (auto simp: enc_alert_def encode_alert_def bindE_eq_Inr byte_of_int_Inr)
  obtain r1 where r1: "r_u8 (reader_init (bs @ t)) = Inr (5, r1)"
    "r_rest r1 = word_of_int (al_level m) # k @ t"
    using r_u8_append [of "reader_init (bs @ t)"] by (auto simp: bs)
  obtain r2 where r2: "r_u8 r1 = Inr (al_level m, r2)" "r_rest r2 = k @ t"
    using r_u8_append [OF r1(2)] v by (auto simp: uint_word_of_int_byte)
  obtain r3 where "r_v16 r2 = Inr (u, r3)"
    using f_v16.rd_enc [OF k r2(2)] by blast
  with r1 r2 utf8_replace_encode [OF u] show ?thesis by (simp add: decode_alert_def)
qed

interpretation alert: message_codec enc_alert decode_alert
  by unfold_locales (fact dec_enc_alert)

section \<open>Error behaviour\<close>

lemma decode_client_hello_fails: "fails_only {AssertionError, ValueError} (decode_client_hello d)"
  unfolding decode_client_hello_def
  by (auto intro: fails_only_mono [OF f_u8.rd_fails] fails_only_mono [OF f_v16.rd_fails]
      fails_only_mono [OF r_read_fails] split: prod.split)

lemma decode_server_hello_fails: "fails_only {AssertionError, ValueError} (decode_server_hello d)"
  unfolding decode_server_hello_def
  by (auto intro: fails_only_mono [OF f_u8.rd_fails] fails_only_mono [OF f_v16.rd_fails]
      fails_only_mono [OF f_v24.rd_fails] fails_only_mono [OF r_read_fails] split: prod.split)

lemma decode_client_finish_fails: "fails_only {AssertionError, ValueError} (decode_client_finish d)"
  unfolding decode_client_finish_def
  by (auto intro: fails_only_mono [OF f_u8.rd_fails] fails_only_mono [OF f_v16.rd_fails]
      split: prod.split)

lemma decode_app_data_fails: "fails_only {AssertionError, ValueError} (decode_app_data d)"
  unfolding decode_app_data_def
  by (auto intro: fails_only_mono [OF f_u8.rd_fails] fails_only_mono [OF f_u64.rd_fails]
      fails_only_mono [OF f_u32.rd_fails] fails_only_mono [OF r_read_fails] split: prod.split)

lemma decode_alert_fails: "fails_only {AssertionError, ValueError} (decode_alert d)"
  unfolding decode_alert_def
  by (auto intro: fails_only_mono [OF f_u8.rd_fails] fails_only_mono [OF f_v16.rd_fails]
      split: prod.split)

lemma p16_Inr: "p16 d = Inr b \<longleftrightarrow> length d < 65536 \<and> b = be_enc 2 (length d) @ d"
  by (auto simp: p16_def bindE_eq_Inr struct_pack_Inr)

lemma p24_Inr: "p24 d = Inr b \<longleftrightarrow> length d < 16777216 \<and> b = be_enc 3 (length d) @ d"
  by (auto simp: p24_def bindE_eq_Inr int_to_bytes_Inr)

lemma encode_client_finish_Inr:
  "encode_client_finish k = Inr b \<longleftrightarrow> length k < 65536 \<and> b = 3 # be_enc 2 (length k) @ k"
  by (auto simp: encode_client_finish_def bindE_eq_Inr p16_Inr byte_of_int_Inr)

lemma encode_app_data_Inr:
  "encode_app_data n c = Inr b \<longleftrightarrow> 0 \<le> n \<and> n < 2 ^ 64 \<and> length c < 2 ^ 32 \<and>
     b = 4 # be_enc 8 (nat n) @ be_enc 4 (length c) @ c"
  by (auto simp: encode_app_data_def bindE_eq_Inr struct_pack_Inr byte_of_int_Inr)

lemma encode_close_eq [simp]: "encode_close = Inr [6]"
  by (simp add: encode_close_def byte_of_int_def)

section \<open>Properties of the codec\<close>


text \<open>
  If ServerHello decodes, the core that the client rebuilds from the parsed fields and checks
  CertificateVerify over is, byte for byte, the part of the received message that follows the tag.
\<close>

theorem server_hello_core_is_received:
  assumes "decode_server_hello data = Inr m"
  shows "\<exists>core. encode_server_hello_core (sh_version m) (sh_server_nonce m)
      (sh_certificate_chain m) (sh_server_config m) (sh_opaque_ke2 m) = Inr core \<and>
    hd data = 2 \<and> take (length core) (tl data) = core"
  using decode_server_hello_split [OF assms] by auto

theorem server_hello_core_is_received_witness:
  "\<exists>core. encode_server_hello_core 1 (replicate 32 7) [8] [7] [9] = Inr core \<and>
    hd (2 # 1 # replicate 32 7 @ [0, 1, 9, 0, 0, 1, 8, 0, 1, 7, 0, 1, 5, 0, 1, 6, 99 :: byte]) = 2 \<and>
    take (length core) (tl (2 # 1 # replicate 32 7 @
      [0, 1, 9, 0, 0, 1, 8, 0, 1, 7, 0, 1, 5, 0, 1, 6, 99])) = core"
proof -
  have "decode_server_hello (2 # 1 # replicate 32 7 @
      [0, 1, 9, 0, 0, 1, 8, 0, 1, 7, 0, 1, 5, 0, 1, 6, 99]) =
    Inr \<lparr>sh_version = 1, sh_server_nonce = replicate 32 7, sh_opaque_ke2 = [9],
      sh_certificate_chain = [8], sh_server_config = [7], sh_server_config_sig = [5],
      sh_cert_verify_sig = [6]\<rparr>"
    using server_hello.dec_enc [of "\<lparr>sh_version = 1, sh_server_nonce = replicate 32 7,
        sh_opaque_ke2 = [9], sh_certificate_chain = [8], sh_server_config = [7],
        sh_server_config_sig = [5], sh_cert_verify_sig = [6]\<rparr>"
      "2 # 1 # replicate 32 7 @ [0, 1, 9, 0, 0, 1, 8, 0, 1, 7, 0, 1, 5, 0, 1, 6]" "[99]"]
    by (simp add: enc_server_hello_def encode_server_hello_core_def encode_server_hello_def
        p16_def p24_def eval_simps)
  from server_hello_core_is_received [OF this] show ?thesis by simp
qed

text \<open>
  A decoder given any bytes at all returns a message or raises AssertionError (wrong tag) or
  ValueError (truncated input); no other exception escapes it.
\<close>

theorem decoders_fail_cleanly:
  "fails_only {AssertionError, ValueError} (decode_client_hello d) \<and>
   fails_only {AssertionError, ValueError} (decode_server_hello d) \<and>
   fails_only {AssertionError, ValueError} (decode_client_finish d) \<and>
   fails_only {AssertionError, ValueError} (decode_app_data d) \<and>
   fails_only {AssertionError, ValueError} (decode_alert d)"
  by (intro conjI) (rule decode_client_hello_fails decode_server_hello_fails decode_client_finish_fails
      decode_app_data_fails decode_alert_fails)+

text \<open>
  An encoded ClientHello, whatever bytes follow it, decodes to the version, credential id,
  nonce and KE1 that were encoded, and encoding succeeds exactly for a 64-byte credential id, a
  32-byte nonce, a version below 256 and a KE1 shorter than 65536 bytes.
\<close>

theorem client_hello_roundtrip:
  "(\<exists>bs. encode_client_hello v cid nonce ke1 = Inr bs \<and>
     (\<forall>t. decode_client_hello (bs @ t) = Inr \<lparr>ch_version = v, ch_credential_id = cid,
        ch_client_nonce = nonce, ch_opaque_ke1 = ke1\<rparr>))
   \<longleftrightarrow> length cid = 64 \<and> length nonce = 32 \<and> 0 \<le> v \<and> v < 256 \<and> length ke1 < 65536"
  (is "?L \<longleftrightarrow> ?R")
proof
  assume ?L
  then show ?R
    by (auto simp: encode_client_hello_def bindE_eq_Inr p16_Inr byte_of_int_Inr)
next
  assume ?R
  then obtain bs where "encode_client_hello v cid nonce ke1 = Inr bs"
    by (auto simp: encode_client_hello_def bindE_eq_Inr p16_Inr byte_of_int_Inr)
  then show ?L
    using client_hello.dec_enc [of "\<lparr>ch_version = v, ch_credential_id = cid,
        ch_client_nonce = nonce, ch_opaque_ke1 = ke1\<rparr>" bs]
    by (simp add: enc_client_hello_def)
qed

text \<open>
  An alert carries its level and its Unicode text to the peer unchanged.
\<close>

theorem alert_roundtrip:
  assumes "encode_alert level msg = Inr bs"
  shows "decode_alert (bs @ t) = Inr \<lparr>al_level = level, al_message = msg\<rparr>"
  using alert.dec_enc [of "\<lparr>al_level = level, al_message = msg\<rparr>" bs t] assms
  by (simp add: enc_alert_def)

theorem alert_roundtrip_witness:
  "\<exists>bs. encode_alert 2 [8212, 65, 128512] = Inr bs \<and>
     decode_alert (bs @ [1, 2]) = Inr \<lparr>al_level = 2, al_message = [8212, 65, 128512]\<rparr>"
proof -
  have e: "encode_alert 2 [8212, 65, 128512] =
      Inr [5, 2, 0, 8, 226, 128, 148, 65, 240, 159, 152, 128]"
    by (simp add: encode_alert_def utf8_char_def p16_def eval_simps)
  from alert_roundtrip [OF this, of "[1, 2]"] e show ?thesis by blast
qed

end
