(* ===== verification/Framing.thy ===== *)
theory Framing
  imports Prelude
begin

text \<open>
  TCP framing (\<open>transcript.py\<close>): \<open>send_frame\<close>, \<open>recv_frame\<close> and the read loop \<open>_recv_exactly\<close>.
  A socket's receiving side is the sequence of what \<open>recv\<close> will deliver, in arbitrary segments;
  the theorems show that the segmentation is irrelevant: the loop refines a parser of the
  concatenated byte stream.
\<close>

section \<open>The receiving side of a socket\<close>

text \<open>
  \<open>Data c\<close> is a segment available to \<open>recv\<close> (\<open>recv n\<close> takes at most \<open>n\<close> bytes of the first one),
  \<open>TimedOut\<close> an expired socket timeout, the end of the list the end of the stream.  \<open>recv\<close>
  returns \<open>b""\<close> exactly at the end of the stream.
\<close>

datatype sock_event = Data bytes | TimedOut

type_synonym sock_in = "sock_event list"

fun sock_recv :: "nat \<Rightarrow> sock_in \<Rightarrow> (bytes \<times> sock_in) res" where
  "sock_recv n [] = Inr ([], [])"
| "sock_recv n (TimedOut # s) = raise TimeoutError ''timed out''"
| "sock_recv n (Data c # s) =
     Inr (take n c, if length c \<le> n then s else Data (drop n c) # s)"

section \<open>Frames\<close>

definition MAX_FRAME :: nat where
  "MAX_FRAME = 4 * 1024 * 1024"

definition send_frame :: "bytes \<Rightarrow> bytes res" where
  "send_frame payload = bindE (struct_pack 4 (int (length payload))) (\<lambda>l. Inr (l @ payload))"

definition closed_msg :: "nat \<Rightarrow> nat \<Rightarrow> pystr" where
  "closed_msg got n =
     lit ''Peer closed connection after '' @ nat_str got @ lit ''/'' @ nat_str n @ lit '' bytes''"

function recv_loop :: "nat \<Rightarrow> bytes \<Rightarrow> sock_in \<Rightarrow> (bytes \<times> sock_in) res" where
  "recv_loop n buf s =
     (if length buf < n then
        (case sock_recv (n - length buf) s of
           Inl e \<Rightarrow> Inl e
         | Inr (chunk, s') \<Rightarrow>
             if chunk = [] then Inl (PyError ConnectionError (closed_msg (length buf) n))
             else recv_loop n (buf @ chunk) s')
      else Inr (buf, s))"
  by pat_completeness auto
termination
  by (relation "measure (\<lambda>(n, buf, s). n - length buf)") (simp_all add: diff_less_mono2)

declare recv_loop.simps [simp del]

definition recv_exactly :: "nat \<Rightarrow> sock_in \<Rightarrow> (bytes \<times> sock_in) res" where
  "recv_exactly n s = recv_loop n [] s"

definition too_large_msg :: "nat \<Rightarrow> pystr" where
  "too_large_msg n = lit ''Frame too large: '' @ nat_str n @ lit '' > '' @ nat_str MAX_FRAME"

definition recv_frame :: "sock_in \<Rightarrow> (bytes \<times> sock_in) res" where
  "recv_frame s =
     bindE (recv_exactly 4 s) (\<lambda>(header, s).
       let n = be_dec header in
       if MAX_FRAME < n then Inl (PyError ValueError (too_large_msg n))
       else recv_exactly n s)"

section \<open>The byte stream behind the segments\<close>

fun stream :: "sock_in \<Rightarrow> bytes" where
  "stream [] = []"
| "stream (Data c # s) = c @ stream s"
| "stream (TimedOut # s) = stream s"

text \<open>A live stream: every segment carries data and no timeout expires.\<close>

definition live :: "sock_in \<Rightarrow> bool" where
  "live s \<longleftrightarrow> (\<forall>ev \<in> set s. \<exists>c. ev = Data c \<and> c \<noteq> [])"

lemma live_simps [simp]:
  "live []" "live (Data c # s) \<longleftrightarrow> c \<noteq> [] \<and> live s" "\<not> live (TimedOut # s)"
  by (auto simp: live_def)

text \<open>The abstract operations, on the byte stream alone.\<close>

definition take_exactly :: "nat \<Rightarrow> bytes \<Rightarrow> (bytes \<times> bytes) res" where
  "take_exactly n d =
     (if n \<le> length d then Inr (take n d, drop n d)
      else Inl (PyError ConnectionError (closed_msg (length d) n)))"

definition parse_frame :: "bytes \<Rightarrow> (bytes \<times> bytes) res" where
  "parse_frame d =
     bindE (take_exactly 4 d) (\<lambda>(header, d).
       let n = be_dec header in
       if MAX_FRAME < n then Inl (PyError ValueError (too_large_msg n))
       else take_exactly n d)"

text \<open>\<open>refines s\<close> relates the outcome of a socket read to that of the stream parser.\<close>

definition refines :: "(bytes \<times> sock_in) res \<Rightarrow> (bytes \<times> bytes) res \<Rightarrow> bool" where
  "refines a b =
     (case a of
        Inl e \<Rightarrow> b = Inl e
      | Inr (x, s) \<Rightarrow> b = Inr (x, stream s) \<and> live s)"

lemma refines_simps [simp]:
  "refines (Inl e) b \<longleftrightarrow> b = Inl e"
  "refines (Inr (x, s)) b \<longleftrightarrow> b = Inr (x, stream s) \<and> live s"
  by (simp_all add: refines_def)

lemma sock_recv_live:
  assumes "live s" and "0 < n" and "sock_recv n s = r"
  shows "(s = [] \<and> r = Inr ([], [])) \<or>
    (\<exists>c s'. r = Inr (c, s') \<and> c \<noteq> [] \<and> length c \<le> n \<and> live s' \<and> stream s = c @ stream s')"
  using assms
  by (cases "(n, s)" rule: sock_recv.cases) auto

lemma recv_loop_refines:
  "live s \<Longrightarrow> length buf \<le> n \<Longrightarrow> refines (recv_loop n buf s) (take_exactly n (buf @ stream s))"
proof (induction n buf s rule: recv_loop.induct)
  case (1 n buf s)
  show ?case
  proof (cases "length buf < n")
    case False
    with "1.prems" show ?thesis
      by (subst recv_loop.simps) (simp add: take_exactly_def)
  next
    case True
    then have "0 < n - length buf" by simp
    from sock_recv_live [OF "1.prems"(1) this refl] show ?thesis
    proof (elim disjE exE conjE)
      assume "s = []" and "sock_recv (n - length buf) s = Inr ([], [])"
      with True show ?thesis
        by (subst recv_loop.simps) (simp add: take_exactly_def)
    next
      fix c s'
      assume r: "sock_recv (n - length buf) s = Inr (c, s')" and c: "c \<noteq> []"
        "length c \<le> n - length buf" and s': "live s'" "stream s = c @ stream s'"
      have "refines (recv_loop n (buf @ c) s') (take_exactly n ((buf @ c) @ stream s'))"
        using True r c s' by (intro "1.IH" [OF True r refl]) simp_all
      then show ?thesis
        using True r c s' by (subst recv_loop.simps) simp
    qed
  qed
qed

text \<open>
  The contract of a stream reader: on a live socket it does what its specification does on the
  concatenated stream.
\<close>

locale stream_reader =
  fixes rd :: "sock_in \<Rightarrow> (bytes \<times> sock_in) res"
    and spec :: "bytes \<Rightarrow> (bytes \<times> bytes) res"
  assumes rd_refines: "live s \<Longrightarrow> refines (rd s) (spec (stream s))"
begin

lemma rd_Inr:
  assumes "live s" and "spec (stream s) = Inr (x, t)"
  shows "\<exists>s'. rd s = Inr (x, s') \<and> stream s' = t \<and> live s'"
  using rd_refines [OF assms(1)] assms(2) by (auto simp: refines_def split: sum.splits prod.splits)

lemma rd_Inl: "live s \<Longrightarrow> spec (stream s) = Inl e \<Longrightarrow> rd s = Inl e"
  using rd_refines [of s] by (auto simp: refines_def split: sum.splits prod.splits)

lemma segmentation_irrelevant:
  assumes "live s" and "live s2" and "stream s = stream s2"
  shows "map_sum id (apsnd stream) (rd s) = map_sum id (apsnd stream) (rd s2)"
  using rd_refines [OF assms(1)] rd_refines [OF assms(2)] assms(3)
  by (auto simp: refines_def split: sum.splits prod.splits)

end

interpretation exactly: stream_reader "recv_exactly n" "take_exactly n" for n
  using recv_loop_refines [of _ "[]" n] by unfold_locales (simp add: recv_exactly_def)

lemma recv_frame_parse: "live s \<Longrightarrow> refines (recv_frame s) (parse_frame (stream s))"
proof (cases "take_exactly 4 (stream s)")
  case (Inl e)
  assume "live s"
  from exactly.rd_Inl [OF this Inl] Inl show ?thesis
    by (simp add: recv_frame_def parse_frame_def)
next
  case (Inr ht)
  assume s: "live s"
  obtain h t where ht: "ht = (h, t)" by (cases ht)
  then obtain s' where s': "recv_exactly 4 s = Inr (h, s')" "stream s' = t" "live s'"
    using exactly.rd_Inr [OF s] Inr by blast
  then show ?thesis
    using exactly.rd_refines [OF s'(3), of "be_dec h"] Inr ht
    by (simp add: recv_frame_def parse_frame_def Let_def)
qed

interpretation frames: stream_reader recv_frame parse_frame
  by unfold_locales (rule recv_frame_parse)

lemma send_frame_Inr:
  "send_frame p = Inr w \<longleftrightarrow> length p < 2 ^ 32 \<and> w = be_enc 4 (length p) @ p"
  by (auto simp: send_frame_def bindE_eq_Inr struct_pack_Inr)

lemma parse_frame_send:
  "length p < 2 ^ 32 \<Longrightarrow> parse_frame (be_enc 4 (length p) @ p @ t) =
     (if MAX_FRAME < length p then Inl (PyError ValueError (too_large_msg (length p)))
      else Inr (p, t))"
  by (simp add: parse_frame_def take_exactly_def Let_def)

section \<open>Properties\<close>

text \<open>
  C14: on a live connection \<open>recv_frame\<close> does what a parser of the concatenated byte stream does,
  however the stream was cut into segments: same frame, same rest of the stream, same error.
\<close>

theorem recv_frame_refines:
  assumes "live s"
  shows "refines (recv_frame s) (parse_frame (stream s))"
  using assms by (rule frames.rd_refines)

theorem recv_frame_refines_witness:
  "live [Data [0, 0], Data [0, 2, 65], Data [66, 67]] \<and>
   refines (recv_frame [Data [0, 0], Data [0, 2, 65], Data [66, 67]]) (Inr ([65, 66], [67]))"
proof -
  have l: "live [Data [0, 0], Data [0, 2, 65], Data [66, 67]]" by simp
  have "parse_frame (stream [Data [0, 0], Data [0, 2, 65], Data [66, 67]]) = Inr ([65, 66], [67])"
    by (simp add: parse_frame_def take_exactly_def be_dec_def MAX_FRAME_def)
  with recv_frame_refines [OF l] l show ?thesis by simp
qed

text \<open>
  A payload of at most 4 MiB that is sent as a frame is received unchanged, whatever segments
  the network delivers it in, and the bytes after it stay in the stream for the next call.  A
  longer payload is sent all the same, and rejected by the receiver with ValueError.
\<close>

theorem frame_roundtrip:
  assumes "live s" and "send_frame p = Inr w" and "stream s = w @ t"
  shows "if length p \<le> MAX_FRAME
    then \<exists>s'. recv_frame s = Inr (p, s') \<and> stream s' = t \<and> live s'
    else recv_frame s = Inl (PyError ValueError (too_large_msg (length p)))"
proof -
  have "parse_frame (stream s) = (if MAX_FRAME < length p
      then Inl (PyError ValueError (too_large_msg (length p))) else Inr (p, t))"
    using assms(2,3) parse_frame_send [of p t] by (simp add: send_frame_Inr)
  then show ?thesis
    using frames.rd_Inr [OF assms(1)] frames.rd_Inl [OF assms(1)] by (simp add: not_less)
qed

theorem frame_roundtrip_witness:
  "\<exists>s'. recv_frame [Data [0], Data [0, 0, 2, 65], Data [66, 67]] = Inr ([65, 66], s') \<and>
     stream s' = [67] \<and> live s'"
proof -
  have "send_frame [65, 66] = Inr [0, 0, 0, 2, 65, 66]"
    by (simp add: send_frame_Inr eval_simps)
  from frame_roundtrip [OF _ this, of "[Data [0], Data [0, 0, 2, 65], Data [66, 67]]" "[67]"]
  show ?thesis by (simp add: MAX_FRAME_def)
qed

end
