(* ===== verification/Connection.thy ===== *)
theory Connection
  imports Prelude Framing Codec
begin

text \<open>
  The two ends of a TCP connection as \<open>server.py\<close>, \<open>client.py\<close> and \<open>register_user.py\<close> use it, and the
  sequencing of operations that change a state and may raise.  \<open>cn_in\<close> is what the socket will
  deliver, \<open>cn_out\<close> the frames handed to \<open>sendall\<close> so far, \<open>cn_faults\<close> the outcomes of the coming
  \<open>sendall\<close> calls (\<open>None\<close> and the empty list: it succeeds).
\<close>

section \<open>Operations with a state and errors\<close>

type_synonym ('s, 'a) st_res = "'s \<Rightarrow> 'a res \<times> 's"

definition retS :: "'a \<Rightarrow> ('s, 'a) st_res" where
  "retS x s = (Inr x, s)"

definition liftS :: "'a res \<Rightarrow> ('s, 'a) st_res" where
  "liftS r s = (r, s)"

definition bindS :: "('s, 'a) st_res \<Rightarrow> ('a \<Rightarrow> ('s, 'b) st_res) \<Rightarrow> ('s, 'b) st_res" where
  "bindS m f s = (case m s of (Inl e, s') \<Rightarrow> (Inl e, s') | (Inr x, s') \<Rightarrow> f x s')"

text \<open>\<open>try: x = m  except K: h\<close> where the handler leaves the function, followed by the rest \<open>f x\<close>.\<close>

definition tryS :: "('s, 'a) st_res \<Rightarrow> (py_error \<Rightarrow> bool) \<Rightarrow> (py_error \<Rightarrow> ('s, 'b) st_res) \<Rightarrow>
    ('a \<Rightarrow> ('s, 'b) st_res) \<Rightarrow> ('s, 'b) st_res" where
  "tryS m K h f s = (case m s of
     (Inl e, s') \<Rightarrow> if K e then h e s' else (Inl e, s')
   | (Inr x, s') \<Rightarrow> f x s')"

lemma bindS_Inr: "bindS m f s = (Inr y, s2) \<longleftrightarrow> (\<exists>x s1. m s = (Inr x, s1) \<and> f x s1 = (Inr y, s2))"
  by (cases "m s") (auto simp: bindS_def split: sum.splits)

lemma bindS_Inl: "bindS m f s = (Inl e, s2) \<longleftrightarrow>
    m s = (Inl e, s2) \<or> (\<exists>x s1. m s = (Inr x, s1) \<and> f x s1 = (Inl e, s2))"
  by (cases "m s") (auto simp: bindS_def split: sum.splits)

lemma bindS_step:
  "m s = (Inr x, s1) \<Longrightarrow> bindS m f s = f x s1"
  "m s = (Inl e, s1) \<Longrightarrow> bindS m f s = (Inl e, s1)"
  by (simp_all add: bindS_def)

lemma tryS_Inr: "tryS m K h f s = (Inr y, s2) \<longleftrightarrow>
    (\<exists>x s1. m s = (Inr x, s1) \<and> f x s1 = (Inr y, s2)) \<or>
    (\<exists>e s1. m s = (Inl e, s1) \<and> K e \<and> h e s1 = (Inr y, s2))"
  by (cases "m s") (auto simp: tryS_def split: sum.splits)

lemma tryS_step:
  "m s = (Inr x, s1) \<Longrightarrow> tryS m K h f s = f x s1"
  "m s = (Inl e, s1) \<Longrightarrow> K e \<Longrightarrow> tryS m K h f s = h e s1"
  "m s = (Inl e, s1) \<Longrightarrow> \<not> K e \<Longrightarrow> tryS m K h f s = (Inl e, s1)"
  by (simp_all add: tryS_def)

lemma liftS_eq: "liftS r s = (r', s') \<longleftrightarrow> r = r' \<and> s = s'"
  by (auto simp: liftS_def)

lemma retS_eq: "retS x s = (r', s') \<longleftrightarrow> r' = Inr x \<and> s' = s"
  by (auto simp: retS_def)

lemma bindS_laws:
  "bindS (bindS m f) g = bindS m (\<lambda>x. bindS (f x) g)" "bindS (retS x) f = f x"
  "bindS m0 (\<lambda>_. retS ()) = m0" "bindS m1 retS = m1" "bindS (if b then m' else n') f = (if b then bindS m' f else bindS n' f)"
  by (rule ext, simp add: bindS_def retS_def split: prod.splits sum.splits)+

lemmas st_res_Inr = bindS_Inr tryS_Inr liftS_eq retS_eq

section \<open>Connections\<close>

record conn =
  cn_in :: sock_in
  cn_out :: "bytes list"
  cn_faults :: "py_error option list"

text \<open>
  After a failed read the remaining input is left as it was: no caller reads from a connection
  again after an exception of \<open>recv_frame\<close>.
\<close>

definition conn_recv :: "(conn, bytes) st_res" where
  "conn_recv c = (case recv_frame (cn_in c) of
     Inl e \<Rightarrow> (Inl e, c)
   | Inr (frame, s) \<Rightarrow> (Inr frame, c\<lparr>cn_in := s\<rparr>))"

fun sendall :: "bytes \<Rightarrow> (conn, unit) st_res" where
  "sendall bs c = (case cn_faults c of
     [] \<Rightarrow> (Inr (), c\<lparr>cn_out := cn_out c @ [bs]\<rparr>)
   | None # fs \<Rightarrow> (Inr (), c\<lparr>cn_out := cn_out c @ [bs], cn_faults := fs\<rparr>)
   | Some e # fs \<Rightarrow> (Inl e, c\<lparr>cn_faults := fs\<rparr>))"

declare sendall.simps [simp del]

definition conn_send :: "bytes \<Rightarrow> (conn, unit) st_res" where
  "conn_send payload = bindS (liftS (send_frame payload)) sendall"

text \<open>The frame of a payload, and what a peer reads when a list of payloads is sent.\<close>

definition frame_of :: "bytes \<Rightarrow> bytes" where
  "frame_of p = be_enc 4 (length p) @ p"

text \<open>A connection that delivers the given frames and nothing else, cut into segments anyhow, and takes every write.\<close>

definition delivers :: "conn \<Rightarrow> bytes list \<Rightarrow> bool" where
  "delivers c frames \<longleftrightarrow> cn_faults c = [] \<and> live (cn_in c) \<and> stream (cn_in c) = concat frames"

lemma frame_of_inject: "length p < 2 ^ 32 \<Longrightarrow> length q < 2 ^ 32 \<Longrightarrow> frame_of p @ s = frame_of q @ t \<Longrightarrow> p = q \<and> s = t"
proof -
  assume l: "length p < 2 ^ 32" "length q < 2 ^ 32" and e: "frame_of p @ s = frame_of q @ t"
  have "be_enc 4 (length p) = be_enc 4 (length q)"
    using arg_cong [OF e, of "take 4"] by (simp add: frame_of_def)
  then have "length p = length q" using l be_enc_inject [of "length p" 4 "length q"] by simp
  with e show ?thesis by (simp add: frame_of_def)
qed

lemma conn_send_ok:
  "length p < 2 ^ 32 \<Longrightarrow> cn_faults c = [] \<Longrightarrow> conn_send p c = (Inr (), c\<lparr>cn_out := cn_out c @ [frame_of p]\<rparr>)"
  by (simp add: conn_send_def bindS_def liftS_def send_frame_Inr sendall.simps frame_of_def
      send_frame_def split: sum.splits)

lemma conn_send_Inr:
  "conn_send p c = (Inr u, c') \<Longrightarrow> length p < 2 ^ 32 \<and> cn_out c' = cn_out c @ [frame_of p] \<and> cn_in c' = cn_in c"
  by (auto simp: conn_send_def st_res_Inr send_frame_Inr sendall.simps frame_of_def
      split: list.splits option.splits)

lemma conn_send_Inl: "conn_send p c = (Inl e, c') \<Longrightarrow> cn_out c' = cn_out c \<and> cn_in c' = cn_in c"
  by (cases "cn_faults c"; cases "hd (cn_faults c)") (auto simp: conn_send_def bindS_Inl liftS_eq sendall.simps)

lemma conn_recv_Inr:
  "conn_recv c = (Inr frame, c') \<longleftrightarrow> (\<exists>s. recv_frame (cn_in c) = Inr (frame, s) \<and> c' = c\<lparr>cn_in := s\<rparr>)"
  by (auto simp: conn_recv_def split: sum.splits)

lemma conn_recv_Inl:
  "conn_recv c = (Inl e, c') \<longleftrightarrow> recv_frame (cn_in c) = Inl e \<and> c' = c"
  by (auto simp: conn_recv_def split: sum.splits)

text \<open>Reading the next of the frames a peer has sent.\<close>

lemma conn_recv_frame:
  assumes "live (cn_in c)" and "stream (cn_in c) = frame_of p @ t" and "length p \<le> MAX_FRAME"
  shows "\<exists>s. conn_recv c = (Inr p, c\<lparr>cn_in := s\<rparr>) \<and> stream s = t \<and> live s"
proof -
  have "send_frame p = Inr (frame_of p)"
    using assms(3) by (simp add: send_frame_Inr frame_of_def MAX_FRAME_def)
  then have "parse_frame (stream (cn_in c)) = Inr (p, t)"
    using assms(2,3) parse_frame_send [of p t] by (simp add: send_frame_Inr frame_of_def)
  from frames.rd_Inr [OF assms(1) this] show ?thesis by (auto simp: conn_recv_Inr)
qed

text \<open>A read consumes at least the four bytes of a frame header: loops over a connection end.\<close>

fun_cases sock_recv_InrE: "sock_recv n s = Inr (chunk, t)"

lemma sock_recv_stream: "sock_recv n s = Inr (chunk, s') \<Longrightarrow> length (stream s') + length chunk \<le> length (stream s)"
  by (elim sock_recv_InrE) auto

lemma sock_recv_length: "sock_recv n s = Inr (chunk, s') \<Longrightarrow> length chunk \<le> n"
  by (elim sock_recv_InrE) auto

lemma recv_loop_stream:
  "recv_loop n buf s = Inr (d, s') \<Longrightarrow> length buf \<le> n \<Longrightarrow> n + length (stream s') \<le> length buf + length (stream s)"
proof (induction n buf s rule: recv_loop.induct)
  case (1 n buf s)
  show ?case
  proof (cases "length buf < n")
    case False
    with "1.prems" show ?thesis by (subst (asm) recv_loop.simps) auto
  next
    case True
    from "1.prems"(1) True obtain chunk t where c: "sock_recv (n - length buf) s = Inr (chunk, t)" "chunk \<noteq> []"
      "recv_loop n (buf @ chunk) t = Inr (d, s')"
      by (subst (asm) recv_loop.simps) (auto split: sum.splits if_splits)
    have "length chunk \<le> n - length buf" by (rule sock_recv_length [OF c(1)])
    with True have "length (buf @ chunk) \<le> n" by simp
    from "1.IH" [OF True c(1) refl c(2,3) this] sock_recv_stream [OF c(1)] show ?thesis by simp
  qed
qed

lemma recv_loop_length: "recv_loop n buf s = Inr (d, s') \<Longrightarrow> length buf \<le> n \<Longrightarrow> length d = n"
proof (induction n buf s rule: recv_loop.induct)
  case (1 n buf s)
  show ?case
  proof (cases "length buf < n")
    case False
    with "1.prems" show ?thesis by (subst (asm) recv_loop.simps) auto
  next
    case True
    from "1.prems"(1) True obtain chunk t where c: "sock_recv (n - length buf) s = Inr (chunk, t)" "chunk \<noteq> []"
      "recv_loop n (buf @ chunk) t = Inr (d, s')"
      by (subst (asm) recv_loop.simps) (auto split: sum.splits if_splits)
    have "length chunk \<le> n - length buf" by (rule sock_recv_length [OF c(1)])
    with True "1.IH" [OF True c(1) refl c(2,3)] show ?thesis by simp
  qed
qed

lemma recv_frame_bytes: "recv_frame s = Inr (d, s') \<Longrightarrow> length (stream s') + 4 + length d \<le> length (stream s)"
proof -
  assume a: "recv_frame s = Inr (d, s')"
  then obtain h t where h: "recv_loop 4 [] s = Inr (h, t)" "recv_loop (be_dec h) [] t = Inr (d, s')"
    by (auto simp: recv_frame_def recv_exactly_def bindE_eq_Inr Let_def split: if_splits)
  have "length d = be_dec h" using h(2) by (rule recv_loop_length) simp
  with recv_loop_stream [OF h(1)] recv_loop_stream [OF h(2)] show ?thesis by simp
qed

lemma recv_frame_consumes: "recv_frame s = Inr (d, s') \<Longrightarrow> length (stream s') < length (stream s)"
  by (drule recv_frame_bytes) simp

lemma conn_recv_consumes:
  "conn_recv c = (Inr d, c') \<Longrightarrow> length (stream (cn_in c')) < length (stream (cn_in c))"
  by (auto simp: conn_recv_Inr dest: recv_frame_consumes)

end
