(* ===== verification/Primitives.thy ===== *)
theory Primitives
  imports Prelude
begin

text \<open>
  The third-party code the repository calls (packages \<open>cryptography\<close> and \<open>argon2-cffi\<close>), which is
  a parameter of the model: every definition that reaches one of these functions takes a value of
  type \<open>prims\<close>.  What the code relies on is stated by the predicates of the second section, each
  the documented behaviour of one primitive; they are hypotheses of the theorems that need them.

  Key objects are identified by the data that determines them: an EC private key by its
  \<open>private_value\<close>, an EC public key by its X9.62 uncompressed encoding.
\<close>

section \<open>Certificates\<close>

datatype public_key = EcKey bytes | Ed25519Key bytes | OtherKey

datatype name_oid = CountryName | OrganizationName | CommonName | OtherOid nat

text \<open>The attributes of an \<open>x509.Certificate\<close> the code reads; an absent extension is \<open>None\<close>.\<close>

record x509_cert =
  crt_der :: bytes
  crt_tbs :: bytes
  crt_signature :: bytes
  crt_issuer :: "(name_oid \<times> pystr) list"
  crt_subject :: "(name_oid \<times> pystr) list"
  crt_not_before :: int
  crt_not_after :: int
  crt_basic_constraints :: "bool option"
  crt_san_dns :: "pystr list option"
  crt_public_key :: public_key

text \<open>What the code hands to \<open>x509.CertificateBuilder\<close>; the random serial number is left out.\<close>

record cert_template =
  ct_subject :: "(name_oid \<times> pystr) list"
  ct_issuer :: "(name_oid \<times> pystr) list"
  ct_public_key :: public_key
  ct_not_before :: int
  ct_not_after :: int
  ct_basic_constraints :: "(bool \<times> nat option) option"
  ct_key_usage :: "string list"
  ct_server_auth :: bool
  ct_san_dns :: "pystr list option"
  ct_subject_key :: "public_key option"
  ct_authority_key :: "public_key option"

section \<open>The primitives\<close>

record prims =
  c_sha512 :: "bytes \<Rightarrow> bytes"
  c_hmac_sha512 :: "bytes \<Rightarrow> bytes \<Rightarrow> bytes"
  c_hkdf_expand :: "int \<Rightarrow> bytes \<Rightarrow> bytes \<Rightarrow> bytes res"
  c_hkdf :: "int \<Rightarrow> bytes \<Rightarrow> bytes \<Rightarrow> bytes \<Rightarrow> bytes"
  chacha_new :: "bytes \<Rightarrow> bytes res"
  chacha_encrypt :: "bytes \<Rightarrow> bytes \<Rightarrow> bytes \<Rightarrow> bytes \<Rightarrow> bytes res"
  chacha_decrypt :: "bytes \<Rightarrow> bytes \<Rightarrow> bytes \<Rightarrow> bytes \<Rightarrow> bytes res"
  aesgcm_new :: "bytes \<Rightarrow> bytes res"
  aesgcm_encrypt :: "bytes \<Rightarrow> bytes \<Rightarrow> bytes \<Rightarrow> bytes \<Rightarrow> bytes res"
  aesgcm_decrypt :: "bytes \<Rightarrow> bytes \<Rightarrow> bytes \<Rightarrow> bytes \<Rightarrow> bytes res"
  ec_public_bytes :: "int \<Rightarrow> bytes"
  ec_from_encoded_point :: "bytes \<Rightarrow> bytes res"
  ec_derive_private_key :: "int \<Rightarrow> int res"
  ec_exchange :: "int \<Rightarrow> bytes \<Rightarrow> bytes"
  ecdsa_sign :: "int \<Rightarrow> bytes \<Rightarrow> bytes \<Rightarrow> bytes"
  ecdsa_verify :: "bytes \<Rightarrow> bytes \<Rightarrow> bytes \<Rightarrow> bool"
  ed25519_public :: "bytes \<Rightarrow> bytes"
  ed25519_verify :: "bytes \<Rightarrow> bytes \<Rightarrow> bytes \<Rightarrow> bool"
  has_argon2 :: bool
  argon2id :: "bytes \<Rightarrow> bytes \<Rightarrow> bytes res"
  x509_load_der :: "bytes \<Rightarrow> x509_cert res"
  x509_sign :: "bytes \<Rightarrow> int \<Rightarrow> cert_template \<Rightarrow> x509_cert"
  pem_cert :: "x509_cert \<Rightarrow> bytes"
  pem_load_cert :: "bytes \<Rightarrow> x509_cert res"
  pem_key :: "int \<Rightarrow> bytes"
  pem_load_key :: "bytes \<Rightarrow> int res"

text \<open>
  An AEAD object is identified by its key, which its constructor (\<open>chacha_new\<close>, \<open>aesgcm_new\<close>)
  checks.  Argument orders: \<open>c_hmac_sha512 key msg\<close>; \<open>c_hkdf_expand length info key\<close>;
  \<open>c_hkdf length salt info ikm\<close>; the two AEADs \<open>key nonce data aad\<close>; \<open>ec_exchange priv pub\<close>;
  \<open>ecdsa_sign priv randomness msg\<close>; \<open>ecdsa_verify pub sig msg\<close>; \<open>argon2id secret salt\<close>;
  \<open>x509_sign key serial template\<close> is \<open>CertificateBuilder.sign\<close> with an Ed25519 key; \<open>pem_key\<close> is the
  unencrypted PKCS8 form of an EC key.
\<close>

section \<open>Documented behaviour\<close>

text \<open>A SHA-512 digest has 64 bytes.\<close>

definition sha512_ok :: "prims \<Rightarrow> bool" where
  "sha512_ok P \<longleftrightarrow> (\<forall>x. length (c_sha512 P x) = 64)"

lemma sha512_okD: "sha512_ok P \<Longrightarrow> length (c_sha512 P x) = 64"
  by (simp add: sha512_ok_def)

text \<open>HKDF-Expand returns as many bytes as asked for, for every length up to 255 hash blocks.\<close>

definition hkdf_expand_ok :: "prims \<Rightarrow> bool" where
  "hkdf_expand_ok P \<longleftrightarrow> (\<forall>n info k. 0 \<le> n \<and> n \<le> 16320 \<longrightarrow>
     (\<exists>out. c_hkdf_expand P n info k = Inr out \<and> length out = nat n))"

text \<open>
  An AEAD takes a 32-byte key, encrypts up to \<open>2 ^ 31 - 1\<close> bytes to a ciphertext 16 bytes longer
  and decrypts what it encrypted.
\<close>

definition aead_ok ::
  "(bytes \<Rightarrow> bytes res) \<Rightarrow> (bytes \<Rightarrow> bytes \<Rightarrow> bytes \<Rightarrow> bytes \<Rightarrow> bytes res) \<Rightarrow>
   (bytes \<Rightarrow> bytes \<Rightarrow> bytes \<Rightarrow> bytes \<Rightarrow> bytes res) \<Rightarrow> bool" where
  "aead_ok new enc dec \<longleftrightarrow> (\<forall>k. length k = 32 \<longrightarrow> new k = Inr k) \<and>
     (\<forall>k n p a. length p < 2 ^ 31 \<longrightarrow> length a < 2 ^ 31 \<longrightarrow>
        (\<exists>c. enc k n p a = Inr c \<and> length c = length p + 16 \<and> dec k n c a = Inr p))"

definition chacha_ok :: "prims \<Rightarrow> bool" where
  "chacha_ok P \<longleftrightarrow> aead_ok (chacha_new P) (chacha_encrypt P) (chacha_decrypt P)"

definition aesgcm_ok :: "prims \<Rightarrow> bool" where
  "aesgcm_ok P \<longleftrightarrow> aead_ok (aesgcm_new P) (aesgcm_encrypt P) (aesgcm_decrypt P)"

text \<open>Argon2id with a salt of 8 bytes or more returns the 64 bytes it is asked for.\<close>

definition argon2_ok :: "prims \<Rightarrow> bool" where
  "argon2_ok P \<longleftrightarrow> (\<forall>s salt. 8 \<le> length salt \<longrightarrow> (\<exists>k. argon2id P s salt = Inr k \<and> length k = 64))"

text \<open>Both sides of a Diffie-Hellman exchange obtain the same bytes.\<close>

definition ecdh_ok :: "prims \<Rightarrow> bool" where
  "ecdh_ok P \<longleftrightarrow> (\<forall>a b. ec_exchange P a (ec_public_bytes P b) = ec_exchange P b (ec_public_bytes P a))"

text \<open>The encoding of a public key loads back to the key; an uncompressed P-256 point has 65 bytes.\<close>

definition ec_keys_ok :: "prims \<Rightarrow> bool" where
  "ec_keys_ok P \<longleftrightarrow>
     (\<forall>a. ec_from_encoded_point P (ec_public_bytes P a) = Inr (ec_public_bytes P a) \<and>
        length (ec_public_bytes P a) = 65)"

text \<open>
  A signature made with a key verifies under its public key; the DER form of a P-256 signature has
  at most 72 bytes.
\<close>

definition ecdsa_ok :: "prims \<Rightarrow> bool" where
  "ecdsa_ok P \<longleftrightarrow> (\<forall>k r m. ecdsa_verify P (ec_public_bytes P k) (ecdsa_sign P k r m) m \<and>
     length (ecdsa_sign P k r m) \<le> 72)"

text \<open>
  A certificate built from a template has the template's attributes and a signature of the issuing
  key, and its DER form loads back to it and fits the chain's 24-bit length field.
\<close>

definition x509_sign_ok :: "prims \<Rightarrow> bytes \<Rightarrow> int \<Rightarrow> cert_template \<Rightarrow> bool" where
  "x509_sign_ok P k serial t \<longleftrightarrow> (let c = x509_sign P k serial t in
     crt_subject c = ct_subject t \<and> crt_issuer c = ct_issuer t \<and> crt_public_key c = ct_public_key t \<and>
     crt_not_before c = ct_not_before t \<and> crt_not_after c = ct_not_after t \<and>
     crt_basic_constraints c = map_option fst (ct_basic_constraints t) \<and> crt_san_dns c = ct_san_dns t \<and>
     ed25519_verify P (ed25519_public P k) (crt_signature c) (crt_tbs c) \<and>
     x509_load_der P (crt_der c) = Inr c \<and> length (crt_der c) < 2 ^ 24)"

text \<open>The PEM form of a certificate and of a key with a valid private value loads back to it.\<close>

definition pem_ok :: "prims \<Rightarrow> bool" where
  "pem_ok P \<longleftrightarrow>
     (\<forall>c. x509_load_der P (crt_der c) = Inr c \<longrightarrow> pem_load_cert P (pem_cert P c) = Inr c) \<and>
     (\<forall>k. ec_derive_private_key P k = Inr k \<longrightarrow> pem_load_key P (pem_key P k) = Inr k)"

lemma hkdf_expand_okD:
  "hkdf_expand_ok P \<Longrightarrow> 0 \<le> n \<Longrightarrow> n \<le> 16320 \<Longrightarrow>
    \<exists>out. c_hkdf_expand P n info k = Inr out \<and> length out = nat n"
  by (simp add: hkdf_expand_ok_def)

lemma aead_okD:
  assumes "aead_ok new enc dec"
  shows "length k = 32 \<Longrightarrow> new k = Inr k"
    and "length p < 2 ^ 31 \<Longrightarrow> length a < 2 ^ 31 \<Longrightarrow>
      \<exists>c. enc k n p a = Inr c \<and> length c = length p + 16 \<and> dec k n c a = Inr p"
  using assms unfolding aead_ok_def by blast+

lemmas chacha_okD = aead_okD [OF chacha_ok_def [THEN iffD1]]
lemmas aesgcm_okD = aead_okD [OF aesgcm_ok_def [THEN iffD1]]

lemma argon2_okD: "argon2_ok P \<Longrightarrow> 8 \<le> length salt \<Longrightarrow> \<exists>k. argon2id P s salt = Inr k \<and> length k = 64"
  by (simp add: argon2_ok_def)

lemma ec_keys_okD:
  "ec_keys_ok P \<Longrightarrow> ec_from_encoded_point P (ec_public_bytes P a) = Inr (ec_public_bytes P a)"
  "ec_keys_ok P \<Longrightarrow> length (ec_public_bytes P a) = 65"
  by (simp_all add: ec_keys_ok_def)

lemma ecdh_okD: "ecdh_ok P \<Longrightarrow> ec_exchange P a (ec_public_bytes P b) = ec_exchange P b (ec_public_bytes P a)"
  by (simp add: ecdh_ok_def)

lemma ecdsa_okD: "ecdsa_ok P \<Longrightarrow> ecdsa_verify P (ec_public_bytes P k) (ecdsa_sign P k r m) m"
  "ecdsa_ok P \<Longrightarrow> length (ecdsa_sign P k r m) \<le> 72"
  by (simp_all add: ecdsa_ok_def)

end
