(* ===== verification/Sample_Primitives.thy ===== *)
theory Sample_Primitives
  imports Primitives
begin

text \<open>
  One concrete instance of the third-party primitives, with none of their security, that satisfies
  every documented behaviour of \<open>Primitives\<close>: the witnesses evaluate the model on it, which shows
  that the hypotheses of the theorems can hold together.
\<close>

definition fit :: "nat \<Rightarrow> bytes \<Rightarrow> bytes" where
  "fit n x = take n (x @ replicate n 0)"

lemma length_fit [simp]: "length (fit n x) = n"
  by (simp add: fit_def)

definition sample_new :: "bytes \<Rightarrow> bytes res" where
  "sample_new k = (if length k = 32 then Inr k else raise ValueError ''key must be 32 bytes.'')"

definition sample_seal :: "bytes \<Rightarrow> bytes \<Rightarrow> bytes \<Rightarrow> bytes \<Rightarrow> bytes res" where
  "sample_seal k n p a = (if length p < 2 ^ 31 \<and> length a < 2 ^ 31 then Inr (p @ fit 16 (a @ n @ k))
     else raise OverflowError ''Data or associated data too long.'')"

definition sample_open :: "bytes \<Rightarrow> bytes \<Rightarrow> bytes \<Rightarrow> bytes \<Rightarrow> bytes res" where
  "sample_open k n c a =
     (if 16 \<le> length c \<and> drop (length c - 16) c = fit 16 (a @ n @ k)
      then Inr (take (length c - 16) c) else raise InvalidTag ''invalid tag'')"

lemma sample_aead_ok: "aead_ok sample_new sample_seal sample_open"
  by (simp add: aead_ok_def sample_new_def sample_seal_def sample_open_def)

definition sample_public :: "int \<Rightarrow> bytes" where
  "sample_public a = 4 # be_enc 64 (nat a)"

definition sample_exchange :: "int \<Rightarrow> bytes \<Rightarrow> bytes" where
  "sample_exchange a pub = be_enc 32 ((nat a mod 256 ^ 64) * be_dec (tl pub))"

lemma sample_exchange_sym: "sample_exchange a (sample_public b) = sample_exchange b (sample_public a)"
  by (simp add: sample_exchange_def sample_public_def be_dec_be_enc_mod mult.commute)

text \<open>One certificate authority and one server certificate, issued at time 1000.\<close>

definition sample_ca :: x509_cert where
  "sample_ca = \<lparr>crt_der = [1], crt_tbs = [101], crt_signature = [9, 101],
     crt_issuer = [(CountryName, lit ''US''), (OrganizationName, lit ''CSE539 Root CA''), (CommonName, lit ''CSE539 Root CA v1'')],
     crt_subject = [(CountryName, lit ''US''), (OrganizationName, lit ''CSE539 Root CA''), (CommonName, lit ''CSE539 Root CA v1'')],
     crt_not_before = 940, crt_not_after = 315360940, crt_basic_constraints = Some True,
     crt_san_dns = None, crt_public_key = Ed25519Key [9]\<rparr>"

definition sample_server :: x509_cert where
  "sample_server = \<lparr>crt_der = [2], crt_tbs = [102], crt_signature = [9, 102],
     crt_issuer = [(CountryName, lit ''US''), (OrganizationName, lit ''CSE539 Root CA''), (CommonName, lit ''CSE539 Root CA v1'')],
     crt_subject = [(CountryName, lit ''US''), (OrganizationName, lit ''CSE539 VAULTTLS''), (CommonName, lit ''localhost'')],
     crt_not_before = 940, crt_not_after = 31536940, crt_basic_constraints = Some False,
     crt_san_dns = Some [lit ''localhost''], crt_public_key = EcKey (sample_public 5)\<rparr>"

text \<open>A server certificate that another authority has signed.\<close>

definition sample_foreign :: x509_cert where
  "sample_foreign = sample_server\<lparr>crt_der := [3], crt_tbs := [103], crt_signature := [8, 103]\<rparr>"

text \<open>That authority.\<close>

definition sample_foreign_ca :: x509_cert where
  "sample_foreign_ca = sample_ca\<lparr>crt_der := [4], crt_tbs := [104], crt_signature := [8, 104], crt_public_key := Ed25519Key [8]\<rparr>"

definition sample_sign :: "bytes \<Rightarrow> int \<Rightarrow> cert_template \<Rightarrow> x509_cert" where
  "sample_sign k serial t = \<lparr>crt_der = [word_of_int serial], crt_tbs = [100 + word_of_int serial],
     crt_signature = k @ [100 + word_of_int serial], crt_issuer = ct_issuer t, crt_subject = ct_subject t,
     crt_not_before = ct_not_before t, crt_not_after = ct_not_after t,
     crt_basic_constraints = map_option fst (ct_basic_constraints t), crt_san_dns = ct_san_dns t,
     crt_public_key = ct_public_key t\<rparr>"

definition sample :: prims where
  "sample = \<lparr>
     c_sha512 = fit 64,
     c_hmac_sha512 = (\<lambda>k m. fit 64 (m @ k)),
     c_hkdf_expand = (\<lambda>n info k. if 0 \<le> n \<and> n \<le> 16320 then Inr (fit (nat n) (info @ k))
       else raise ValueError ''Can not derive keys larger than 16320 octets.''),
     c_hkdf = (\<lambda>n salt info ikm. fit (nat n) (ikm @ salt @ info)),
     chacha_new = sample_new,
     chacha_encrypt = sample_seal,
     chacha_decrypt = sample_open,
     aesgcm_new = sample_new,
     aesgcm_encrypt = sample_seal,
     aesgcm_decrypt = sample_open,
     ec_public_bytes = sample_public,
     ec_from_encoded_point = (\<lambda>b. if length b = 65 \<or> length b = 33 then Inr b
       else raise ValueError ''Unsupported elliptic curve point type''),
     ec_derive_private_key = (\<lambda>a. if 0 < a \<and> a < 2 ^ 255 then Inr a
       else raise ValueError ''private_value out of range''),
     ec_exchange = sample_exchange,
     ecdsa_sign = (\<lambda>k r m. fit 72 (sample_public k @ m)),
     ecdsa_verify = (\<lambda>pub sig m. sig = fit 72 (pub @ m)),
     ed25519_public = (\<lambda>k. k),
     ed25519_verify = (\<lambda>pub sig m. sig = pub @ m),
     has_argon2 = True,
     argon2id = (\<lambda>s salt. if 8 \<le> length salt then Inr (fit 64 (s @ salt))
       else raise LibraryError ''Salt is too short''),
     x509_load_der = (\<lambda>d. if d = [1] then Inr sample_ca else if d = [2] then Inr sample_server
       else if d = [3] then Inr sample_foreign else if d = [4] then Inr sample_foreign_ca
       else raise ValueError ''error parsing asn1 value''),
     x509_sign = sample_sign,
     pem_cert = (\<lambda>c. 67 # crt_der c),
     pem_load_cert = (\<lambda>b. if b = [67, 1] then Inr sample_ca else if b = [67, 2] then Inr sample_server
       else if b = [67, 3] then Inr sample_foreign else if b = [67, 4] then Inr sample_foreign_ca
       else raise ValueError ''Unable to load PEM file.''),
     pem_key = (\<lambda>k. 75 # be_enc 32 (nat k)),
     pem_load_key = (\<lambda>b. if length b = 33 \<and> hd b = 75 then Inr (int (be_dec (tl b)))
       else raise ValueError ''Unable to load PEM file.'')\<rparr>"

lemma sample_sel [simp]:
  "c_sha512 sample = fit 64"
  "c_hmac_sha512 sample k m = fit 64 (m @ k)"
  "c_hkdf sample n salt info ikm = fit (nat n) (ikm @ salt @ info)"
  "chacha_new sample = sample_new" "aesgcm_new sample = sample_new"
  "chacha_encrypt sample = sample_seal" "chacha_decrypt sample = sample_open"
  "aesgcm_encrypt sample = sample_seal" "aesgcm_decrypt sample = sample_open"
  "ec_public_bytes sample = sample_public" "ec_exchange sample = sample_exchange"
  "ecdsa_sign sample sk r m = fit 72 (sample_public sk @ m)" "ecdsa_verify sample pub sig m \<longleftrightarrow> sig = fit 72 (pub @ m)"
  "ed25519_verify sample pub sig m \<longleftrightarrow> sig = pub @ m"
  "has_argon2 sample" "ed25519_public sample k = k" "x509_sign sample = sample_sign"
  by (simp_all add: sample_def)

lemma sample_expand [simp]:
  "0 \<le> n \<Longrightarrow> n \<le> 16320 \<Longrightarrow> c_hkdf_expand sample n info k = Inr (fit (nat n) (info @ k))"
  by (simp add: sample_def)

lemma sample_point [simp]:
  "length b = 65 \<or> length b = 33 \<Longrightarrow> ec_from_encoded_point sample b = Inr b"
  by (auto simp: sample_def)

lemma sample_derive [simp]:
  "0 < a \<Longrightarrow> a < 2 ^ 255 \<Longrightarrow> ec_derive_private_key sample a = Inr a"
  by (simp add: sample_def)

lemma sample_argon2 [simp]:
  "8 \<le> length salt \<Longrightarrow> argon2id sample s salt = Inr (fit 64 (s @ salt))"
  by (simp add: sample_def)

lemma sample_x509 [simp]:
  "x509_load_der sample [1] = Inr sample_ca" "x509_load_der sample [2] = Inr sample_server"
  "x509_load_der sample [3] = Inr sample_foreign" "x509_load_der sample [4] = Inr sample_foreign_ca"
  by (simp_all add: sample_def)

lemma sample_pem_ok [simp]: "pem_ok sample"
  unfolding pem_ok_def
  by (auto simp: sample_def sample_ca_def sample_server_def sample_foreign_def sample_foreign_ca_def split: if_splits)

lemma sample_public_length [simp]: "length (sample_public a) = 65"
  by (simp add: sample_public_def)

lemma sample_ok [simp]:
  "sha512_ok sample" "hkdf_expand_ok sample" "chacha_ok sample" "aesgcm_ok sample"
  "ecdh_ok sample" "ec_keys_ok sample" "ecdsa_ok sample" "argon2_ok sample"
  by (simp_all add: sha512_ok_def hkdf_expand_ok_def chacha_ok_def aesgcm_ok_def ecdh_ok_def
      ec_keys_ok_def ecdsa_ok_def argon2_ok_def sample_exchange_sym sample_aead_ok)

end
