(* ===== verification/Kdf.thy ===== *)
theory Kdf
  imports Prelude Primitives Sample_Primitives Utf8 Codec
begin

text \<open>
  The key schedule and the handshake transcript (\<open>tls13_kdf.py\<close>): HKDF-Expand-Label and
  Derive-Secret, the length-prefixed transcript accumulator and the derivation of the five traffic
  secrets.  The lemmas show the two encodings injective (the transcript as a list of labelled
  messages, the HKDF info string as label, context and length), which is what the key schedule's
  domain separation and transcript binding rest on.
\<close>

section \<open>HKDF helpers\<close>

definition KDF_HASH_LEN :: nat where [simp]: "KDF_HASH_LEN = 64"

definition hash_bytes :: "prims \<Rightarrow> bytes list \<Rightarrow> bytes" where
  "hash_bytes P chunks = c_sha512 P (concat chunks)"

definition hkdf_extract :: "prims \<Rightarrow> bytes \<Rightarrow> bytes \<Rightarrow> bytes" where
  "hkdf_extract P salt ikm =
     c_hmac_sha512 P (if salt = [] then replicate KDF_HASH_LEN 0 else salt) ikm"

definition hkdf_label :: "bytes \<Rightarrow> bytes \<Rightarrow> int \<Rightarrow> bytes res" where
  "hkdf_label label context n =
     (let full_label = blit ''tls13 '' @ label in
      bindE (struct_pack 2 n) (\<lambda>a.
      bindE (bytes_of_ints [int (length full_label)]) (\<lambda>b.
      bindE (bytes_of_ints [int (length context)]) (\<lambda>c.
        Inr (a @ (b @ full_label) @ (c @ context))))))"

definition hkdf_expand_label :: "prims \<Rightarrow> bytes \<Rightarrow> bytes \<Rightarrow> bytes \<Rightarrow> int \<Rightarrow> bytes res" where
  "hkdf_expand_label P secret label context n =
     bindE (hkdf_label label context n) (\<lambda>info. c_hkdf_expand P n info secret)"

definition derive_secret :: "prims \<Rightarrow> bytes \<Rightarrow> bytes \<Rightarrow> bytes \<Rightarrow> bytes res" where
  "derive_secret P secret label transcript_hash =
     hkdf_expand_label P secret label transcript_hash (int KDF_HASH_LEN)"

section \<open>Transcript\<close>

record transcript =
  tr_parts :: "bytes list"

definition transcript_new :: transcript where
  "transcript_new = \<lparr>tr_parts = []\<rparr>"

text \<open>
  A raise between the two appends would leave the first one behind; the object is local to the
  handshake the exception ends, so the error carries no transcript.
\<close>

definition transcript_add :: "pystr \<Rightarrow> bytes \<Rightarrow> transcript \<Rightarrow> transcript res" where
  "transcript_add label value t =
     bindE (utf8_encode label) (\<lambda>lb.
     bindE (struct_pack 2 (int (length lb))) (\<lambda>h.
     bindE (struct_pack 4 (int (length value))) (\<lambda>v.
       Inr (t\<lparr>tr_parts := tr_parts t @ [h @ lb] @ [v @ value]\<rparr>))))"

definition transcript_digest :: "prims \<Rightarrow> transcript \<Rightarrow> bytes" where
  "transcript_digest P t = hash_bytes P (tr_parts t)"

section \<open>Key schedule\<close>

record traffic_secrets =
  ts_client_hs :: bytes
  ts_server_hs :: bytes
  ts_client_app :: bytes
  ts_server_app :: bytes
  ts_exporter :: bytes

definition derive_traffic_secrets :: "prims \<Rightarrow> bytes \<Rightarrow> bytes \<Rightarrow> traffic_secrets res" where
  "derive_traffic_secrets P opaque_session_key th =
     (let zero = replicate KDF_HASH_LEN 0;
          empty_hash = hash_bytes P [[]];
          early_secret = hkdf_extract P zero [] in
      bindE (derive_secret P early_secret (blit ''derived'') empty_hash) (\<lambda>derived_0.
      let handshake_secret = hkdf_extract P derived_0 opaque_session_key in
      bindE (derive_secret P handshake_secret (blit ''c hs traffic'') th) (\<lambda>client_hs.
      bindE (derive_secret P handshake_secret (blit ''s hs traffic'') th) (\<lambda>server_hs.
      bindE (derive_secret P handshake_secret (blit ''derived'') empty_hash) (\<lambda>derived_1.
      let master_secret = hkdf_extract P derived_1 [] in
      bindE (derive_secret P master_secret (blit ''c ap traffic'') th) (\<lambda>client_app.
      bindE (derive_secret P master_secret (blit ''s ap traffic'') th) (\<lambda>server_app.
      bindE (derive_secret P master_secret (blit ''exp master'') th) (\<lambda>exporter.
        Inr \<lparr>ts_client_hs = client_hs, ts_server_hs = server_hs, ts_client_app = client_app,
             ts_server_app = server_app, ts_exporter = exporter\<rparr>))))))))"

section \<open>The transcript encoding\<close>

text \<open>One \<open>add\<close>, seen as appending the encoding of a labelled message.\<close>

definition enc_entry :: "pystr \<times> bytes \<Rightarrow> bytes res" where
  "enc_entry e = bindE (utf8_encode (fst e)) (\<lambda>lb. bindE (p16 lb) (\<lambda>a.
     bindE (struct_pack 4 (int (length (snd e)))) (\<lambda>v. Inr (a @ v @ snd e))))"

fun transcript_of :: "(pystr \<times> bytes) list \<Rightarrow> transcript \<Rightarrow> transcript res" where
  "transcript_of [] t = Inr t"
| "transcript_of (e # es) t = bindE (transcript_add (fst e) (snd e) t) (transcript_of es)"

definition dec_entry :: "bytes \<Rightarrow> (pystr \<times> bytes) res" where
  "dec_entry d = bindE (r_v16 (reader_init d)) (\<lambda>(lb, r). bindE (r_u32 r) (\<lambda>(n, r).
     bindE (r_read (nat n) r) (\<lambda>(v, r). Inr (utf8_replace lb, v))))"

lemma dec_enc_entry: "enc_entry e = Inr bs \<Longrightarrow> dec_entry (bs @ t) = Inr e"
proof -
  assume "enc_entry e = Inr bs"
  then obtain lb a v where lb: "utf8_encode (fst e) = Inr lb" and a: "p16 lb = Inr a"
    and v: "struct_pack 4 (int (length (snd e))) = Inr v" and bs: "bs = a @ v @ snd e"
    by (auto simp: enc_entry_def bindE_eq_Inr)
  obtain r1 where r1: "r_v16 (reader_init (bs @ t)) = Inr (lb, r1)" "r_rest r1 = v @ snd e @ t"
    using f_v16.rd_enc [OF a, of "reader_init (bs @ t)"] by (auto simp: bs)
  obtain r2 where r2: "r_u32 r1 = Inr (int (length (snd e)), r2)" "r_rest r2 = snd e @ t"
    using f_u32.rd_enc [OF v r1(2)] by blast
  obtain r3 where "r_read (length (snd e)) r2 = Inr (snd e, r3)"
    using r_read_append [OF r2(2)] by blast
  with r1 r2 utf8_replace_encode [OF lb] show ?thesis
    by (simp add: dec_entry_def)
qed

interpretation entry: message_codec enc_entry dec_entry
  by unfold_locales (fact dec_enc_entry)

lemma transcript_add_parts:
  assumes "transcript_add l v t = Inr t'"
  shows "\<exists>bs. enc_entry (l, v) = Inr bs \<and> concat (tr_parts t') = concat (tr_parts t) @ bs \<and> bs \<noteq> []"
  using assms
  by (auto simp: transcript_add_def enc_entry_def p16_def bindE_eq_Inr struct_pack_Inr)
     (metis length_be_enc length_0_conv zero_neq_numeral)+

lemma transcript_of_parts:
  "transcript_of es t = Inr t' \<Longrightarrow>
    \<exists>bss. concat (tr_parts t') = concat (tr_parts t) @ concat bss \<and>
      list_all2 (\<lambda>e bs. enc_entry e = Inr bs \<and> bs \<noteq> []) es bss"
proof (induction es arbitrary: t)
  case Nil
  then show ?case by (auto intro: exI [of _ "[]"])
next
  case (Cons e es)
  then obtain t1 where t1: "transcript_add (fst e) (snd e) t = Inr t1"
    and t': "transcript_of es t1 = Inr t'"
    by (auto simp: bindE_eq_Inr)
  from transcript_add_parts [OF t1] obtain bs where bs: "enc_entry e = Inr bs" "bs \<noteq> []"
      "concat (tr_parts t1) = concat (tr_parts t) @ bs"
    by auto
  from Cons.IH [OF t'] obtain bss where "concat (tr_parts t') = concat (tr_parts t1) @ concat bss"
      "list_all2 (\<lambda>e bs. enc_entry e = Inr bs \<and> bs \<noteq> []) es bss"
    by blast
  with bs show ?case by (intro exI [of _ "bs # bss"]) simp
qed

lemma transcript_of_inject:
  assumes "transcript_of es t = Inr t1" and "transcript_of fs t = Inr t2"
    and "concat (tr_parts t1) = concat (tr_parts t2)"
  shows "es = fs"
  using transcript_of_parts [OF assms(1)] transcript_of_parts [OF assms(2)] assms(3)
  by (auto intro: entry.stream_inject)

lemma transcript_add_total:
  "utf8_encode l = Inr lb \<Longrightarrow> length lb < 65536 \<Longrightarrow> length v < 2 ^ 32 \<Longrightarrow>
    transcript_add l v t = Inr (t\<lparr>tr_parts := tr_parts t @
      [be_enc 2 (length lb) @ lb, be_enc 4 (length v) @ v]\<rparr>)"
  by (simp add: transcript_add_def struct_pack_def)

section \<open>The HKDF info string\<close>

lemma hkdf_label_Inr:
  "hkdf_label l c n = Inr i \<longleftrightarrow> 0 \<le> n \<and> n < 65536 \<and> length l \<le> 249 \<and> length c \<le> 255 \<and>
     i = be_enc 2 (nat n) @ [word_of_nat (length l + 6)] @ blit ''tls13 '' @ l @
       [word_of_nat (length c)] @ c"
  by (auto simp: hkdf_label_def Let_def bindE_eq_Inr struct_pack_Inr byte_of_int_Inr)

lemma hkdf_label_inject:
  assumes "hkdf_label l c n = Inr i" and "hkdf_label l' c' n' = Inr i"
  shows "l = l' \<and> c = c' \<and> n = n'"
proof -
  have "be_enc 2 (nat n) @ word_of_nat (length l + 6) # blit ''tls13 '' @ l @ [word_of_nat (length c)] @ c
      = be_enc 2 (nat n') @ word_of_nat (length l' + 6) # blit ''tls13 '' @ l' @ [word_of_nat (length c')] @ c'"
    using assms unfolding hkdf_label_Inr by simp
  then have n: "be_enc 2 (nat n) = be_enc 2 (nat n')"
    and l: "(word_of_nat (length l + 6) :: byte) = word_of_nat (length l' + 6)"
    and r: "l @ [word_of_nat (length c)] @ c = l' @ [word_of_nat (length c')] @ c'"
    by (simp_all only: append_same_length_inject length_be_enc list.inject refl simp_thms)
  have "nat n = nat n'"
    using n assms by (subst (asm) be_enc_inject) (auto simp: hkdf_label_Inr)
  then have nn: "n = n'" using assms by (auto simp: hkdf_label_Inr)
  have "length l + 6 < 256" "length l' + 6 < 256"
    using assms unfolding hkdf_label_Inr by simp_all
  then have "unat (word_of_nat (length l + 6) :: byte) = length l + 6"
    "unat (word_of_nat (length l' + 6) :: byte) = length l' + 6"
    by (simp_all only: unat_word_of_nat_byte)
  then have "length l = length l'" using l by (metis add_right_cancel)
  then have "l = l'" and "c = c'" using r by simp_all
  with nn show ?thesis by simp
qed

section \<open>Derive-Secret\<close>

lemma derive_secret_Inr:
  "derive_secret P s l th = Inr x \<longleftrightarrow>
    (\<exists>i. hkdf_label l th 64 = Inr i \<and> c_hkdf_expand P 64 i s = Inr x)"
  by (simp add: derive_secret_def hkdf_expand_label_def bindE_eq_Inr)

lemma derive_secret_total:
  assumes "hkdf_expand_ok P" and "length l \<le> 249" and "length th \<le> 255"
  shows "\<exists>x. derive_secret P s l th = Inr x \<and> length x = 64"
proof -
  obtain i where i: "hkdf_label l th 64 = Inr i"
    using assms(2,3) by (simp add: hkdf_label_Inr)
  from hkdf_expand_okD [OF assms(1), of 64 i s] i show ?thesis
    by (auto simp: derive_secret_Inr)
qed

lemma hkdf_label_suffix: "hkdf_label l th n = Inr i \<Longrightarrow> \<exists>pre. i = pre @ th"
  by (auto simp: hkdf_label_Inr)

lemma derive_traffic_secrets_Inr:
  "derive_traffic_secrets P sk th = Inr s \<longleftrightarrow> (\<exists>d0 d1.
     derive_secret P (hkdf_extract P (replicate 64 0) []) (blit ''derived'') (hash_bytes P [[]]) = Inr d0 \<and>
     derive_secret P (hkdf_extract P d0 sk) (blit ''derived'') (hash_bytes P [[]]) = Inr d1 \<and>
     derive_secret P (hkdf_extract P d0 sk) (blit ''c hs traffic'') th = Inr (ts_client_hs s) \<and>
     derive_secret P (hkdf_extract P d0 sk) (blit ''s hs traffic'') th = Inr (ts_server_hs s) \<and>
     derive_secret P (hkdf_extract P d1 []) (blit ''c ap traffic'') th = Inr (ts_client_app s) \<and>
     derive_secret P (hkdf_extract P d1 []) (blit ''s ap traffic'') th = Inr (ts_server_app s) \<and>
     derive_secret P (hkdf_extract P d1 []) (blit ''exp master'') th = Inr (ts_exporter s))"
  by (cases s) (auto simp: derive_traffic_secrets_def Let_def bindE_eq_Inr)

lemma hkdf_label_neq:
  "hkdf_label (blit l) c n = Inr i \<Longrightarrow> hkdf_label (blit l') c' n' = Inr i' \<Longrightarrow> blit l \<noteq> blit l' \<Longrightarrow> i \<noteq> i'"
  using hkdf_label_inject by blast

lemma hkdf_labels_distinct:
  assumes "hkdf_label (blit ''c hs traffic'') th 64 = Inr i1"
    and "hkdf_label (blit ''s hs traffic'') th 64 = Inr i2"
    and "hkdf_label (blit ''c ap traffic'') th 64 = Inr i3"
    and "hkdf_label (blit ''s ap traffic'') th 64 = Inr i4"
    and "hkdf_label (blit ''exp master'') th 64 = Inr i5"
  shows "distinct [i1, i2, i3, i4, i5]"
  using hkdf_label_neq [OF assms(1) assms(2)] hkdf_label_neq [OF assms(1) assms(3)] hkdf_label_neq [OF assms(1) assms(4)]
    hkdf_label_neq [OF assms(1) assms(5)] hkdf_label_neq [OF assms(2) assms(3)] hkdf_label_neq [OF assms(2) assms(4)]
    hkdf_label_neq [OF assms(2) assms(5)] hkdf_label_neq [OF assms(3) assms(4)]
    hkdf_label_neq [OF assms(3) assms(5)] hkdf_label_neq [OF assms(4) assms(5)]
  by (simp add: blit_simps)

lemma schedule_infos:
  assumes "derive_traffic_secrets P sk th = Inr s"
  shows "\<exists>hs ms i1 i2 i3 i4 i5.
    hkdf_label (blit ''c hs traffic'') th 64 = Inr i1 \<and> hkdf_label (blit ''s hs traffic'') th 64 = Inr i2 \<and>
    hkdf_label (blit ''c ap traffic'') th 64 = Inr i3 \<and> hkdf_label (blit ''s ap traffic'') th 64 = Inr i4 \<and>
    hkdf_label (blit ''exp master'') th 64 = Inr i5 \<and>
    c_hkdf_expand P 64 i1 hs = Inr (ts_client_hs s) \<and> c_hkdf_expand P 64 i2 hs = Inr (ts_server_hs s) \<and>
    c_hkdf_expand P 64 i3 ms = Inr (ts_client_app s) \<and> c_hkdf_expand P 64 i4 ms = Inr (ts_server_app s) \<and>
    c_hkdf_expand P 64 i5 ms = Inr (ts_exporter s)"
proof -
  obtain d0 d1 where d:
      "derive_secret P (hkdf_extract P d0 sk) (blit ''c hs traffic'') th = Inr (ts_client_hs s)"
      "derive_secret P (hkdf_extract P d0 sk) (blit ''s hs traffic'') th = Inr (ts_server_hs s)"
      "derive_secret P (hkdf_extract P d1 []) (blit ''c ap traffic'') th = Inr (ts_client_app s)"
      "derive_secret P (hkdf_extract P d1 []) (blit ''s ap traffic'') th = Inr (ts_server_app s)"
      "derive_secret P (hkdf_extract P d1 []) (blit ''exp master'') th = Inr (ts_exporter s)"
    using assms unfolding derive_traffic_secrets_Inr by blast
  note e = d [unfolded derive_secret_Inr]
  from e(1) obtain i1 where 1: "hkdf_label (blit ''c hs traffic'') th 64 = Inr i1"
    "c_hkdf_expand P 64 i1 (hkdf_extract P d0 sk) = Inr (ts_client_hs s)" by blast
  from e(2) obtain i2 where 2: "hkdf_label (blit ''s hs traffic'') th 64 = Inr i2"
    "c_hkdf_expand P 64 i2 (hkdf_extract P d0 sk) = Inr (ts_server_hs s)" by blast
  from e(3) obtain i3 where 3: "hkdf_label (blit ''c ap traffic'') th 64 = Inr i3"
    "c_hkdf_expand P 64 i3 (hkdf_extract P d1 []) = Inr (ts_client_app s)" by blast
  from e(4) obtain i4 where 4: "hkdf_label (blit ''s ap traffic'') th 64 = Inr i4"
    "c_hkdf_expand P 64 i4 (hkdf_extract P d1 []) = Inr (ts_server_app s)" by blast
  from e(5) obtain i5 where 5: "hkdf_label (blit ''exp master'') th 64 = Inr i5"
    "c_hkdf_expand P 64 i5 (hkdf_extract P d1 []) = Inr (ts_exporter s)" by blast
  show ?thesis
    by (intro exI conjI) (rule 1 2 3 4 5)+
qed

lemma schedule_total:
  assumes "hkdf_expand_ok P" and "sha512_ok P" and "length th = 64"
  shows "\<exists>s. derive_traffic_secrets P sk th = Inr s \<and> length (ts_client_hs s) = 64 \<and>
    length (ts_server_hs s) = 64 \<and> length (ts_client_app s) = 64 \<and> length (ts_server_app s) = 64 \<and>
    length (ts_exporter s) = 64"
proof -
  have ds: "\<exists>x. derive_secret P k (blit l) t = Inr x \<and> length x = 64"
    if "length l \<le> 249" "length t = 64" for k l t
    using derive_secret_total [OF assms(1), of "blit l" t k] that by simp
  have h: "length (hash_bytes P [[]]) = 64"
    using assms(2) by (simp add: hash_bytes_def sha512_okD)
  show ?thesis
    unfolding derive_traffic_secrets_def Let_def
    by (rule bindE_total [OF ds], simp_all add: h assms(3))+
qed

section \<open>Properties\<close>

text \<open>
  C25: the transcript is bound: two different sequences of labelled messages never have the same
  transcript digest, unless SHA-512 collides on the two encodings.  Changing, dropping, adding or
  reordering any message therefore changes the digest.
\<close>

theorem transcript_binding:
  assumes "transcript_of es transcript_new = Inr t1"
    and "transcript_of fs transcript_new = Inr t2"
    and "inj_on (c_sha512 P) {concat (tr_parts t1), concat (tr_parts t2)}"
    and "es \<noteq> fs"
  shows "transcript_digest P t1 \<noteq> transcript_digest P t2"
  using transcript_of_inject [OF assms(1,2)] assms(3,4)
  by (auto simp: transcript_digest_def hash_bytes_def inj_on_def)

theorem transcript_binding_witness:
  "\<exists>t1 t2. transcript_of [(lit ''a'', [1]), (lit ''b'', [2])] transcript_new = Inr t1 \<and>
     transcript_of [(lit ''b'', [2]), (lit ''a'', [1])] transcript_new = Inr t2 \<and>
     transcript_digest sample t1 \<noteq> transcript_digest sample t2"
proof -
  let ?t1 = "\<lparr>tr_parts = [[0, 1, 97], [0, 0, 0, 1, 1], [0, 1, 98], [0, 0, 0, 1, 2]]\<rparr>"
  let ?t2 = "\<lparr>tr_parts = [[0, 1, 98], [0, 0, 0, 1, 2], [0, 1, 97], [0, 0, 0, 1, 1]]\<rparr>"
  have t1: "transcript_of [(lit ''a'', [1]), (lit ''b'', [2])] transcript_new = Inr ?t1"
    by (simp add: transcript_add_def transcript_new_def utf8_char_def eval_simps)
  have t2: "transcript_of [(lit ''b'', [2]), (lit ''a'', [1])] transcript_new = Inr ?t2"
    by (simp add: transcript_add_def transcript_new_def utf8_char_def eval_simps)
  have i: "inj_on (c_sha512 sample) {concat (tr_parts ?t1), concat (tr_parts ?t2)}"
    by (simp add: inj_on_def fit_def)
  have "transcript_digest sample ?t1 \<noteq> transcript_digest sample ?t2"
    by (rule transcript_binding [OF t1 t2 i]) simp
  with t1 t2 show ?thesis by blast
qed

text \<open>
  The four traffic secrets and the exporter are the outputs of HKDF-Expand on pairwise
  different info strings, each ending in the transcript hash the secrets are bound to; handshake
  and application secrets use two different keys of the schedule.
\<close>

theorem key_schedule_separated:
  assumes "derive_traffic_secrets P sk th = Inr s"
  shows "\<exists>hs ms i1 i2 i3 i4 i5.
    distinct [i1, i2, i3, i4, i5] \<and> list_all (\<lambda>i. \<exists>pre. i = pre @ th) [i1, i2, i3, i4, i5] \<and>
    c_hkdf_expand P 64 i1 hs = Inr (ts_client_hs s) \<and> c_hkdf_expand P 64 i2 hs = Inr (ts_server_hs s) \<and>
    c_hkdf_expand P 64 i3 ms = Inr (ts_client_app s) \<and> c_hkdf_expand P 64 i4 ms = Inr (ts_server_app s) \<and>
    c_hkdf_expand P 64 i5 ms = Inr (ts_exporter s)"
proof -
  from schedule_infos [OF assms] obtain hs ms i1 i2 i3 i4 i5 where l:
      "hkdf_label (blit ''c hs traffic'') th 64 = Inr i1" "hkdf_label (blit ''s hs traffic'') th 64 = Inr i2"
      "hkdf_label (blit ''c ap traffic'') th 64 = Inr i3" "hkdf_label (blit ''s ap traffic'') th 64 = Inr i4"
      "hkdf_label (blit ''exp master'') th 64 = Inr i5"
    and e: "c_hkdf_expand P 64 i1 hs = Inr (ts_client_hs s)" "c_hkdf_expand P 64 i2 hs = Inr (ts_server_hs s)"
      "c_hkdf_expand P 64 i3 ms = Inr (ts_client_app s)" "c_hkdf_expand P 64 i4 ms = Inr (ts_server_app s)"
      "c_hkdf_expand P 64 i5 ms = Inr (ts_exporter s)"
    by (elim exE conjE)
  have "list_all (\<lambda>i. \<exists>pre. i = pre @ th) [i1, i2, i3, i4, i5]"
    using l [THEN hkdf_label_suffix] by simp
  with hkdf_labels_distinct [OF l] e show ?thesis
    by (intro exI conjI)
qed

theorem key_schedule_separated_witness:
  "\<exists>s hs i1 i2. derive_traffic_secrets sample (replicate 64 1) (replicate 64 0) = Inr s \<and> i1 \<noteq> i2 \<and>
     c_hkdf_expand sample 64 i1 hs = Inr (ts_client_hs s) \<and>
     c_hkdf_expand sample 64 i2 hs = Inr (ts_server_hs s)"
proof -
  obtain s where "derive_traffic_secrets sample (replicate 64 1) (replicate 64 0) = Inr s"
    using schedule_total [of sample "replicate 64 0" "replicate 64 1"] by auto
  from key_schedule_separated [OF this] this show ?thesis by auto blast
qed

text \<open>
  With a 64-byte transcript hash the key schedule never raises, and every secret it returns
  has 64 bytes, whatever the OPAQUE session key is.
\<close>

theorem key_schedule_total:
  assumes "hkdf_expand_ok P" and "sha512_ok P" and "length th = 64"
  shows "\<exists>s. derive_traffic_secrets P sk th = Inr s \<and>
    map length [ts_client_hs s, ts_server_hs s, ts_client_app s, ts_server_app s, ts_exporter s] =
      [64, 64, 64, 64, 64]"
  using schedule_total [OF assms] by simp

theorem key_schedule_total_witness:
  "\<exists>s. derive_traffic_secrets sample [7] (replicate 64 0) = Inr s \<and> length (ts_exporter s) = 64"
  using key_schedule_total [of sample "replicate 64 0" "[7]"] by auto

end
