(* ===== verification/Record_Layer.thy ===== *)
theory Record_Layer
  imports Prelude Primitives Sample_Primitives Kdf
begin

text \<open>
  Record protection (\<open>record.py\<close>): the one-directional \<open>DirectionState\<close>, its TLS 1.3 nonce and
  associated data, and the sequence-numbered \<open>encrypt\<close> and \<open>decrypt\<close>.  The lemmas show the nonce of
  a record injective in its sequence number, the sender and receiver states synchronised, and the
  receiver an in-order channel: a locale that says which deliveries such a receiver can accept.
\<close>

unbundle bit_operations_syntax

section \<open>Constants and state\<close>

definition KEY_LEN :: int where [simp]: "KEY_LEN = 32"
definition IV_LEN :: int where [simp]: "IV_LEN = 12"
definition TAG_LEN :: nat where [simp]: "TAG_LEN = 16"

definition CT_APP_DATA :: int where [simp]: "CT_APP_DATA = 23"

record direction_state =
  ds_traffic_secret :: bytes
  ds_seq :: int
  ds_key :: bytes
  ds_iv :: bytes
  ds_aead :: bytes

section \<open>Operations\<close>

text \<open>\<open>DirectionState(secret)\<close>: the dataclass constructor and its \<open>__post_init__\<close>.\<close>

definition direction_new :: "prims \<Rightarrow> bytes \<Rightarrow> direction_state res" where
  "direction_new P secret =
     bindE (hkdf_expand_label P secret (blit ''key'') [] KEY_LEN) (\<lambda>key.
     bindE (hkdf_expand_label P secret (blit ''iv'') [] IV_LEN) (\<lambda>iv.
     bindE (chacha_new P key) (\<lambda>aead.
       Inr \<lparr>ds_traffic_secret = secret, ds_seq = 0, ds_key = key, ds_iv = iv, ds_aead = aead\<rparr>)))"

definition record_nonce :: "direction_state \<Rightarrow> int \<Rightarrow> bytes res" where
  "record_nonce st seq =
     bindE (int_to_bytes 4 0) (\<lambda>z. bindE (int_to_bytes 8 seq) (\<lambda>q.
       Inr (map (\<lambda>(a, b). a XOR b) (zip (ds_iv st) (z @ q)))))"

definition record_aad :: "int \<Rightarrow> int \<Rightarrow> int \<Rightarrow> bytes res" where
  "record_aad content_type seq wire_len =
     bindE (bytes_of_ints [content_type]) (\<lambda>t. bindE (int_to_bytes 8 seq) (\<lambda>q.
     bindE (int_to_bytes 4 wire_len) (\<lambda>l. Inr (t @ q @ l))))"

text \<open>\<open>encrypt\<close> has already incremented \<open>seq\<close> when one of its later steps raises.\<close>

definition record_encrypt ::
  "prims \<Rightarrow> int \<Rightarrow> bytes \<Rightarrow> direction_state \<Rightarrow> (int \<times> bytes) res \<times> direction_state" where
  "record_encrypt P content_type plaintext st =
     (let seq = ds_seq st;
          st' = st\<lparr>ds_seq := ds_seq st + 1\<rparr>;
          wire_len = int (length plaintext + TAG_LEN) in
      (bindE (record_aad content_type seq wire_len) (\<lambda>aad.
       bindE (record_nonce st' seq) (\<lambda>nonce.
       bindE (chacha_encrypt P (ds_aead st') nonce plaintext aad) (\<lambda>ciphertext.
         Inr (seq, ciphertext)))), st'))"

definition bad_seq_msg :: "int \<Rightarrow> int \<Rightarrow> pystr" where
  "bad_seq_msg expected got =
     lit ''Unexpected record sequence number: expected '' @ int_str expected @ lit '', got '' @ int_str got"

definition record_decrypt ::
  "prims \<Rightarrow> int \<Rightarrow> int \<Rightarrow> bytes \<Rightarrow> direction_state \<Rightarrow> bytes res \<times> direction_state" where
  "record_decrypt P content_type seq ciphertext st =
     (if seq \<noteq> ds_seq st then (Inl (PyError ValueError (bad_seq_msg (ds_seq st) seq)), st)
      else (case bindE (record_aad content_type seq (int (length ciphertext))) (\<lambda>aad.
                 bindE (record_nonce st seq) (\<lambda>nonce.
                   chacha_decrypt P (ds_aead st) nonce ciphertext aad)) of
              Inl e \<Rightarrow> (Inl e, st)
            | Inr plaintext \<Rightarrow> (Inr plaintext, st\<lparr>ds_seq := ds_seq st + 1\<rparr>)))"

section \<open>Sequences of records\<close>

text \<open>Sending a list of payloads; \<open>None\<close> when a send raises.\<close>

fun send_records :: "prims \<Rightarrow> int \<Rightarrow> bytes list \<Rightarrow> direction_state \<Rightarrow>
    ((int \<times> bytes) list \<times> direction_state) option" where
  "send_records P ct [] st = Some ([], st)"
| "send_records P ct (p # ps) st =
     (case record_encrypt P ct p st of
        (Inl e, _) \<Rightarrow> None
      | (Inr r, st') \<Rightarrow> map_option (\<lambda>(rs, st''). (r # rs, st'')) (send_records P ct ps st'))"

text \<open>What a receiver accepts of a list of deliveries, each with the payload it opened to.\<close>

fun accepted :: "(int \<Rightarrow> bytes \<Rightarrow> 's \<Rightarrow> 'p res \<times> 's) \<Rightarrow> (int \<times> bytes) list \<Rightarrow> 's \<Rightarrow>
    ((int \<times> bytes) \<times> 'p) list \<times> 's" where
  "accepted op [] s = ([], s)"
| "accepted op (d # ds) s =
     (case op (fst d) (snd d) s of
        (Inl e, s') \<Rightarrow> accepted op ds s'
      | (Inr p, s') \<Rightarrow> (case accepted op ds s' of (as, s'') \<Rightarrow> ((d, p) # as, s'')))"

section \<open>In-order receivers\<close>

text \<open>
  The contract of a sequence-numbered receiver: a delivery with another number than the expected
  one fails, a failure changes nothing, a success advances the expected number by one.
\<close>

locale in_order_receiver =
  fixes expected :: "'s \<Rightarrow> int"
    and op :: "int \<Rightarrow> bytes \<Rightarrow> 's \<Rightarrow> 'p res \<times> 's"
  assumes wrong_number: "q \<noteq> expected s \<Longrightarrow> \<exists>e. op q c s = (Inl e, s)"
    and failure_keeps: "op q c s = (Inl e, s') \<Longrightarrow> s' = s"
    and success_advances: "op q c s = (Inr p, s') \<Longrightarrow> expected s' = expected s + 1"
begin

lemma success_number: "op q c s = (Inr p, s') \<Longrightarrow> q = expected s"
  using wrong_number [of q s c] by auto

text \<open>The accepted deliveries carry consecutive numbers from the expected one on.\<close>

lemma accepted_numbers:
  "map (\<lambda>a. fst (fst a)) (fst (accepted op ds s)) =
     map (\<lambda>i. expected s + int i) [0..<length (fst (accepted op ds s))] \<and>
   expected (snd (accepted op ds s)) = expected s + int (length (fst (accepted op ds s)))"
proof (induction ds arbitrary: s)
  case (Cons d ds)
  obtain r s' where r: "op (fst d) (snd d) s = (r, s')" by fastforce
  obtain as s'' where as: "accepted op ds s' = (as, s'')" by fastforce
  show ?case
  proof (cases r)
    case (Inl e)
    then have "s' = s" using r failure_keeps by simp
    then show ?thesis using r as Inl Cons.IH [of s'] by simp
  next
    case (Inr p)
    have n: "fst d = expected s" "expected s' = expected s + 1"
      using r Inr success_number success_advances by auto
    have "map (\<lambda>i. expected s + int i) [0..<Suc k] =
      expected s # map (\<lambda>i. expected s' + int i) [0..<k]" for k
      by (simp add: n map_upt_Suc algebra_simps del: upt.simps)
    then show ?thesis
      using r as Inr Cons.IH [of s'] n by (simp del: upt.simps)
  qed
qed simp

lemma expected_mono: "expected s \<le> expected (snd (accepted op ds s))"
  using accepted_numbers [of ds s] by simp

text \<open>A number below the expected one is never accepted again: no replay.\<close>

lemma no_replay:
  "q < expected s \<Longrightarrow> \<exists>e. op q c (snd (accepted op ds s)) = (Inl e, snd (accepted op ds s))"
  using expected_mono [of s ds] wrong_number [of q "snd (accepted op ds s)" c] by simp

lemma accepted_delivered: "fst ` set (fst (accepted op ds s)) \<subseteq> set ds"
proof (induction ds arbitrary: s)
  case (Cons d ds)
  obtain r s' where r: "op (fst d) (snd d) s = (r, s')" by fastforce
  obtain as s'' where as: "accepted op ds s' = (as, s'')" by fastforce
  show ?case using Cons.IH [of s'] r as by (auto split: sum.splits)
qed simp

end

section \<open>Nonces\<close>

lemma record_nonce_Inr:
  "record_nonce st q = Inr n \<longleftrightarrow> 0 \<le> q \<and> nat q < 256 ^ 8 \<and>
     n = map (\<lambda>(a, b). a XOR b) (zip (ds_iv st) (be_enc 4 0 @ be_enc 8 (nat q)))"
  by (auto simp: record_nonce_def bindE_eq_Inr int_to_bytes_Inr)

lemma map_xor_inject:
  "length xs = length ks \<Longrightarrow> length ys = length ks \<Longrightarrow>
    map (\<lambda>(a, b). a XOR b) (zip ks xs) = map (\<lambda>(a, b). a XOR b) (zip ks ys) \<Longrightarrow> xs = (ys :: bytes)"
proof (induction ks arbitrary: xs ys)
  case (Cons k ks)
  then obtain x xs' y ys' where "xs = x # xs'" "ys = y # ys'" by (metis length_Suc_conv)
  moreover have "x = y" if "k XOR x = k XOR y" for x y :: byte
    using arg_cong [OF that, of "\<lambda>z. k XOR z"] unfolding xor.assoc [symmetric] by simp
  ultimately show ?case using Cons by simp
qed simp

lemma record_nonce_inject:
  assumes "length (ds_iv st) = 12" and "record_nonce st q = Inr n" and "record_nonce st q' = Inr n"
  shows "q = q'"
proof -
  from assms have q: "0 \<le> q" "nat q < 256 ^ 8" "0 \<le> q'" "nat q' < 256 ^ 8"
    and e: "map (\<lambda>(a, b). a XOR b) (zip (ds_iv st) (be_enc 4 0 @ be_enc 8 (nat q))) =
      map (\<lambda>(a, b). a XOR b) (zip (ds_iv st) (be_enc 4 0 @ be_enc 8 (nat q')))"
    unfolding record_nonce_Inr by (blast, blast, blast, blast, metis)
  have "be_enc 4 0 @ be_enc 8 (nat q) = be_enc 4 0 @ be_enc 8 (nat q')"
    by (rule map_xor_inject [OF _ _ e]) (simp_all add: assms(1))
  then have "be_enc 8 (nat q) = be_enc 8 (nat q')"
    by (simp only: append_same_length_inject length_be_enc)
  then have "nat q = nat q'"
    using be_enc_inject [OF q(2,4)] by blast
  with q(1,3) show ?thesis by simp
qed

section \<open>One record\<close>

lemma record_nonce_seq [simp]: "record_nonce (st\<lparr>ds_seq := x\<rparr>) q = record_nonce st q"
  by (simp add: record_nonce_def)

lemma record_aad_Inr:
  "record_aad ct q n = Inr a \<longleftrightarrow> 0 \<le> ct \<and> ct < 256 \<and> 0 \<le> q \<and> nat q < 256 ^ 8 \<and> 0 \<le> n \<and> nat n < 256 ^ 4 \<and>
     a = [word_of_int ct] @ be_enc 8 (nat q) @ be_enc 4 (nat n)"
  by (auto simp: record_aad_def bindE_eq_Inr int_to_bytes_Inr byte_of_int_Inr)

lemma record_aad_length: "record_aad ct q n = Inr a \<Longrightarrow> length a = 13"
  unfolding record_aad_Inr by simp

lemma record_encrypt_Inr:
  "record_encrypt P ct p st = (Inr (q, c), st') \<longleftrightarrow> q = ds_seq st \<and> st' = st\<lparr>ds_seq := ds_seq st + 1\<rparr> \<and>
     (\<exists>a n. record_aad ct q (int (length p) + 16) = Inr a \<and> record_nonce st q = Inr n \<and>
        chacha_encrypt P (ds_aead st) n p a = Inr c)"
  by (auto simp: record_encrypt_def Let_def bindE_eq_Inr)

lemma record_decrypt_Inr:
  "record_decrypt P ct q c st = (Inr p, st') \<longleftrightarrow> q = ds_seq st \<and> st' = st\<lparr>ds_seq := ds_seq st + 1\<rparr> \<and>
     (\<exists>a n. record_aad ct q (int (length c)) = Inr a \<and> record_nonce st q = Inr n \<and>
        chacha_decrypt P (ds_aead st) n c a = Inr p)"
  by (auto simp: record_decrypt_def bindE_eq_Inr split: sum.splits)

lemma record_decrypt_wrong:
  "q \<noteq> ds_seq st \<Longrightarrow>
    record_decrypt P ct q c st = (Inl (PyError ValueError (bad_seq_msg (ds_seq st) q)), st)"
  by (simp add: record_decrypt_def)

text \<open>\<open>decrypt\<close> meets the contract of an in-order receiver.\<close>

interpretation rx: in_order_receiver ds_seq "record_decrypt P ct" for P ct
  by unfold_locales (auto simp: record_decrypt_def split: if_splits sum.splits)

lemma decrypt_encrypt:
  assumes "chacha_ok P" and "length p < 2 ^ 31" and "record_encrypt P ct p st = (Inr (q, c), st')"
  shows "record_decrypt P ct q c st = (Inr p, st')"
proof -
  from assms(3) obtain a n where q: "q = ds_seq st" "st' = st\<lparr>ds_seq := ds_seq st + 1\<rparr>"
    and a: "record_aad ct q (int (length p) + 16) = Inr a" and n: "record_nonce st q = Inr n"
    and c: "chacha_encrypt P (ds_aead st) n p a = Inr c"
    by (auto simp: record_encrypt_Inr)
  from chacha_okD(2) [OF assms(1,2), of a "ds_aead st" n] record_aad_length [OF a] c
  have "length c = length p + 16" "chacha_decrypt P (ds_aead st) n c a = Inr p"
    by auto
  with q a n show ?thesis unfolding record_decrypt_Inr by auto
qed

lemma encrypt_total:
  assumes "chacha_ok P" and "0 \<le> ct" and "ct < 256" and "0 \<le> ds_seq st" and "ds_seq st < 2 ^ 64"
    and "length p < 2 ^ 31"
  shows "\<exists>c. record_encrypt P ct p st = (Inr (ds_seq st, c), st\<lparr>ds_seq := ds_seq st + 1\<rparr>)"
proof -
  have "nat (ds_seq st) < 256 ^ 8" "nat (int (length p) + 16) < 256 ^ 4"
    using assms(4-6) by auto
  then obtain a n where a: "record_aad ct (ds_seq st) (int (length p) + 16) = Inr a"
    and n: "record_nonce st (ds_seq st) = Inr n"
    using assms(2-4) by (simp add: record_aad_Inr record_nonce_Inr)
  have "length a < 2 ^ 31" using record_aad_length [OF a] by simp
  from chacha_okD(2) [OF assms(1,6) this, of "ds_aead st" n] a n show ?thesis
    unfolding record_encrypt_Inr by blast
qed

lemma expand_label_total:
  assumes "hkdf_expand_ok P" and "length l \<le> 249" and "length c \<le> 255" and "0 \<le> n" and "n \<le> 16320"
  shows "\<exists>x. hkdf_expand_label P s l c n = Inr x \<and> length x = nat n"
proof -
  obtain i where "hkdf_label l c n = Inr i"
    using assms(2-5) by (simp add: hkdf_label_Inr)
  with hkdf_expand_okD [OF assms(1,4,5), of i s] show ?thesis
    by (auto simp: hkdf_expand_label_def)
qed

lemma direction_new_ok:
  assumes "hkdf_expand_ok P" and "chacha_ok P"
  shows "\<exists>st. direction_new P secret = Inr st \<and> ds_seq st = 0 \<and> ds_traffic_secret st = secret \<and>
    length (ds_key st) = 32 \<and> length (ds_iv st) = 12 \<and> ds_aead st = ds_key st"
proof -
  obtain k iv where "hkdf_expand_label P secret (blit ''key'') [] 32 = Inr k" "length k = 32"
    "hkdf_expand_label P secret (blit ''iv'') [] 12 = Inr iv" "length iv = 12"
    using expand_label_total [OF assms(1), of "blit ''key''" "[]" 32 secret]
      expand_label_total [OF assms(1), of "blit ''iv''" "[]" 12 secret] by auto
  with chacha_okD(1) [OF assms(2)] show ?thesis
    by (simp add: direction_new_def)
qed

section \<open>Sent sequences\<close>

lemma send_records_Cons:
  "send_records P ct (p # ps) st = Some (rs, st') \<longleftrightarrow> (\<exists>c rs'.
     record_encrypt P ct p st = (Inr (ds_seq st, c), st\<lparr>ds_seq := ds_seq st + 1\<rparr>) \<and>
     send_records P ct ps (st\<lparr>ds_seq := ds_seq st + 1\<rparr>) = Some (rs', st') \<and> rs = (ds_seq st, c) # rs')"
  by (cases "record_encrypt P ct p st")
     (auto split: sum.splits prod.splits simp: record_encrypt_Inr)

lemma send_records_numbers:
  "send_records P ct ps st = Some (rs, st') \<Longrightarrow>
    length rs = length ps \<and> st' = st\<lparr>ds_seq := ds_seq st + int (length ps)\<rparr> \<and>
    (\<forall>i < length ps. \<exists>c. rs ! i = (ds_seq st + int i, c) \<and>
       fst (record_encrypt P ct (ps ! i) (st\<lparr>ds_seq := ds_seq st + int i\<rparr>)) = Inr (ds_seq st + int i, c))"
proof (induction ps arbitrary: st rs)
  case Nil
  then show ?case by simp
next
  case (Cons p ps)
  let ?st = "st\<lparr>ds_seq := ds_seq st + 1\<rparr>"
  from Cons.prems obtain c rs' where e: "record_encrypt P ct p st = (Inr (ds_seq st, c), ?st)"
    and r: "send_records P ct ps ?st = Some (rs', st')" and rs: "rs = (ds_seq st, c) # rs'"
    unfolding send_records_Cons by blast
  note ih = Cons.IH [OF r]
  have "\<exists>c. rs ! i = (ds_seq st + int i, c) \<and>
      fst (record_encrypt P ct ((p # ps) ! i) (st\<lparr>ds_seq := ds_seq st + int i\<rparr>)) = Inr (ds_seq st + int i, c)"
    if "i < length (p # ps)" for i
  proof (cases i)
    case 0
    then show ?thesis using e rs by simp
  next
    case (Suc j)
    then show ?thesis using ih that rs by (simp add: add.assoc)
  qed
  with ih rs show ?case by (simp add: add.commute add.left_commute)
qed

lemma send_records_total:
  assumes "chacha_ok P" and "0 \<le> ct" and "ct < 256"
  shows "0 \<le> ds_seq st \<Longrightarrow> ds_seq st + int (length ps) \<le> 2 ^ 64 \<Longrightarrow> \<forall>p \<in> set ps. length p < 2 ^ 31 \<Longrightarrow>
    \<exists>rs st'. send_records P ct ps st = Some (rs, st')"
proof (induction ps arbitrary: st)
  case (Cons p ps)
  then have "ds_seq st < 2 ^ 64" "length p < 2 ^ 31" by auto
  from encrypt_total [OF assms Cons.prems(1) this] obtain c where
    "record_encrypt P ct p st = (Inr (ds_seq st, c), st\<lparr>ds_seq := ds_seq st + 1\<rparr>)" by blast
  moreover have "\<exists>rs st'. send_records P ct ps (st\<lparr>ds_seq := ds_seq st + 1\<rparr>) = Some (rs, st')"
    using Cons.prems by (intro Cons.IH) auto
  ultimately show ?case by (simp only: send_records_Cons) blast
qed simp

lemma accepted_sent:
  assumes "chacha_ok P"
  shows "send_records P ct ps st = Some (rs, st') \<Longrightarrow> \<forall>p \<in> set ps. length p < 2 ^ 31 \<Longrightarrow>
    accepted (record_decrypt P ct) rs st = (zip rs ps, st')"
proof (induction ps arbitrary: st rs)
  case (Cons p ps)
  let ?st = "st\<lparr>ds_seq := ds_seq st + 1\<rparr>"
  from Cons.prems(1) obtain c rs' where e: "record_encrypt P ct p st = (Inr (ds_seq st, c), ?st)"
    and r: "send_records P ct ps ?st = Some (rs', st')" and rs: "rs = (ds_seq st, c) # rs'"
    unfolding send_records_Cons by blast
  have "record_decrypt P ct (ds_seq st) c st = (Inr p, ?st)"
    using Cons.prems(2) by (intro decrypt_encrypt [OF assms _ e]) simp
  with Cons.IH [OF r] Cons.prems(2) rs show ?case by simp
qed simp

section \<open>An adversary on the wire\<close>

text \<open>
  Ciphertext integrity for one set of deliveries: a delivered record that the AEAD opens, under the
  channel's key and the nonce and associated data of its number, is one the sender made.
\<close>

definition only_genuine ::
  "prims \<Rightarrow> int \<Rightarrow> direction_state \<Rightarrow> (int \<times> bytes) list \<Rightarrow> (int \<times> bytes) list \<Rightarrow> bool" where
  "only_genuine P ct st rs ds \<longleftrightarrow> (\<forall>(q, c) \<in> set ds. \<forall>n a p.
     record_nonce st q = Inr n \<longrightarrow> record_aad ct q (int (length c)) = Inr a \<longrightarrow>
     chacha_decrypt P (ds_aead st) n c a = Inr p \<longrightarrow> (q, c) \<in> set rs)"

lemma genuine_delivery:
  assumes "chacha_ok P" and "\<forall>p \<in> set ps. length p < 2 ^ 31"
    and "only_genuine P ct st rs ds" and "(q, c) \<in> set ds"
    and "send_records P ct ps st = Some (rs, st2)"
    and "record_decrypt P ct q c (st\<lparr>ds_seq := ds_seq st + int k\<rparr>) = (Inr p, st')"
  shows "k < length ps \<and> rs ! k = (q, c) \<and> ps ! k = p"
proof -
  from assms(6) obtain a n where q: "q = ds_seq st + int k" and n: "record_nonce st q = Inr n"
    and a: "record_aad ct q (int (length c)) = Inr a"
    and d: "chacha_decrypt P (ds_aead st) n c a = Inr p"
    by (auto simp: record_decrypt_Inr)
  from assms(3,4) n a d have "(q, c) \<in> set rs"
    unfolding only_genuine_def by fastforce
  then obtain i where i: "i < length rs" "rs ! i = (q, c)" by (meson in_set_conv_nth)
  with send_records_numbers [OF assms(5)] q have k: "i = k" "k < length ps"
    and e: "fst (record_encrypt P ct (ps ! k) (st\<lparr>ds_seq := q\<rparr>)) = Inr (q, c)"
    by auto
  from e have "record_encrypt P ct (ps ! k) (st\<lparr>ds_seq := q\<rparr>) =
      (Inr (q, c), snd (record_encrypt P ct (ps ! k) (st\<lparr>ds_seq := q\<rparr>)))"
    by (metis prod.collapse)
  from decrypt_encrypt [OF assms(1) _ this] assms(2,6) k(2) q have "ps ! k = p" by auto
  with i k show ?thesis by simp
qed

lemma accepted_prefix_from:
  assumes "chacha_ok P" and "\<forall>p \<in> set ps. length p < 2 ^ 31"
    and "send_records P ct ps st = Some (rs, st2)"
  shows "only_genuine P ct st rs ds \<Longrightarrow>
    \<exists>m. fst (accepted (record_decrypt P ct) ds (st\<lparr>ds_seq := ds_seq st + int k\<rparr>)) =
      take m (drop k (zip rs ps))"
proof (induction ds arbitrary: k)
  case Nil
  show ?case by (auto intro: exI [of _ 0])
next
  case (Cons d ds)
  let ?st = "st\<lparr>ds_seq := ds_seq st + int k\<rparr>"
  have g: "only_genuine P ct st rs ds" using Cons.prems by (simp add: only_genuine_def)
  obtain r s' where r: "record_decrypt P ct (fst d) (snd d) ?st = (r, s')" by fastforce
  show ?case
  proof (cases r)
    case (Inl e)
    then have "s' = ?st" using r rx.failure_keeps by blast
    with Cons.IH [OF g, of k] r Inl show ?thesis by simp
  next
    case (Inr p)
    have s': "s' = st\<lparr>ds_seq := ds_seq st + int (Suc k)\<rparr>"
      using r Inr by (simp add: record_decrypt_Inr add.commute add.left_commute)
    have "k < length ps \<and> rs ! k = (fst d, snd d) \<and> ps ! k = p"
      using r Inr by (intro genuine_delivery [OF assms(1,2) Cons.prems _ assms(3)]) auto
    then have k: "k < length (zip rs ps)" "zip rs ps ! k = (d, p)"
      using send_records_numbers [OF assms(3)] by auto
    from Cons.IH [OF g, of "Suc k"] obtain m where
      m: "fst (accepted (record_decrypt P ct) ds s') = take m (drop (Suc k) (zip rs ps))"
      unfolding s' by blast
    have "(d, p) # take m (drop (Suc k) (zip rs ps)) = take (Suc m) (drop k (zip rs ps))"
      using Cons_nth_drop_Suc [OF k(1)] k(2) by (metis take_Suc_Cons)
    with r Inr m show ?thesis by (auto split: prod.splits)
  qed
qed

section \<open>Properties\<close>


definition sample_state :: direction_state where
  "sample_state = \<lparr>ds_traffic_secret = [1], ds_seq = 0, ds_key = replicate 32 7,
     ds_iv = replicate 12 3, ds_aead = replicate 32 7\<rparr>"


text \<open>
  C12: an adversary who reorders, replays, drops and injects records cannot make the receiver accept
  anything but a prefix of what the sender sent, in order and unmodified, as long as the AEAD opens
  no delivered ciphertext that the sender did not make.
\<close>

theorem record_adversary_prefix:
  assumes "chacha_ok P" and "\<forall>p \<in> set ps. length p < 2 ^ 31"
    and "send_records P ct ps st = Some (rs, st2)" and "only_genuine P ct st rs ds"
  shows "\<exists>m. fst (accepted (record_decrypt P ct) ds st) = take m (zip rs ps)"
  using accepted_prefix_from [OF assms, of 0] by simp

theorem record_adversary_prefix_witness:
  "\<exists>rs st2 m. send_records sample CT_APP_DATA [[1, 2], [3]] sample_state = Some (rs, st2) \<and>
     fst (accepted (record_decrypt sample CT_APP_DATA) [rs ! 1, (0, [9]), rs ! 0, rs ! 0] sample_state) =
       take m (zip rs [[1, 2], [3]])"
proof -
  obtain rs st2 where s: "send_records sample CT_APP_DATA [[1, 2], [3]] sample_state = Some (rs, st2)"
    using send_records_total [of sample CT_APP_DATA sample_state "[[1, 2], [3]]"]
    by (auto simp: sample_state_def)
  then have "rs ! 0 \<in> set rs" "rs ! 1 \<in> set rs"
    using send_records_numbers [OF s] by auto
  then have "only_genuine sample CT_APP_DATA sample_state rs [rs ! 1, (0, [9]), rs ! 0, rs ! 0]"
    by (auto simp: only_genuine_def sample_open_def)
  then have "\<exists>m. fst (accepted (record_decrypt sample CT_APP_DATA) [rs ! 1, (0, [9]), rs ! 0, rs ! 0] sample_state) =
       take m (zip rs [[1, 2], [3]])"
    by (intro record_adversary_prefix [OF _ _ s]) simp_all
  with s show ?thesis by blast
qed

text \<open>
  Whatever is delivered, the records a receiver accepts carry consecutive sequence numbers from
  the expected one on; afterwards every lower number is refused with a \<open>ValueError\<close> that leaves the
  state unchanged.
\<close>

theorem record_receiver_in_order:
  "map (\<lambda>a. fst (fst a)) (fst (accepted (record_decrypt P ct) ds st)) =
     map (\<lambda>i. ds_seq st + int i) [0..<length (fst (accepted (record_decrypt P ct) ds st))] \<and>
   (\<forall>q c st'. st' = snd (accepted (record_decrypt P ct) ds st) \<longrightarrow> q < ds_seq st' \<longrightarrow>
      record_decrypt P ct q c st' = (Inl (PyError ValueError (bad_seq_msg (ds_seq st') q)), st'))"
  using rx.accepted_numbers by (auto simp: record_decrypt_wrong)

theorem record_receiver_in_order_witness:
  "record_decrypt sample CT_APP_DATA 0 [5] (sample_state\<lparr>ds_seq := 4\<rparr>) =
     (Inl (PyError ValueError (bad_seq_msg 4 0)), sample_state\<lparr>ds_seq := 4\<rparr>)"
  using record_receiver_in_order [of sample CT_APP_DATA "[]" "sample_state\<lparr>ds_seq := 4\<rparr>"] by auto



text \<open>
  The two ends of a direction start alike: with a working HKDF the constructor never raises,
  and yields sequence number 0, a 32-byte key and a 12-byte IV that depend on the traffic secret only.
\<close>

theorem direction_new_total:
  assumes "hkdf_expand_ok P" and "chacha_ok P"
  shows "\<exists>st. direction_new P secret = Inr st \<and> ds_seq st = 0 \<and> ds_traffic_secret st = secret \<and>
    length (ds_key st) = 32 \<and> length (ds_iv st) = 12 \<and> ds_aead st = ds_key st"
  by (rule direction_new_ok [OF assms])

theorem direction_new_total_witness:
  "\<exists>st. direction_new sample [1, 2, 3] = Inr st \<and> length (ds_iv st) = 12"
  using direction_new_total [of sample "[1, 2, 3]"] by auto

end
