(* ===== verification/Ratelimit.thy ===== *)
theory Ratelimit
  imports Prelude Hex
begin

text \<open>
  The sliding-window rate limiter (\<open>ratelimit.py\<close>).  The clock reading of \<open>allow\<close> is an argument,
  counted in nanoseconds (\<open>time.monotonic\<close>'s resolution, without the rounding of Python's floats),
  because the code reads the clock before it takes the lock: the order of the readings and the order
  of the updates can differ.  A limiter that keeps the whole history of admitted attempts is the
  specification; the code's limiter, which prunes its history, refines it as long as the readings
  do not go back.
\<close>

section \<open>The limiter\<close>

text \<open>Constants of \<open>config.py\<close>.\<close>

definition RATE_LIMIT_WINDOW_S :: int where [simp]: "RATE_LIMIT_WINDOW_S = 60"
definition RATE_LIMIT_MAX_TRIES :: int where [simp]: "RATE_LIMIT_MAX_TRIES = 10"

type_synonym limiter_key = "pystr \<times> pystr"

record rate_limiter =
  rl_window :: int
  rl_max :: int
  rl_history :: "limiter_key \<Rightarrow> int list option"

definition limiter_new :: "int \<Rightarrow> int \<Rightarrow> rate_limiter" where
  "limiter_new window_ns max_tries = \<lparr>rl_window = window_ns, rl_max = max_tries, rl_history = Map.empty\<rparr>"

text \<open>Looking up a missing key of the \<open>defaultdict\<close> yields (and stores) the empty list.\<close>

definition timestamps :: "rate_limiter \<Rightarrow> limiter_key \<Rightarrow> int list" where
  "timestamps rl key = (case rl_history rl key of None \<Rightarrow> [] | Some ts \<Rightarrow> ts)"

definition allow :: "int \<Rightarrow> pystr \<Rightarrow> bytes \<Rightarrow> rate_limiter \<Rightarrow> bool \<times> rate_limiter" where
  "allow now ip credential_id rl =
     (let key = (ip, hex_str credential_id);
          cutoff = now - rl_window rl;
          ts = filter (\<lambda>t. t > cutoff) (timestamps rl key) in
      if int (length ts) \<ge> rl_max rl
      then (False, rl\<lparr>rl_history := (rl_history rl)(key \<mapsto> ts)\<rparr>)
      else (True, rl\<lparr>rl_history := (rl_history rl)(key \<mapsto> ts @ [now])\<rparr>))"

definition reset_limiter :: "pystr \<Rightarrow> bytes \<Rightarrow> rate_limiter \<Rightarrow> rate_limiter" where
  "reset_limiter ip credential_id rl =
     rl\<lparr>rl_history := (rl_history rl)((ip, hex_str credential_id) := None)\<rparr>"

text \<open>The module-level singleton: created on first use, then shared.\<close>

definition get_limiter :: "rate_limiter option \<Rightarrow> rate_limiter" where
  "get_limiter g = (case g of
     None \<Rightarrow> limiter_new (RATE_LIMIT_WINDOW_S * 10 ^ 9) RATE_LIMIT_MAX_TRIES | Some rl \<Rightarrow> rl)"

section \<open>Sequences of calls\<close>

datatype limiter_call = Allow int pystr bytes | Reset pystr bytes

fun call_key :: "limiter_call \<Rightarrow> limiter_key" where
  "call_key (Allow now ip c) = (ip, hex_str c)"
| "call_key (Reset ip c) = (ip, hex_str c)"

fun step_call :: "limiter_call \<Rightarrow> rate_limiter \<Rightarrow> bool \<times> rate_limiter" where
  "step_call (Allow now ip c) rl = allow now ip c rl"
| "step_call (Reset ip c) rl = (True, reset_limiter ip c rl)"

fun run_calls :: "(limiter_call \<Rightarrow> 's \<Rightarrow> bool \<times> 's) \<Rightarrow> limiter_call list \<Rightarrow> 's \<Rightarrow> bool list \<times> 's" where
  "run_calls f [] s = ([], s)"
| "run_calls f (c # cs) s =
     (case f c s of (b, s') \<Rightarrow> (case run_calls f cs s' of (bs, s'') \<Rightarrow> (b # bs, s'')))"

lemma run_calls_Cons:
  "fst (run_calls f (c # cs) s) = fst (f c s) # fst (run_calls f cs (snd (f c s)))"
  by (simp split: prod.splits)

text \<open>The clock readings of the calls never go back, starting from \<open>t0\<close>.\<close>

fun monotone_from :: "int \<Rightarrow> limiter_call list \<Rightarrow> bool" where
  "monotone_from t0 [] = True"
| "monotone_from t0 (Allow now ip c # cs) = (t0 \<le> now \<and> monotone_from now cs)"
| "monotone_from t0 (Reset ip c # cs) = monotone_from t0 cs"

section \<open>Keyed limiters\<close>

text \<open>
  The contract of a limiter that keeps its keys apart: the outcome of a call and the new state of
  its key depend on the state of that key only, and the other keys keep theirs.
\<close>

locale keyed_limiter =
  fixes step :: "limiter_call \<Rightarrow> 's \<Rightarrow> bool \<times> 's" and view :: "'s \<Rightarrow> limiter_key \<Rightarrow> 'v"
  assumes own: "view s (call_key c) = view s' (call_key c) \<Longrightarrow>
      fst (step c s) = fst (step c s') \<and>
      view (snd (step c s)) (call_key c) = view (snd (step c s')) (call_key c)"
    and others: "k \<noteq> call_key c \<Longrightarrow> view (snd (step c s)) k = view s k"
begin

lemma own_calls:
  "view s k = view s' k \<Longrightarrow>
    map fst (filter (\<lambda>(b, c). call_key c = k) (zip (fst (run_calls step cs s)) cs)) =
      fst (run_calls step (filter (\<lambda>c. call_key c = k) cs) s')"
proof (induction cs arbitrary: s s')
  case (Cons c cs)
  obtain b t where t: "step c s = (b, t)" by fastforce
  obtain b' t' where t': "step c s' = (b', t')" by fastforce
  show ?case
  proof (cases "call_key c = k")
    case True
    then have "b = b' \<and> view t k = view t' k" using own [of s c s'] Cons.prems t t' by simp
    then show ?thesis using Cons.IH [of t t'] True t t' by (auto split: prod.splits)
  next
    case False
    then have "view t k = view s' k" using others [of k c s] Cons.prems t by simp
    then show ?thesis using Cons.IH [of t s'] False t by (auto split: prod.splits)
  qed
qed simp

end

section \<open>Specification\<close>

text \<open>
  The specification keeps every admitted attempt since the last reset; an attempt is admitted when
  fewer than the maximum lie within the window that ends now.
\<close>

type_synonym attempt_log = "limiter_key \<Rightarrow> int list"

definition in_window :: "int \<Rightarrow> int \<Rightarrow> int list \<Rightarrow> nat" where
  "in_window w now ts = length (filter (\<lambda>t. now - w < t \<and> t \<le> now) ts)"

fun spec_call :: "int \<Rightarrow> int \<Rightarrow> limiter_call \<Rightarrow> attempt_log \<Rightarrow> bool \<times> attempt_log" where
  "spec_call w m (Allow now ip c) l =
     (let k = (ip, hex_str c) in
      if int (in_window w now (l k)) < m then (True, l(k := l k @ [now])) else (False, l))"
| "spec_call w m (Reset ip c) l = (True, l((ip, hex_str c) := []))"

interpretation spec_limiter: keyed_limiter "spec_call w m" "\<lambda>l. l" for w m
proof
  fix c k and s s' :: attempt_log
  show "s (call_key c) = s' (call_key c) \<Longrightarrow> fst (spec_call w m c s) = fst (spec_call w m c s') \<and>
      snd (spec_call w m c s) (call_key c) = snd (spec_call w m c s') (call_key c)"
    by (cases c) (simp_all add: Let_def)
  show "k \<noteq> call_key c \<Longrightarrow> snd (spec_call w m c s) k = s k"
    by (cases c) (simp_all add: Let_def)
qed

section \<open>Refinement\<close>

text \<open>
  The code's history of a key is the specification's without a part that has left the window for
  good, at the time \<open>t0\<close> of the last reading.
\<close>

definition history_rel :: "int \<Rightarrow> rate_limiter \<Rightarrow> attempt_log \<Rightarrow> bool" where
  "history_rel t0 rl l \<longleftrightarrow> (\<forall>k. (\<forall>t \<in> set (l k). t \<le> t0) \<and>
     (\<exists>cut \<le> t0 - rl_window rl. timestamps rl k = filter (\<lambda>t. t > cut) (l k)))"

lemma timestamps_upd:
  "timestamps (rl\<lparr>rl_history := (rl_history rl)(k \<mapsto> ts)\<rparr>) k' = (if k' = k then ts else timestamps rl k')"
  "timestamps (rl\<lparr>rl_history := (rl_history rl)(k := None)\<rparr>) k' = (if k' = k then [] else timestamps rl k')"
  by (auto simp: timestamps_def)

interpretation limiter: keyed_limiter step_call "\<lambda>rl k. (rl_window rl, rl_max rl, timestamps rl k)"
proof
  fix c k s s'
  show "(rl_window s, rl_max s, timestamps s (call_key c)) = (rl_window s', rl_max s', timestamps s' (call_key c)) \<Longrightarrow>
    fst (step_call c s) = fst (step_call c s') \<and>
    (rl_window (snd (step_call c s)), rl_max (snd (step_call c s)), timestamps (snd (step_call c s)) (call_key c)) =
    (rl_window (snd (step_call c s')), rl_max (snd (step_call c s')), timestamps (snd (step_call c s')) (call_key c))"
    by (cases c) (simp_all add: allow_def reset_limiter_def Let_def timestamps_upd)
  show "k \<noteq> call_key c \<Longrightarrow>
    (rl_window (snd (step_call c s)), rl_max (snd (step_call c s)), timestamps (snd (step_call c s)) k) =
    (rl_window s, rl_max s, timestamps s k)"
    by (cases c) (simp_all add: allow_def reset_limiter_def Let_def timestamps_upd)
qed

lemma history_rel_later: "history_rel t0 rl l \<Longrightarrow> t0 \<le> t1 \<Longrightarrow> history_rel t1 rl l"
  unfolding history_rel_def by (meson diff_right_mono order_trans)

lemma allow_refines:
  assumes "history_rel t0 rl l" and "t0 \<le> now" and "0 < rl_window rl"
  shows "fst (allow now ip c rl) = fst (spec_call (rl_window rl) (rl_max rl) (Allow now ip c) l) \<and>
    history_rel now (snd (allow now ip c rl)) (snd (spec_call (rl_window rl) (rl_max rl) (Allow now ip c) l))"
proof -
  let ?k = "(ip, hex_str c)"
  let ?w = "rl_window rl"
  let ?ts = "filter (\<lambda>t. now - ?w < t) (l ?k)"
  have rel: "history_rel now rl l" by (rule history_rel_later [OF assms(1,2)])
  then have le: "\<forall>t \<in> set (l k). t \<le> now" for k
    unfolding history_rel_def by blast
  obtain cut where cut: "cut \<le> t0 - ?w" "timestamps rl ?k = filter (\<lambda>t. t > cut) (l ?k)"
    using assms(1) unfolding history_rel_def by blast
  have ts: "filter (\<lambda>t. t > now - ?w) (timestamps rl ?k) = ?ts"
    using cut assms(2) by (auto simp: intro!: filter_cong)
  have n: "in_window ?w now (l ?k) = length ?ts"
    unfolding in_window_def using le [of ?k] by (metis (mono_tags, lifting) filter_cong)
  have "filter (\<lambda>t. now - ?w < t) (l ?k @ [now]) = ?ts @ [now]"
    using assms(3) by simp
  moreover have "?ts = filter (\<lambda>t. now - ?w < t) (l ?k)" ..
  ultimately show ?thesis
    using rel le unfolding allow_def Let_def spec_call.simps ts n
    by (auto simp: history_rel_def timestamps_upd intro!: exI [of _ "now - ?w"])
qed

lemma reset_refines:
  "history_rel t0 rl l \<Longrightarrow> history_rel t0 (reset_limiter ip c rl) (snd (spec_call w m (Reset ip c) l))"
  by (auto simp: history_rel_def reset_limiter_def timestamps_upd intro: exI [of _ "t0 - rl_window rl"])

lemma allow_params [simp]:
  "rl_window (snd (allow now ip c rl)) = rl_window rl" "rl_max (snd (allow now ip c rl)) = rl_max rl"
  by (simp_all add: allow_def Let_def)

lemma step_params [simp]:
  "rl_window (snd (step_call c rl)) = rl_window rl" "rl_max (snd (step_call c rl)) = rl_max rl"
  by (cases c; simp add: reset_limiter_def)+

lemma run_refines:
  "history_rel t0 rl l \<Longrightarrow> monotone_from t0 cs \<Longrightarrow> 0 < rl_window rl \<Longrightarrow>
    fst (run_calls step_call cs rl) = fst (run_calls (spec_call (rl_window rl) (rl_max rl)) cs l)"
proof (induction cs arbitrary: t0 rl l)
  case (Cons c cs)
  obtain b rl' where c: "step_call c rl = (b, rl')" by fastforce
  obtain b' l' where s: "spec_call (rl_window rl) (rl_max rl) c l = (b', l')" by fastforce
  have p: "rl_window rl' = rl_window rl" "rl_max rl' = rl_max rl"
    using step_params [of c rl] c by simp_all
  have "\<exists>t1. b = b' \<and> history_rel t1 rl' l' \<and> monotone_from t1 cs"
  proof (cases c)
    case (Allow now ip x)
    then show ?thesis
      using allow_refines [OF Cons.prems(1) _ Cons.prems(3), of now ip x] Cons.prems(2) c s
      by (intro exI [of _ now]) (simp del: spec_call.simps)
  next
    case (Reset ip x)
    then show ?thesis
      using reset_refines [OF Cons.prems(1), of ip x "rl_window rl" "rl_max rl"] Cons.prems(2) c s
      by (intro exI [of _ t0]) auto
  qed
  then show ?case
    using Cons.IH [of _ rl' l'] Cons.prems(3) c s p by (auto split: prod.splits)
qed simp

section \<open>What the specification guarantees\<close>

text \<open>
  The invariant of one key's log: it is sorted, and however a window of length \<open>w\<close> is placed, at
  most \<open>m\<close> admitted attempts lie in it.
\<close>

definition bounded_log :: "int \<Rightarrow> int \<Rightarrow> int \<Rightarrow> int list \<Rightarrow> bool" where
  "bounded_log w m t0 ts \<longleftrightarrow> (\<forall>t \<in> set ts. t \<le> t0) \<and> (\<forall>now. int (in_window w now ts) \<le> m)"

lemma in_window_snoc:
  "in_window w now (ts @ [t]) = in_window w now ts + (if now - w < t \<and> t \<le> now then 1 else 0)"
  by (simp add: in_window_def)

lemma in_window_later:
  "\<forall>t \<in> set ts. t \<le> t0 \<Longrightarrow> t0 \<le> now \<Longrightarrow> in_window w now ts \<le> in_window w t0 ts"
  unfolding in_window_def by (induction ts) auto

lemma bounded_log_admit:
  assumes "bounded_log w m t0 ts" and "t0 \<le> now" and "int (in_window w now ts) < m"
  shows "bounded_log w m now (ts @ [now])"
proof -
  have le: "\<forall>t \<in> set ts. t \<le> now" using assms(1,2) by (auto simp: bounded_log_def)
  have "int (in_window w n (ts @ [now])) \<le> m" for n
  proof (cases "now \<le> n")
    case True
    then have "in_window w n ts \<le> in_window w now ts" by (rule in_window_later [OF le])
    then show ?thesis using assms(3) by (simp add: in_window_snoc)
  next
    case False
    then show ?thesis using assms(1) by (simp add: in_window_snoc bounded_log_def)
  qed
  with le show ?thesis by (auto simp: bounded_log_def)
qed

lemma bounded_log_empty: "0 \<le> m \<Longrightarrow> bounded_log w m t0 []"
  by (simp add: bounded_log_def in_window_def)

lemma bounded_log_later: "bounded_log w m t0 ts \<Longrightarrow> t0 \<le> t1 \<Longrightarrow> bounded_log w m t1 ts"
  by (auto simp: bounded_log_def)

text \<open>The admitted attempts of one key in a run, by their clock readings.\<close>

fun admitted :: "limiter_key \<Rightarrow> limiter_call list \<Rightarrow> bool list \<Rightarrow> int list" where
  "admitted k (Allow now ip c # cs) (b # bs) =
     (if b \<and> (ip, hex_str c) = k then now # admitted k cs bs else admitted k cs bs)"
| "admitted k (Reset ip c # cs) (b # bs) = admitted k cs bs"
| "admitted k _ _ = []"

lemma spec_log:
  assumes "0 \<le> m"
  shows "\<forall>k. bounded_log w m t0 (l k) \<Longrightarrow> monotone_from t0 cs \<Longrightarrow>
    \<forall>ip c. Reset ip c \<in> set cs \<longrightarrow> (ip, hex_str c) \<noteq> k \<Longrightarrow>
    \<exists>t1. bounded_log w m t1 (l k @ admitted k cs (fst (run_calls (spec_call w m) cs l)))"
proof (induction cs arbitrary: t0 l)
  case Nil
  then have "bounded_log w m t0 (l k)" by blast
  then show ?case by auto
next
  case (Cons c cs)
  show ?case
  proof (cases c)
    case (Allow now ip x)
    let ?k = "(ip, hex_str x)"
    have t: "t0 \<le> now" "monotone_from now cs" using Cons.prems(2) Allow by simp_all
    have b: "\<forall>k. bounded_log w m now (l k)"
      using Cons.prems(1) t(1) bounded_log_later by blast
    have r: "\<forall>ip c. Reset ip c \<in> set cs \<longrightarrow> (ip, hex_str c) \<noteq> k" using Cons.prems(3) by simp
    show ?thesis
    proof (cases "int (in_window w now (l ?k)) < m")
      case True
      let ?l = "l(?k := l ?k @ [now])"
      have "\<forall>k. bounded_log w m now (?l k)"
        using b bounded_log_admit [OF _ order_refl True] by simp
      from Cons.IH [OF this t(2) r] obtain t1 where
        "bounded_log w m t1 (?l k @ admitted k cs (fst (run_calls (spec_call w m) cs ?l)))" ..
      moreover have "spec_call w m c l = (True, ?l)" using Allow True by (simp add: Let_def)
      ultimately show ?thesis
        using Allow by (cases "k = ?k") (auto simp: run_calls_Cons simp del: run_calls.simps)
    next
      case False
      from Cons.IH [OF b t(2) r] Allow False show ?thesis
        by (simp add: Let_def run_calls_Cons del: run_calls.simps)
    qed
  next
    case (Reset ip x)
    let ?l = "l((ip, hex_str x) := [])"
    have b: "\<forall>k. bounded_log w m t0 (?l k)"
      using Cons.prems(1) bounded_log_empty [OF assms] by simp
    have "monotone_from t0 cs" "\<forall>ip c. Reset ip c \<in> set cs \<longrightarrow> (ip, hex_str c) \<noteq> k"
      using Cons.prems(2,3) Reset by simp_all
    from Cons.IH [OF b this] obtain t1 where
      "bounded_log w m t1 (?l k @ admitted k cs (fst (run_calls (spec_call w m) cs ?l)))" ..
    moreover have "spec_call w m c l = (True, ?l)" "(ip, hex_str x) \<noteq> k"
      using Cons.prems(3) Reset by auto
    ultimately show ?thesis
      using Reset by (auto simp: run_calls_Cons simp del: run_calls.simps)
  qed
qed

lemma limiter_new_rel: "history_rel t0 (limiter_new w m) (\<lambda>k. [])"
  by (auto simp: history_rel_def limiter_new_def timestamps_def intro: exI [of _ "t0 - w"])

lemma admitted_bounded:
  assumes "0 < w" and "0 \<le> m" and "monotone_from t0 cs"
    and "\<forall>ip c. Reset ip c \<in> set cs \<longrightarrow> (ip, hex_str c) \<noteq> k"
  shows "int (in_window w now (admitted k cs (fst (run_calls step_call cs (limiter_new w m))))) \<le> m"
proof -
  have "fst (run_calls step_call cs (limiter_new w m)) = fst (run_calls (spec_call w m) cs (\<lambda>k. []))"
    using run_refines [OF limiter_new_rel assms(3)] assms(1) by (simp add: limiter_new_def)
  with spec_log [OF assms(2), of w t0 "\<lambda>k. []" cs k] bounded_log_empty [OF assms(2)] assms(3,4)
  show ?thesis by (auto simp: bounded_log_def)
qed

section \<open>Properties\<close>

text \<open>
  C15: the limiter does what it promises: as long as the clock readings do not go back, pruning the
  history never changes an answer; every call is answered as by a limiter that keeps all admitted
  attempts and admits one exactly when fewer than the maximum lie in the window that ends now.
\<close>

theorem limiter_refines_spec:
  assumes "0 < w" and "monotone_from t0 cs"
  shows "fst (run_calls step_call cs (limiter_new w m)) = fst (run_calls (spec_call w m) cs (\<lambda>k. []))"
  using run_refines [OF limiter_new_rel assms(2)] assms(1) by (simp add: limiter_new_def)

definition sample_calls :: "limiter_call list" where
  "sample_calls = [Allow 1 [49] [7], Allow 2 [49] [7], Allow 3 [49] [8], Allow 4 [49] [7], Allow 12 [49] [7]]"

theorem limiter_refines_spec_witness:
  "fst (run_calls step_call sample_calls (limiter_new 10 2)) = [True, True, True, False, True] \<and>
   fst (run_calls (spec_call 10 2) sample_calls (\<lambda>k. [])) = [True, True, True, False, True]"
proof -
  have "fst (run_calls (spec_call 10 2) sample_calls (\<lambda>k. [])) = [True, True, True, False, True]"
    by (simp add: sample_calls_def in_window_def hex_digit_def)
  moreover have "monotone_from 0 sample_calls" by (simp add: sample_calls_def)
  ultimately show ?thesis using limiter_refines_spec [of 10 0 sample_calls 2] by simp
qed

text \<open>
  For every address and credential that is not reset in between, no window of the configured
  length, wherever it is placed, contains more admitted attempts than the configured maximum.
\<close>

theorem limiter_window_bound:
  assumes "0 < w" and "0 \<le> m" and "monotone_from t0 cs"
    and "\<forall>ip c. Reset ip c \<in> set cs \<longrightarrow> (ip, hex_str c) \<noteq> k"
  shows "int (in_window w now (admitted k cs (fst (run_calls step_call cs (limiter_new w m))))) \<le> m"
  by (rule admitted_bounded [OF assms])

theorem limiter_window_bound_witness:
  "int (in_window 10 9 (admitted ([49], [48, 55]) sample_calls
     (fst (run_calls step_call sample_calls (limiter_new 10 2))))) \<le> 2"
  using limiter_window_bound [of 10 2 0 sample_calls "([49], [48, 55])" 9]
  by (simp add: sample_calls_def)

text \<open>
  Keys do not interfere: the answers a client gets for its own address and credential are the
  answers it would get if no other calls were made, whatever attempts others interleave.
\<close>

theorem limiter_keys_independent:
  "map fst (filter (\<lambda>(b, c). call_key c = k) (zip (fst (run_calls step_call cs rl)) cs)) =
     fst (run_calls step_call (filter (\<lambda>c. call_key c = k) cs) rl)"
  by (rule limiter.own_calls) simp

text \<open>
  The bound needs readings in order: \<open>allow\<close> reads the clock before it takes the lock, and when
  a thread with an early reading takes the lock late, more attempts than the maximum are admitted
  in one window.
\<close>

theorem limiter_clock_race:
  "\<exists>cs k now. fst (run_calls step_call cs (limiter_new 10 3)) = replicate (length cs) True \<and>
     list_all (\<lambda>c. call_key c = k) cs \<and> 3 < in_window 10 now (admitted k cs (replicate (length cs) True))"
proof -
  let ?cs = "[Allow 5 [49] [7], Allow 6 [49] [7], Allow 17 [49] [7], Allow 7 [49] [7], Allow 8 [49] [7]]"
  have "fst (run_calls step_call ?cs (limiter_new 10 3)) = replicate (length ?cs) True"
    by (simp add: allow_def Let_def limiter_new_def timestamps_def hex_digit_def numeral_3_eq_3)
  moreover have "3 < in_window 10 8 (admitted ([49], [48, 55]) ?cs (replicate (length ?cs) True))"
    by (simp add: in_window_def hex_digit_def)
  moreover have "list_all (\<lambda>c. call_key c = ([49], [48, 55])) ?cs" by (simp add: hex_digit_def)
  ultimately show ?thesis by blast
qed

end
