(* ===== verification/Server_Config.thy ===== *)
theory Server_Config
  imports Prelude
begin

text \<open>
  The static capability blob the server signs (\<open>server_config.py\<close>): its encoder, its bounds-checked
  decoder and the client's validation.  Reading the clock (\<open>int(time.time())\<close>) is an argument.  The
  lemmas give the exact set of byte strings the client accepts.
\<close>

section \<open>Constants\<close>

definition SUPPORTED_KEX :: int where [simp]: "SUPPORTED_KEX = 1"
definition SUPPORTED_AEAD :: int where [simp]: "SUPPORTED_AEAD = 2"
definition SUPPORTED_HASH :: int where [simp]: "SUPPORTED_HASH = 3"
definition SERVER_CONFIG_VERSION :: int where [simp]: "SERVER_CONFIG_VERSION = 1"
definition SERVER_CONFIG_MAX_AGE_S :: int where [simp]: "SERVER_CONFIG_MAX_AGE_S = 24 * 60 * 60"

definition SERVER_ID :: bytes where "SERVER_ID = blit ''localhost''"

section \<open>Encoding, decoding, validation\<close>

record server_config =
  sc_version :: int
  sc_kex :: int
  sc_aead :: int
  sc_hash :: int
  sc_server_name :: bytes
  sc_timestamp :: int

definition encode_server_config :: "bytes \<Rightarrow> int \<Rightarrow> bytes res" where
  "encode_server_config server_name now =
     (let ts = now in
      bindE (struct_pack 2 (int (length server_name))) (\<lambda>l.
      let name_field = l @ server_name in
      bindE (bytes_of_ints [SERVER_CONFIG_VERSION, SUPPORTED_KEX, SUPPORTED_AEAD, SUPPORTED_HASH]) (\<lambda>h.
      bindE (struct_pack 8 ts) (\<lambda>t. Inr (h @ name_field @ t)))))"

text \<open>\<open>struct.unpack_from\<close> of one big-endian unsigned field of \<open>k\<close> bytes at an offset.\<close>

definition unpack_from :: "nat \<Rightarrow> bytes \<Rightarrow> nat \<Rightarrow> int res" where
  "unpack_from k data off =
     (if length data < off + k then raise StructError ''unpack_from requires a larger buffer''
      else Inr (int (be_dec (slice data off (off + k)))))"

definition decode_server_config :: "bytes \<Rightarrow> server_config res" where
  "decode_server_config data =
     bindE (guardE (\<not> length data < 14) ValueError ''ServerConfig too short'') (\<lambda>_.
     bindE (py_index data 0) (\<lambda>version.
     bindE (py_index data 1) (\<lambda>kex.
     bindE (py_index data 2) (\<lambda>aead.
     bindE (py_index data 3) (\<lambda>hash.
     bindE (unpack_from 2 data 4) (\<lambda>name_len.
     bindE (guardE (\<not> int (length data) < 6 + name_len + 8) ValueError ''ServerConfig truncated'') (\<lambda>_.
     let server_name = slice data 6 (6 + nat name_len) in
     bindE (unpack_from 8 data (6 + nat name_len)) (\<lambda>timestamp.
       Inr \<lparr>sc_version = uint version, sc_kex = uint kex, sc_aead = uint aead, sc_hash = uint hash,
            sc_server_name = server_name, sc_timestamp = timestamp\<rparr>))))))))"

definition version_msg :: "int \<Rightarrow> pystr" where
  "version_msg v = lit ''Unsupported ServerConfig version '' @ int_str v"

definition validate_server_config :: "bytes \<Rightarrow> bytes \<Rightarrow> int \<Rightarrow> int \<Rightarrow> server_config res" where
  "validate_server_config data expected_name max_age_seconds now =
     bindE (decode_server_config data) (\<lambda>cfg.
     if sc_version cfg \<noteq> SERVER_CONFIG_VERSION then Inl (PyError ValueError (version_msg (sc_version cfg))) else
     bindE (guardE (sc_kex cfg = SUPPORTED_KEX) ValueError ''Unexpected key-exchange suite in ServerConfig'') (\<lambda>_.
     bindE (guardE (sc_aead cfg = SUPPORTED_AEAD) ValueError ''Unexpected AEAD suite in ServerConfig'') (\<lambda>_.
     bindE (guardE (sc_hash cfg = SUPPORTED_HASH) ValueError ''Unexpected hash suite in ServerConfig'') (\<lambda>_.
     bindE (guardE (sc_server_name cfg = expected_name) ValueError ''ServerConfig service identity mismatch'') (\<lambda>_.
     bindE (guardE (\<not> \<bar>now - sc_timestamp cfg\<bar> > max_age_seconds) ValueError
              ''ServerConfig timestamp is stale or implausible'') (\<lambda>_.
       Inr cfg))))))"

section \<open>The wire format\<close>

definition config_bytes :: "int \<Rightarrow> int \<Rightarrow> int \<Rightarrow> int \<Rightarrow> bytes \<Rightarrow> nat \<Rightarrow> bytes" where
  "config_bytes v k a h name ts =
     [word_of_int v, word_of_int k, word_of_int a, word_of_int h] @ be_enc 2 (length name) @ name @ be_enc 8 ts"

lemma length_config_bytes [simp]: "length (config_bytes v k a h name ts) = 14 + length name"
  by (simp add: config_bytes_def)

lemma encode_server_config_Inr:
  "encode_server_config name now = Inr bs \<longleftrightarrow>
     length name < 65536 \<and> 0 \<le> now \<and> now < 2 ^ 64 \<and> bs = config_bytes 1 1 2 3 name (nat now)"
  by (auto simp: encode_server_config_def Let_def bindE_eq_Inr struct_pack_Inr byte_of_int_def config_bytes_def)

lemma unpack_from_Inr:
  "unpack_from k d off = Inr n \<longleftrightarrow> off + k \<le> length d \<and> n = int (be_dec (slice d off (off + k)))"
  by (auto simp: unpack_from_def)

lemma decode_config_bytes:
  assumes "length name < 65536" and "ts < 256 ^ 8"
  shows "decode_server_config (config_bytes v k a h name ts @ rest) =
    Inr \<lparr>sc_version = uint (word_of_int v :: byte), sc_kex = uint (word_of_int k :: byte),
      sc_aead = uint (word_of_int a :: byte), sc_hash = uint (word_of_int h :: byte),
      sc_server_name = name, sc_timestamp = int ts\<rparr>"
proof -
  let ?h = "[word_of_int v, word_of_int k, word_of_int a, word_of_int h] :: bytes"
  let ?d = "config_bytes v k a h name ts @ rest"
  have i: "py_index ?d 0 = Inr (word_of_int v)" "py_index ?d 1 = Inr (word_of_int k)"
    "py_index ?d 2 = Inr (word_of_int a)" "py_index ?d 3 = Inr (word_of_int h)"
    by (simp_all add: py_index_def config_bytes_def)
  have "slice ?d 4 (4 + 2) = be_enc 2 (length name)"
    using slice_append_mid [of ?h 4 "be_enc 2 (length name)" 2 "name @ be_enc 8 ts @ rest"]
    by (simp add: config_bytes_def)
  then have n: "unpack_from 2 ?d 4 = Inr (int (length name))"
    using assms(1) by (simp add: unpack_from_def config_bytes_def)
  have s: "slice ?d 6 (6 + length name) = name"
    using slice_append_mid [of "?h @ be_enc 2 (length name)" 6 name "length name" "be_enc 8 ts @ rest"]
    by (simp add: config_bytes_def)
  have "slice ?d (6 + length name) (6 + length name + 8) = be_enc 8 ts"
    using slice_append_mid [of "?h @ be_enc 2 (length name) @ name" "6 + length name" "be_enc 8 ts" 8 rest]
    by (simp add: config_bytes_def)
  then have t: "unpack_from 8 ?d (6 + length name) = Inr (int ts)"
    using assms(2) by (simp add: unpack_from_def config_bytes_def)
  show ?thesis
    unfolding decode_server_config_def i n bindE_simps Let_def nat_int s t by simp
qed

lemma decode_config_split:
  assumes "decode_server_config d = Inr cfg"
  shows "\<exists>ts rest. d = config_bytes (sc_version cfg) (sc_kex cfg) (sc_aead cfg) (sc_hash cfg) (sc_server_name cfg) ts @ rest \<and>
    sc_timestamp cfg = int ts \<and> ts < 256 ^ 8 \<and> length (sc_server_name cfg) < 65536"
proof -
  let ?n = "be_dec (slice d 4 6)"
  from assms have l: "14 \<le> length d" "14 + ?n \<le> length d"
    and cfg: "cfg = \<lparr>sc_version = uint (d ! 0), sc_kex = uint (d ! 1), sc_aead = uint (d ! 2), sc_hash = uint (d ! 3),
      sc_server_name = slice d 6 (6 + ?n), sc_timestamp = int (be_dec (slice d (6 + ?n) (14 + ?n)))\<rparr>"
    by (auto simp: decode_server_config_def bindE_eq_Inr Let_def unpack_from_Inr py_index_def algebra_simps
        split: if_splits)
  have sl: "length (slice d 4 6) = 2" "length (slice d (6 + ?n) (14 + ?n)) = 8"
    "length (slice d 6 (6 + ?n)) = ?n"
    using l by (simp_all add: length_slice)
  have e: "be_enc 2 ?n = slice d 4 6"
    using be_enc_be_dec [of "slice d 4 6"] sl(1) by simp
  have t: "be_enc 8 (be_dec (slice d (6 + ?n) (14 + ?n))) = slice d (6 + ?n) (14 + ?n)"
    using be_enc_be_dec [of "slice d (6 + ?n) (14 + ?n)"] sl(2) by simp
  have h: "take 4 d = [d ! 0, d ! 1, d ! 2, d ! 3]"
    using l(1) by (intro nth_equalityI) (auto simp: less_Suc_eq numeral_eq_Suc)
  have "d = slice d 0 4 @ slice d 4 6 @ slice d 6 (6 + ?n) @ slice d (6 + ?n) (14 + ?n) @ drop (14 + ?n) d"
    using l(2) drop_slice [of "14 + ?n" d 0] by (simp add: slice_split_append)
  then have "d = config_bytes (uint (d ! 0)) (uint (d ! 1)) (uint (d ! 2)) (uint (d ! 3)) (slice d 6 (6 + ?n))
      (be_dec (slice d (6 + ?n) (14 + ?n))) @ drop (14 + ?n) d"
    unfolding config_bytes_def sl(3) e t using h by (simp add: slice_def)
  moreover have "be_dec (slice d (6 + ?n) (14 + ?n)) < 256 ^ 8" "?n < 256 ^ 2"
    using be_dec_less [of "slice d (6 + ?n) (14 + ?n)"] be_dec_less [of "slice d 4 6"] by (simp_all only: sl)
  ultimately show ?thesis unfolding cfg using sl(3) by auto
qed

lemma decode_server_config_fails: "fails_only {ValueError} (decode_server_config d)"
  unfolding decode_server_config_def
  by (auto simp: unpack_from_def py_index_def Let_def)

lemma validate_server_config_Inr:
  "validate_server_config d name age now = Inr cfg \<longleftrightarrow> decode_server_config d = Inr cfg \<and>
     sc_version cfg = 1 \<and> sc_kex cfg = 1 \<and> sc_aead cfg = 2 \<and> sc_hash cfg = 3 \<and>
     sc_server_name cfg = name \<and> \<bar>now - sc_timestamp cfg\<bar> \<le> age"
  by (auto simp: validate_server_config_def bindE_eq_Inr not_less split: if_splits)

section \<open>Properties\<close>

text \<open>
  C23: the client accepts exactly the encodings of its own algorithm suite and expected service
  name with a timestamp within the permitted age of its clock, with arbitrary bytes after them.
\<close>

theorem validate_accepts_iff:
  "(\<exists>cfg. validate_server_config d name age now = Inr cfg) \<longleftrightarrow>
    (\<exists>ts blob rest. encode_server_config name ts = Inr blob \<and> d = blob @ rest \<and> \<bar>now - ts\<bar> \<le> age)"
proof
  assume "\<exists>cfg. validate_server_config d name age now = Inr cfg"
  then obtain cfg where c: "decode_server_config d = Inr cfg" "sc_version cfg = 1" "sc_kex cfg = 1"
    "sc_aead cfg = 2" "sc_hash cfg = 3" "sc_server_name cfg = name" "\<bar>now - sc_timestamp cfg\<bar> \<le> age"
    unfolding validate_server_config_Inr by blast
  from decode_config_split [OF c(1)] c obtain ts rest where
    "d = config_bytes 1 1 2 3 name ts @ rest" "sc_timestamp cfg = int ts" "ts < 256 ^ 8" "length name < 65536"
    by auto
  with c(7) show "\<exists>ts blob rest. encode_server_config name ts = Inr blob \<and> d = blob @ rest \<and> \<bar>now - ts\<bar> \<le> age"
    by (intro exI [of _ "int ts"] exI [of _ "config_bytes 1 1 2 3 name ts"] exI [of _ rest])
       (simp add: encode_server_config_Inr)
next
  assume "\<exists>ts blob rest. encode_server_config name ts = Inr blob \<and> d = blob @ rest \<and> \<bar>now - ts\<bar> \<le> age"
  then obtain ts rest where "length name < 65536" "0 \<le> ts" "ts < 2 ^ 64"
    "d = config_bytes 1 1 2 3 name (nat ts) @ rest" "\<bar>now - ts\<bar> \<le> age"
    unfolding encode_server_config_Inr by blast
  then show "\<exists>cfg. validate_server_config d name age now = Inr cfg"
    using decode_config_bytes [of name "nat ts" 1 1 2 3 rest] by (simp add: validate_server_config_Inr)
qed

text \<open>
  The decoder is total and safe: it returns the encoded fields of every encoding, and on
  any other input it raises nothing but \<open>ValueError\<close>, never an index or \<open>struct\<close> error.
\<close>

theorem decode_server_config_safe:
  "fails_only {ValueError} (decode_server_config d) \<and>
   (\<forall>name ts blob. encode_server_config name ts = Inr blob \<longrightarrow>
      decode_server_config (blob @ rest) = Inr \<lparr>sc_version = SERVER_CONFIG_VERSION, sc_kex = SUPPORTED_KEX,
        sc_aead = SUPPORTED_AEAD, sc_hash = SUPPORTED_HASH, sc_server_name = name, sc_timestamp = ts\<rparr>)"
  by (auto simp: decode_server_config_fails encode_server_config_Inr decode_config_bytes)

theorem decode_server_config_safe_witness:
  "\<exists>blob. encode_server_config SERVER_ID 1700000000 = Inr blob \<and>
     sc_timestamp (projr (decode_server_config (blob @ [1]))) = 1700000000"
proof -
  obtain blob where b: "encode_server_config SERVER_ID 1700000000 = Inr blob"
    by (simp add: encode_server_config_Inr SERVER_ID_def)
  with decode_server_config_safe [of "[]" "[1]"] show ?thesis by auto
qed

end
