(* ===== verification/Storage.thy ===== *)
theory Storage
  imports Prelude Hex
begin

text \<open>
  Persistent storage (\<open>storage.py\<close>): the locked JSON file store, its singletons and the OPAQUE record
  helpers.  A JSON file holds the dictionary it parses to (\<open>json.dump\<close> and \<open>json.load\<close> are inverse on
  the string dictionaries the code stores), or is partially written.  A locale states what the record
  helpers need of a key-value store; the JSON store is an instance of it.  The write-then-rename
  sequence is modelled step by step, and so are concurrent \<open>set\<close> calls with their locks.
\<close>

section \<open>Files\<close>

type_synonym json_record = "pystr \<Rightarrow> pystr option"
type_synonym dict = "pystr \<Rightarrow> json_record option"

datatype json_file = Partial | Whole dict

type_synonym files = "pystr \<Rightarrow> json_file option"

definition tmp_path :: "pystr \<Rightarrow> pystr" where
  "tmp_path path = path @ lit ''.tmp''"

definition read_raw :: "pystr \<Rightarrow> files \<Rightarrow> dict res" where
  "read_raw path fs = (case fs path of
     None \<Rightarrow> raise FileNotFoundError ''No such file or directory''
   | Some Partial \<Rightarrow> raise ValueError ''JSONDecodeError''
   | Some (Whole d) \<Rightarrow> Inr d)"

text \<open>
  The file-system states \<open>_write_raw\<close> goes through: the temporary file opened for writing, complete,
  and renamed over the store's file.
\<close>

definition write_raw_states :: "pystr \<Rightarrow> dict \<Rightarrow> files \<Rightarrow> files list" where
  "write_raw_states path data fs =
     [fs(tmp_path path \<mapsto> Partial),
      fs(tmp_path path \<mapsto> Whole data),
      fs(tmp_path path := None, path \<mapsto> Whole data)]"

definition write_raw :: "pystr \<Rightarrow> dict \<Rightarrow> files \<Rightarrow> files" where
  "write_raw path data fs = last (write_raw_states path data fs)"

section \<open>JSONStore\<close>

text \<open>\<open>JSONStore(path)\<close> creates the file unless it is there; the object is identified by its path.\<close>

definition json_store_new :: "pystr \<Rightarrow> files \<Rightarrow> files" where
  "json_store_new path fs = (if fs path = None then write_raw path Map.empty fs else fs)"

definition store_get :: "pystr \<Rightarrow> pystr \<Rightarrow> files \<Rightarrow> json_record option res" where
  "store_get path key fs = bindE (read_raw path fs) (\<lambda>data. Inr (data key))"

definition store_set :: "pystr \<Rightarrow> pystr \<Rightarrow> json_record \<Rightarrow> files \<Rightarrow> unit res \<times> files" where
  "store_set path key v fs = (case read_raw path fs of
     Inl e \<Rightarrow> (Inl e, fs)
   | Inr data \<Rightarrow> (Inr (), write_raw path (data(key \<mapsto> v)) fs))"

definition store_delete :: "pystr \<Rightarrow> pystr \<Rightarrow> files \<Rightarrow> unit res \<times> files" where
  "store_delete path key fs = (case read_raw path fs of
     Inl e \<Rightarrow> (Inl e, fs)
   | Inr data \<Rightarrow> (Inr (), write_raw path (data(key := None)) fs))"

definition store_exists :: "pystr \<Rightarrow> pystr \<Rightarrow> files \<Rightarrow> bool res" where
  "store_exists path key fs = bindE (read_raw path fs) (\<lambda>data. Inr (data key \<noteq> None))"

definition store_all :: "pystr \<Rightarrow> files \<Rightarrow> dict res" where
  "store_all path fs = read_raw path fs"

section \<open>The singletons\<close>

text \<open>
  The module's state: the files, the project directory and the two module variables that hold the
  stores once created.
\<close>

record storage =
  sg_files :: files
  sg_base :: pystr
  sg_users :: "pystr option"
  sg_state :: "pystr option"

definition DB_DIR :: "pystr \<Rightarrow> pystr" where
  "DB_DIR base = base @ lit ''/db''"

definition USERS_DB_PATH :: "pystr \<Rightarrow> pystr" where
  "USERS_DB_PATH base = DB_DIR base @ lit ''/users.json''"

definition SERVER_STATE_PATH :: "pystr \<Rightarrow> pystr" where
  "SERVER_STATE_PATH base = DB_DIR base @ lit ''/server_state.json''"

definition users_db :: "storage \<Rightarrow> pystr \<times> storage" where
  "users_db sg = (case sg_users sg of
     Some p \<Rightarrow> (p, sg)
   | None \<Rightarrow> let p = USERS_DB_PATH (sg_base sg) in
       (p, sg\<lparr>sg_files := json_store_new p (sg_files sg), sg_users := Some p\<rparr>))"

definition server_state_db :: "storage \<Rightarrow> pystr \<times> storage" where
  "server_state_db sg = (case sg_state sg of
     Some p \<Rightarrow> (p, sg)
   | None \<Rightarrow> let p = SERVER_STATE_PATH (sg_base sg) in
       (p, sg\<lparr>sg_files := json_store_new p (sg_files sg), sg_state := Some p\<rparr>))"

section \<open>OPAQUE records\<close>

record opaque_record =
  or_oprf_key :: bytes
  or_client_pub :: bytes
  or_envelope :: bytes
  or_credential_id :: bytes

definition store_opaque_record ::
  "bytes \<Rightarrow> bytes \<Rightarrow> bytes \<Rightarrow> bytes \<Rightarrow> storage \<Rightarrow> unit res \<times> storage" where
  "store_opaque_record credential_id oprf_key client_pub envelope sg =
     (let key = hex_str credential_id;
          (db, sg') = users_db sg;
          (r, fs) = store_set db key
            [lit ''oprf_key_hex'' \<mapsto> hex_str oprf_key,
             lit ''client_pub_hex'' \<mapsto> hex_str client_pub,
             lit ''envelope_hex'' \<mapsto> hex_str envelope,
             lit ''credential_id_hex'' \<mapsto> hex_str credential_id] (sg_files sg') in
      (r, sg'\<lparr>sg_files := fs\<rparr>))"

definition json_item :: "json_record \<Rightarrow> pystr \<Rightarrow> pystr res" where
  "json_item raw k = (case raw k of None \<Rightarrow> Inl (PyError KeyError k) | Some v \<Rightarrow> Inr v)"

definition hex_item :: "json_record \<Rightarrow> string \<Rightarrow> bytes res" where
  "hex_item raw k = bindE (json_item raw (lit k)) fromhex"

definition load_opaque_record :: "bytes \<Rightarrow> storage \<Rightarrow> opaque_record option res \<times> storage" where
  "load_opaque_record credential_id sg =
     (let (db, sg') = users_db sg in
      (bindE (store_get db (hex_str credential_id) (sg_files sg')) (\<lambda>raw.
         case raw of
           None \<Rightarrow> Inr None
         | Some raw \<Rightarrow>
             bindE (hex_item raw ''oprf_key_hex'') (\<lambda>oprf_key.
             bindE (hex_item raw ''client_pub_hex'') (\<lambda>client_pub.
             bindE (hex_item raw ''envelope_hex'') (\<lambda>envelope.
             bindE (hex_item raw ''credential_id_hex'') (\<lambda>cid.
               Inr (Some \<lparr>or_oprf_key = oprf_key, or_client_pub = client_pub, or_envelope = envelope,
                          or_credential_id = cid\<rparr>)))))), sg'))"

definition record_exists :: "bytes \<Rightarrow> storage \<Rightarrow> bool res \<times> storage" where
  "record_exists credential_id sg =
     (let (db, sg') = users_db sg in (store_exists db (hex_str credential_id) (sg_files sg'), sg'))"

section \<open>Key-value stores\<close>

text \<open>
  What the record helpers rely on: in a usable store, a write replaces the value of its key, a
  removal clears it, neither touches another key, and the store stays usable.
\<close>

datatype 'v kv_op = Put pystr 'v | Remove pystr

fun kv_spec :: "'v kv_op \<Rightarrow> (pystr \<Rightarrow> 'v option) \<Rightarrow> pystr \<Rightarrow> 'v option" where
  "kv_spec (Put k v) m = m(k \<mapsto> v)"
| "kv_spec (Remove k) m = m(k := None)"

locale kv_store =
  fixes usable :: "'s \<Rightarrow> bool" and content :: "'s \<Rightarrow> pystr \<Rightarrow> 'v option"
    and put :: "pystr \<Rightarrow> 'v \<Rightarrow> 's \<Rightarrow> 's" and remove :: "pystr \<Rightarrow> 's \<Rightarrow> 's"
  assumes usable_put: "usable s \<Longrightarrow> usable (put k v s)"
    and usable_remove: "usable s \<Longrightarrow> usable (remove k s)"
    and content_put: "usable s \<Longrightarrow> content (put k v s) = (content s)(k \<mapsto> v)"
    and content_remove: "usable s \<Longrightarrow> content (remove k s) = (content s)(k := None)"
begin

lemma run_ops:
  "usable s \<Longrightarrow> usable (fold (\<lambda>c. case c of Put k v \<Rightarrow> put k v | Remove k \<Rightarrow> remove k) cs s) \<and>
    content (fold (\<lambda>c. case c of Put k v \<Rightarrow> put k v | Remove k \<Rightarrow> remove k) cs s) = fold kv_spec cs (content s)"
proof (induction cs arbitrary: s)
  case (Cons c cs)
  show ?case
  proof (cases c)
    case (Put k v)
    with Cons.IH [OF usable_put [OF Cons.prems]] show ?thesis
      by (simp add: content_put [OF Cons.prems] del: fun_upd_apply)
  next
    case (Remove k)
    with Cons.IH [OF usable_remove [OF Cons.prems]] show ?thesis
      by (simp add: content_remove [OF Cons.prems] del: fun_upd_apply)
  qed
qed simp

lemma untouched:
  assumes "usable s" and "\<forall>c \<in> set cs. case c of Put k' v \<Rightarrow> k' \<noteq> k | Remove k' \<Rightarrow> k' \<noteq> k"
  shows "content (fold (\<lambda>c. case c of Put k v \<Rightarrow> put k v | Remove k \<Rightarrow> remove k) cs s) k = content s k"
proof -
  have "fold kv_spec cs m k = m k" for m
    using assms(2) by (induction cs arbitrary: m) (auto split: kv_op.splits)
  then show ?thesis using run_ops [OF assms(1)] by simp
qed

end

definition file_ok :: "pystr \<Rightarrow> files \<Rightarrow> bool" where
  "file_ok path fs \<longleftrightarrow> (\<exists>d. fs path = Some (Whole d))"

definition file_dict :: "pystr \<Rightarrow> files \<Rightarrow> dict" where
  "file_dict path fs = (case fs path of Some (Whole d) \<Rightarrow> d | _ \<Rightarrow> Map.empty)"

lemma tmp_path_neq [simp]: "tmp_path p \<noteq> p" "p \<noteq> tmp_path p"
  by (simp_all add: tmp_path_def lit_def)

lemma read_raw_Inr: "read_raw p fs = Inr d \<longleftrightarrow> fs p = Some (Whole d)"
  by (auto simp: read_raw_def split: option.splits json_file.splits)

lemma read_raw_ok: "file_ok p fs \<Longrightarrow> read_raw p fs = Inr (file_dict p fs)"
  by (auto simp: file_ok_def file_dict_def read_raw_Inr)

lemma write_raw_same [simp]: "write_raw p d fs p = Some (Whole d)"
  by (simp add: write_raw_def write_raw_states_def)

lemma write_raw_other: "q \<noteq> p \<Longrightarrow> q \<noteq> tmp_path p \<Longrightarrow> write_raw p d fs q = fs q"
  by (simp add: write_raw_def write_raw_states_def)

lemma store_set_ok:
  "file_ok p fs \<Longrightarrow> store_set p k v fs = (Inr (), write_raw p ((file_dict p fs)(k \<mapsto> v)) fs)"
  by (simp add: store_set_def read_raw_ok)

lemma store_delete_ok:
  "file_ok p fs \<Longrightarrow> store_delete p k fs = (Inr (), write_raw p ((file_dict p fs)(k := None)) fs)"
  by (simp add: store_delete_def read_raw_ok)

lemma file_ok_write [simp]: "file_ok p (write_raw p d fs)" "file_dict p (write_raw p d fs) = d"
  by (simp_all add: file_ok_def file_dict_def)

interpretation json: kv_store "file_ok p" "file_dict p"
    "\<lambda>k v fs. snd (store_set p k v fs)" "\<lambda>k fs. snd (store_delete p k fs)" for p
  by unfold_locales (simp_all add: store_set_ok store_delete_ok)

section \<open>Records in the store\<close>

text \<open>The users database once opened: its file is usable and the singleton points to it.\<close>

definition users_open :: "storage \<Rightarrow> bool" where
  "users_open sg \<longleftrightarrow> (\<exists>p. sg_users sg = Some p \<and> file_ok p (sg_files sg))"

definition users_dict :: "storage \<Rightarrow> dict" where
  "users_dict sg = (case sg_users sg of None \<Rightarrow> Map.empty | Some p \<Rightarrow> file_dict p (sg_files sg))"

definition record_json :: "opaque_record \<Rightarrow> json_record" where
  "record_json r =
     [lit ''oprf_key_hex'' \<mapsto> hex_str (or_oprf_key r),
      lit ''client_pub_hex'' \<mapsto> hex_str (or_client_pub r),
      lit ''envelope_hex'' \<mapsto> hex_str (or_envelope r),
      lit ''credential_id_hex'' \<mapsto> hex_str (or_credential_id r)]"

lemma users_openD: "users_open sg \<Longrightarrow> \<exists>p. sg_users sg = Some p \<and> users_db sg = (p, sg) \<and>
    file_ok p (sg_files sg) \<and> users_dict sg = file_dict p (sg_files sg)"
  by (auto simp: users_open_def users_db_def users_dict_def)

lemma store_opaque_record_ok:
  assumes "users_open sg"
  shows "\<exists>sg'. store_opaque_record cid k pub env sg = (Inr (), sg') \<and> users_open sg' \<and>
    users_dict sg' = (users_dict sg)(hex_str cid \<mapsto>
      record_json \<lparr>or_oprf_key = k, or_client_pub = pub, or_envelope = env, or_credential_id = cid\<rparr>)"
proof -
  from users_openD [OF assms] obtain p where p: "sg_users sg = Some p" "users_db sg = (p, sg)"
    "file_ok p (sg_files sg)" "users_dict sg = file_dict p (sg_files sg)" by blast
  from p show ?thesis
    by (simp add: store_opaque_record_def store_set_ok users_open_def users_dict_def record_json_def)
qed

lemma lit_inject [simp]: "lit s = lit t \<longleftrightarrow> s = t"
  by (auto simp: lit_def inj_map_eq_map [OF inj_of_char])

lemma hex_item_record [simp]:
  "hex_item (record_json r) ''oprf_key_hex'' = Inr (or_oprf_key r)"
  "hex_item (record_json r) ''client_pub_hex'' = Inr (or_client_pub r)"
  "hex_item (record_json r) ''envelope_hex'' = Inr (or_envelope r)"
  "hex_item (record_json r) ''credential_id_hex'' = Inr (or_credential_id r)"
  by (simp_all add: hex_item_def json_item_def record_json_def)

lemma load_opaque_record_found:
  "users_open sg \<Longrightarrow> users_dict sg (hex_str cid) = Some (record_json r) \<Longrightarrow>
    load_opaque_record cid sg = (Inr (Some r), sg)"
  using users_openD [of sg] by (auto simp: load_opaque_record_def store_get_def read_raw_ok)

lemma load_opaque_record_none:
  "users_open sg \<Longrightarrow> users_dict sg (hex_str cid) = None \<Longrightarrow> load_opaque_record cid sg = (Inr None, sg)"
  using users_openD [of sg] by (auto simp: load_opaque_record_def store_get_def read_raw_ok)

lemma load_opaque_record_cong:
  "users_open sg \<Longrightarrow> users_open sg' \<Longrightarrow> users_dict sg (hex_str cid) = users_dict sg' (hex_str cid) \<Longrightarrow>
    fst (load_opaque_record cid sg) = fst (load_opaque_record cid sg')"
  using users_openD [of sg] users_openD [of sg']
  by (auto simp: load_opaque_record_def store_get_def read_raw_ok)

text \<open>Before its first use the file may also be missing: the singleton then creates it.\<close>

definition users_ready :: "storage \<Rightarrow> bool" where
  "users_ready sg \<longleftrightarrow> users_open sg \<or> (sg_users sg = None \<and>
     (let f = sg_files sg (USERS_DB_PATH (sg_base sg)) in f = None \<or> (\<exists>d. f = Some (Whole d))))"

lemma users_db_open: "users_ready sg \<Longrightarrow> users_open (snd (users_db sg))"
  by (auto simp: users_ready_def users_db_def users_open_def json_store_new_def file_ok_def Let_def
      split: option.splits)

lemma users_db_again: "users_db (snd (users_db sg)) = users_db sg"
  by (auto simp: users_db_def Let_def split: option.splits)

lemma store_after_open: "store_opaque_record cid k pub env (snd (users_db sg)) = store_opaque_record cid k pub env sg"
  by (simp add: store_opaque_record_def users_db_again)

lemma load_after_open: "load_opaque_record cid (snd (users_db sg)) = load_opaque_record cid sg"
  by (simp add: load_opaque_record_def users_db_again)

lemma users_open_ready: "users_open sg \<Longrightarrow> users_ready sg"
  by (simp add: users_ready_def)

section \<open>Crashes\<close>

lemma write_raw_states_read:
  "fs' \<in> set (write_raw_states p d fs) \<Longrightarrow> fs' p = fs p \<or> fs' p = Some (Whole d)"
  by (auto simp: write_raw_states_def)

section \<open>Concurrent calls of set\<close>

text \<open>
  Threads that call \<open>set\<close> on stores of one file.  A call acquires its store's lock and reads the
  file, later writes the file and releases the lock; \<open>t_lock\<close> is the lock object, which is one per
  \<open>JSONStore\<close> object.
\<close>

datatype thread_pc = Waiting | Holding dict | Finished

record set_thread =
  t_lock :: nat
  t_key :: pystr
  t_value :: json_record
  t_pc :: thread_pc

record shared =
  sh_dict :: dict
  sh_held :: "nat \<Rightarrow> bool"
  sh_threads :: "nat \<Rightarrow> set_thread"

definition set_pc :: "nat \<Rightarrow> thread_pc \<Rightarrow> shared \<Rightarrow> shared" where
  "set_pc i pc sh = sh\<lparr>sh_threads := (sh_threads sh)(i := (sh_threads sh i)\<lparr>t_pc := pc\<rparr>)\<rparr>"

lemma set_pc_simps [simp]:
  "t_lock (sh_threads (set_pc i pc sh) j) = t_lock (sh_threads sh j)"
  "t_key (sh_threads (set_pc i pc sh) j) = t_key (sh_threads sh j)"
  "t_value (sh_threads (set_pc i pc sh) j) = t_value (sh_threads sh j)"
  "t_pc (sh_threads (set_pc i pc sh) j) = (if j = i then pc else t_pc (sh_threads sh j))"
  "sh_dict (set_pc i pc sh) = sh_dict sh" "sh_held (set_pc i pc sh) = sh_held sh"
  by (simp_all add: set_pc_def)

inductive set_step :: "shared \<Rightarrow> shared \<Rightarrow> bool" where
  Acquire: "t_pc (sh_threads sh i) = Waiting \<Longrightarrow> \<not> sh_held sh (t_lock (sh_threads sh i)) \<Longrightarrow>
    set_step sh ((set_pc i (Holding (sh_dict sh)) sh)
      \<lparr>sh_held := (sh_held sh)(t_lock (sh_threads sh i) := True)\<rparr>)"
| Release: "t_pc (sh_threads sh i) = Holding d \<Longrightarrow>
    set_step sh ((set_pc i Finished sh)
      \<lparr>sh_dict := d(t_key (sh_threads sh i) \<mapsto> t_value (sh_threads sh i)),
       sh_held := (sh_held sh)(t_lock (sh_threads sh i) := False)\<rparr>)"

definition set_reach :: "shared \<Rightarrow> shared \<Rightarrow> bool" where
  "set_reach = set_step\<^sup>*\<^sup>*"

text \<open>All threads use one lock and different keys.\<close>

definition one_lock :: "shared \<Rightarrow> bool" where
  "one_lock sh \<longleftrightarrow> (\<forall>i j. t_lock (sh_threads sh i) = t_lock (sh_threads sh j)) \<and>
     (\<forall>i j. t_key (sh_threads sh i) = t_key (sh_threads sh j) \<longrightarrow> i = j)"

text \<open>
  At most one thread is inside, its copy is the current dictionary, and the dictionary is the
  original one with the finished threads' entries.
\<close>

definition critical :: "shared \<Rightarrow> bool" where
  "critical sh \<longleftrightarrow> (\<forall>i d. t_pc (sh_threads sh i) = Holding d \<longrightarrow> d = sh_dict sh \<and>
     sh_held sh (t_lock (sh_threads sh i)) \<and> (\<forall>j d'. t_pc (sh_threads sh j) = Holding d' \<longrightarrow> i = j))"

definition written :: "dict \<Rightarrow> shared \<Rightarrow> bool" where
  "written d0 sh \<longleftrightarrow>
     (\<forall>i. t_pc (sh_threads sh i) = Finished \<longrightarrow>
        sh_dict sh (t_key (sh_threads sh i)) = Some (t_value (sh_threads sh i))) \<and>
     (\<forall>k. (\<forall>i. t_pc (sh_threads sh i) = Finished \<longrightarrow> t_key (sh_threads sh i) \<noteq> k) \<longrightarrow> sh_dict sh k = d0 k)"

definition set_inv :: "dict \<Rightarrow> shared \<Rightarrow> bool" where
  "set_inv d0 sh \<longleftrightarrow> one_lock sh \<and> critical sh \<and> written d0 sh"

lemma set_step_one_lock: "set_step sh sh' \<Longrightarrow> one_lock sh \<Longrightarrow> one_lock sh'"
  by (induction rule: set_step.induct) (simp_all add: one_lock_def)

lemma set_step_critical: "set_step sh sh' \<Longrightarrow> one_lock sh \<Longrightarrow> critical sh \<Longrightarrow> critical sh'"
proof (induction rule: set_step.induct)
  case (Acquire sh i)
  have "t_pc (sh_threads sh j) \<noteq> Holding d" for j d
    using Acquire unfolding critical_def one_lock_def by metis
  then show ?case by (simp add: critical_def)
next
  case (Release sh i d)
  have "t_pc (sh_threads sh j) \<noteq> Holding d'" if "j \<noteq> i" for j d'
    using Release that unfolding critical_def by metis
  then show ?case by (simp add: critical_def)
qed

lemma set_step_written:
  "set_step sh sh' \<Longrightarrow> one_lock sh \<Longrightarrow> critical sh \<Longrightarrow> written d0 sh \<Longrightarrow> written d0 sh'"
proof (induction rule: set_step.induct)
  case (Acquire sh i)
  have "t_pc (sh_threads sh i) \<noteq> Finished" using Acquire by simp
  then show ?case using Acquire.prems(3) by (auto simp: written_def)
next
  case (Release sh i d)
  have d: "d = sh_dict sh" using Release unfolding critical_def by blast
  have k: "t_key (sh_threads sh j) \<noteq> t_key (sh_threads sh i)" if "j \<noteq> i" for j
    using Release.prems(1) that unfolding one_lock_def by blast
  have nf: "t_pc (sh_threads sh i) \<noteq> Finished" using Release by simp
  have "sh_dict sh k = d0 k" if "\<forall>j. j = i \<or> t_pc (sh_threads sh j) = Finished \<longrightarrow> t_key (sh_threads sh j) \<noteq> k" for k
    using Release.prems(3) that unfolding written_def by blast
  then show ?case using Release.prems(3) d k by (simp add: written_def)
qed

lemma set_reach_inv: "set_reach sh sh' \<Longrightarrow> set_inv d0 sh \<Longrightarrow> set_inv d0 sh'"
  unfolding set_reach_def set_inv_def
  by (induction rule: rtranclp_induct) (auto intro: set_step_one_lock set_step_critical set_step_written)

lemma set_step_static:
  "set_step sh sh' \<Longrightarrow> t_key (sh_threads sh' i) = t_key (sh_threads sh i) \<and>
    t_value (sh_threads sh' i) = t_value (sh_threads sh i)"
  by (induction rule: set_step.induct) simp_all

lemma set_reach_static:
  "set_reach sh sh' \<Longrightarrow> t_key (sh_threads sh' i) = t_key (sh_threads sh i) \<and>
    t_value (sh_threads sh' i) = t_value (sh_threads sh i)"
  unfolding set_reach_def by (induction rule: rtranclp_induct) (simp_all add: set_step_static)

section \<open>Properties\<close>

text \<open>
  Registration records persist: unless the users database is corrupt, storing a record never raises,
  loading its credential identifier gives back exactly the bytes stored, and every other
  credential's answer is what it was before.
\<close>

theorem record_store_load:
  assumes "users_ready sg" and "store_opaque_record cid k pub env sg = (r, sg')"
  shows "r = Inr () \<and> users_open sg' \<and>
    load_opaque_record cid sg' = (Inr (Some \<lparr>or_oprf_key = k, or_client_pub = pub, or_envelope = env,
      or_credential_id = cid\<rparr>), sg') \<and>
    (\<forall>c. c \<noteq> cid \<longrightarrow> fst (load_opaque_record c sg') = fst (load_opaque_record c sg))"
proof -
  let ?sg = "snd (users_db sg)"
  have o1: "users_open ?sg" by (rule users_db_open [OF assms(1)])
  from store_opaque_record_ok [OF o1, of cid k pub env] assms(2)
  have r: "r = Inr ()" and o: "users_open sg'"
    and d: "users_dict sg' = (users_dict ?sg)(hex_str cid \<mapsto>
      record_json \<lparr>or_oprf_key = k, or_client_pub = pub, or_envelope = env, or_credential_id = cid\<rparr>)"
    by (auto simp: store_after_open)
  have "fst (load_opaque_record c sg') = fst (load_opaque_record c sg)" if "c \<noteq> cid" for c
    using load_opaque_record_cong [OF o o1, of c] that by (simp add: d load_after_open)
  then show ?thesis
    using r o load_opaque_record_found [OF o, of cid] d by simp
qed

definition sample_storage :: storage where
  "sample_storage = \<lparr>sg_files = Map.empty, sg_base = lit ''/srv'', sg_users = None,
     sg_state = None\<rparr>"

theorem record_store_load_witness:
  "load_opaque_record [1] (snd (store_opaque_record [1] [2] [3] [4] sample_storage)) =
     (Inr (Some \<lparr>or_oprf_key = [2], or_client_pub = [3], or_envelope = [4], or_credential_id = [1]\<rparr>),
      snd (store_opaque_record [1] [2] [3] [4] sample_storage))"
proof -
  have "users_ready sample_storage"
    by (simp add: users_ready_def sample_storage_def)
  from record_store_load [OF this prod.collapse [symmetric]] show ?thesis by blast
qed

text \<open>
  A crash never corrupts a store: at every point of the write-then-rename sequence its file
  holds the old or the new dictionary, complete.
\<close>

theorem write_crash_safe:
  assumes "read_raw p fs = Inr old" and "fs' \<in> set (write_raw_states p new fs)"
  shows "read_raw p fs' \<in> {Inr old, Inr new}"
  using write_raw_states_read [OF assms(2)] assms(1) by (auto simp: read_raw_Inr)

theorem write_crash_safe_witness:
  "read_raw [1] ([[1] \<mapsto> Whole Map.empty](tmp_path [1] \<mapsto> Partial)) \<in>
     {Inr Map.empty, Inr [[2] \<mapsto> Map.empty]}"
  by (rule write_crash_safe [of "[1]" "[[1] \<mapsto> Whole Map.empty]"])
     (simp_all add: read_raw_def write_raw_states_def)


definition sample_shared :: "(nat \<Rightarrow> nat) \<Rightarrow> shared" where
  "sample_shared lock = \<lparr>sh_dict = Map.empty, sh_held = (\<lambda>_. False),
     sh_threads = (\<lambda>i. \<lparr>t_lock = lock i, t_key = [i], t_value = Map.empty, t_pc = Waiting\<rparr>)\<rparr>"

lemma two_locks_run:
  "\<exists>sh'. set_reach (sample_shared id) sh' \<and> t_pc (sh_threads sh' 0) = Finished \<and>
     t_pc (sh_threads sh' 1) = Finished \<and> sh_dict sh' [0] = None"
proof -
  let ?s = "sample_shared id"
  let ?a = "(set_pc 0 (Holding (sh_dict ?s)) ?s)\<lparr>sh_held := (sh_held ?s)(t_lock (sh_threads ?s 0) := True)\<rparr>"
  let ?b = "(set_pc 1 (Holding (sh_dict ?a)) ?a)\<lparr>sh_held := (sh_held ?a)(t_lock (sh_threads ?a 1) := True)\<rparr>"
  let ?c = "(set_pc 0 Finished ?b)\<lparr>sh_dict := Map.empty(t_key (sh_threads ?b 0) \<mapsto> t_value (sh_threads ?b 0)),
     sh_held := (sh_held ?b)(t_lock (sh_threads ?b 0) := False)\<rparr>"
  let ?d = "(set_pc 1 Finished ?c)\<lparr>sh_dict := Map.empty(t_key (sh_threads ?c 1) \<mapsto> t_value (sh_threads ?c 1)),
     sh_held := (sh_held ?c)(t_lock (sh_threads ?c 1) := False)\<rparr>"
  have "set_step ?s ?a" by (rule Acquire) (simp_all add: sample_shared_def)
  moreover have "set_step ?a ?b" by (rule Acquire) (simp_all add: sample_shared_def)
  moreover have "set_step ?b ?c" by (rule Release) (simp_all add: sample_shared_def)
  moreover have "set_step ?c ?d" by (rule Release) (simp_all add: sample_shared_def)
  ultimately have "set_reach ?s ?d"
    unfolding set_reach_def by (meson rtranclp.rtrancl_into_rtrancl rtranclp.rtrancl_refl)
  then show ?thesis by (intro exI [of _ ?d]) (simp add: sample_shared_def)
qed


text \<open>
  Two store objects on one file can lose an update: \<open>users_db\<close> and \<open>server_state_db\<close> create
  their singleton without a lock, and when two threads each created one, each with a lock of its
  own, a finished registration can be missing from the file.
\<close>

theorem store_two_locks_lose_update:
  "\<exists>sh sh'. set_reach sh sh' \<and> (\<forall>i. t_pc (sh_threads sh i) = Waiting) \<and>
     t_pc (sh_threads sh' 0) = Finished \<and> t_pc (sh_threads sh' 1) = Finished \<and>
     t_key (sh_threads sh 0) \<noteq> t_key (sh_threads sh 1) \<and> sh_dict sh' (t_key (sh_threads sh 0)) = None"
proof -
  from two_locks_run obtain sh' where "set_reach (sample_shared id) sh'"
    "t_pc (sh_threads sh' 0) = Finished" "t_pc (sh_threads sh' 1) = Finished" "sh_dict sh' [0] = None"
    by blast
  then show ?thesis
    by (intro exI [of _ "sample_shared id"] exI [of _ sh']) (simp add: sample_shared_def)
qed

end
