(* ===== verification/Pki.thy ===== *)
theory Pki
  imports Prelude Primitives Sample_Primitives Kdf
begin

text \<open>
  The PKI helpers (\<open>pki.py\<close>): certificate templates, the certificate-chain wire format, chain
  verification against a pinned CA and the two signature operations of the handshake.  Clock
  readings and the randomness of generated keys are arguments; the files and the bootstrap are in the
  theory \<open>Pki_Files\<close>.  The lemmas show the chain format parsed back, what an accepted chain has been checked for, and that the two
  signed messages can never be confused.
\<close>

section \<open>Signed messages\<close>

definition CV_PREFIX :: bytes where "CV_PREFIX = replicate 64 32"
definition CV_LABEL :: bytes where "CV_LABEL = blit ''CSE539 CertificateVerify'' @ [0]"
definition SC_PREFIX :: bytes where "SC_PREFIX = blit ''CSE539 ServerConfig'' @ [0]"

definition build_cv_message :: "prims \<Rightarrow> bytes \<Rightarrow> bytes \<Rightarrow> bytes" where
  "build_cv_message P transcript_hash server_hello_core =
     CV_PREFIX @ CV_LABEL @ hash_bytes P [transcript_hash, server_hello_core]"

section \<open>Certificate generation\<close>

definition CA_VALIDITY_DAYS :: int where [simp]: "CA_VALIDITY_DAYS = 3650"
definition SERVER_VALIDITY_DAYS :: int where [simp]: "SERVER_VALIDITY_DAYS = 365"

definition ca_name :: "(name_oid \<times> pystr) list" where
  "ca_name = [(CountryName, lit ''US''), (OrganizationName, lit ''CSE539 Root CA''),
     (CommonName, lit ''CSE539 Root CA v1'')]"

definition ca_template :: "public_key \<Rightarrow> int \<Rightarrow> cert_template" where
  "ca_template pub now = (let now = now - 60 in
     \<lparr>ct_subject = ca_name, ct_issuer = ca_name, ct_public_key = pub,
      ct_not_before = now, ct_not_after = now + CA_VALIDITY_DAYS * 86400,
      ct_basic_constraints = Some (True, Some 0),
      ct_key_usage = [''key_cert_sign'', ''crl_sign'', ''digital_signature''],
      ct_server_auth = False, ct_san_dns = None, ct_subject_key = Some pub, ct_authority_key = None\<rparr>)"

text \<open>The CA key is generated from \<open>key\<close>; the result is the key and the self-signed certificate.\<close>

definition generate_ca :: "prims \<Rightarrow> bytes \<Rightarrow> int \<Rightarrow> int \<Rightarrow> bytes \<times> x509_cert" where
  "generate_ca P key serial now =
     (key, x509_sign P key serial (ca_template (Ed25519Key (ed25519_public P key)) now))"

definition server_name :: "(name_oid \<times> pystr) list" where
  "server_name = [(CountryName, lit ''US''), (OrganizationName, lit ''CSE539 VAULTTLS''),
     (CommonName, lit ''localhost'')]"

definition server_template :: "public_key \<Rightarrow> x509_cert \<Rightarrow> public_key \<Rightarrow> int \<Rightarrow> cert_template" where
  "server_template pub ca_cert ca_pub now = (let now = now - 60 in
     \<lparr>ct_subject = server_name, ct_issuer = crt_subject ca_cert, ct_public_key = pub,
      ct_not_before = now, ct_not_after = now + SERVER_VALIDITY_DAYS * 86400,
      ct_basic_constraints = Some (False, None),
      ct_key_usage = [''digital_signature'', ''key_agreement''],
      ct_server_auth = True, ct_san_dns = Some [lit ''localhost''], ct_subject_key = None,
      ct_authority_key = Some ca_pub\<rparr>)"

definition generate_server_cert ::
  "prims \<Rightarrow> bytes \<Rightarrow> x509_cert \<Rightarrow> int \<Rightarrow> int \<Rightarrow> int \<Rightarrow> int \<times> x509_cert" where
  "generate_server_cert P ca_key ca_cert key serial now =
     (key, x509_sign P ca_key serial (server_template (EcKey (ec_public_bytes P key)) ca_cert
        (Ed25519Key (ed25519_public P ca_key)) now))"

section \<open>Chain wire format\<close>

definition wrap_cert :: "x509_cert \<Rightarrow> bytes res" where
  "wrap_cert cert = bindE (int_to_bytes 3 (int (length (crt_der cert)))) (\<lambda>l. Inr (l @ crt_der cert))"

definition encode_cert_chain :: "x509_cert \<Rightarrow> x509_cert \<Rightarrow> bytes res" where
  "encode_cert_chain ca_cert srv_cert =
     bindE (wrap_cert ca_cert) (\<lambda>a. bindE (wrap_cert srv_cert) (\<lambda>b. Inr (a @ b)))"

function decode_chain_loop :: "prims \<Rightarrow> bytes \<Rightarrow> nat \<Rightarrow> x509_cert list \<Rightarrow> x509_cert list res" where
  "decode_chain_loop P data pos certs =
     (if pos < length data then
        if pos + 3 > length data then raise ValueError ''Truncated certificate chain length''
        else
          let n = be_dec (slice data pos (pos + 3)); pos = pos + 3 in
          if pos + n > length data then raise ValueError ''Truncated certificate chain body''
          else (case x509_load_der P (slice data pos (pos + n)) of
                  Inl e \<Rightarrow> Inl e
                | Inr c \<Rightarrow> decode_chain_loop P data (pos + n) (certs @ [c]))
      else Inr certs)"
  by pat_completeness auto
termination
  by (relation "measure (\<lambda>(P, data, pos, certs). length data - pos)") auto

declare decode_chain_loop.simps [simp del]

definition cert_count_msg :: "nat \<Rightarrow> pystr" where
  "cert_count_msg n = lit ''Expected exactly 2 certs, got '' @ nat_str n"

definition decode_cert_chain :: "prims \<Rightarrow> bytes \<Rightarrow> (x509_cert \<times> x509_cert) res" where
  "decode_cert_chain P data = bindE (decode_chain_loop P data 0 []) (\<lambda>certs.
     case certs of [a, b] \<Rightarrow> Inr (a, b)
     | _ \<Rightarrow> Inl (PyError ValueError (cert_count_msg (length certs))))"

section \<open>Chain verification\<close>

text \<open>
  \<open>verify\<close> of an Ed25519 key takes the signature and the data; the other key classes have another
  signature, so the call raises a \<open>TypeError\<close> there.
\<close>

definition verify_ed25519_cert_signature :: "prims \<Rightarrow> x509_cert \<Rightarrow> x509_cert \<Rightarrow> unit res" where
  "verify_ed25519_cert_signature P issuer_cert cert = (case crt_public_key issuer_cert of
     Ed25519Key pub \<Rightarrow>
       guardE (ed25519_verify P pub (crt_signature cert) (crt_tbs cert)) LibraryError ''InvalidSignature''
   | _ \<Rightarrow> raise LibraryError ''TypeError'')"

text \<open>\<open>raise ValueError(f"<text>: {exc}") from exc\<close>.\<close>

definition wrap_error :: "string \<Rightarrow> 'a res \<Rightarrow> 'a res" where
  "wrap_error txt m = (case m of
     Inl e \<Rightarrow> Inl (PyError ValueError (lit txt @ lit '': '' @ err_msg e)) | Inr x \<Rightarrow> Inr x)"

text \<open>The \<open>!r\<close> form of a name, for names of printable characters without quotes and backslashes.\<close>

definition name_msg :: "pystr \<Rightarrow> pystr" where
  "name_msg n = lit ''Expected server name '' @ [39] @ n @ [39] @ lit '' not found in certificate''"

text \<open>
  \<open>loaded\<close> is the result of \<open>load_certificate(CA_CERT_PATH)\<close>, read when no trusted certificate is
  given.  A missing extension is \<open>None\<close>.
\<close>

definition verify_certificate_chain ::
  "prims \<Rightarrow> bytes \<Rightarrow> pystr \<Rightarrow> x509_cert option \<Rightarrow> x509_cert res \<Rightarrow> int \<Rightarrow> x509_cert res" where
  "verify_certificate_chain P cert_chain_bytes expected_name trusted loaded now =
     bindE (decode_cert_chain P cert_chain_bytes) (\<lambda>(wire_ca_cert, srv_cert).
     bindE (case trusted of Some c \<Rightarrow> Inr c | None \<Rightarrow> loaded) (\<lambda>pinned_ca_cert.
     bindE (guardE (\<not> crt_der wire_ca_cert \<noteq> crt_der pinned_ca_cert) ValueError
              ''Certificate chain is anchored in an untrusted CA'') (\<lambda>_.
     bindE (wrap_error ''Pinned CA certificate failed self-signature check''
              (verify_ed25519_cert_signature P pinned_ca_cert pinned_ca_cert)) (\<lambda>_.
     bindE (wrap_error ''Server certificate signature invalid''
              (verify_ed25519_cert_signature P pinned_ca_cert srv_cert)) (\<lambda>_.
     bindE (guardE (\<not> crt_issuer srv_cert \<noteq> crt_subject pinned_ca_cert) ValueError
              ''Server certificate issuer does not match the trusted CA'') (\<lambda>_.
     bindE (guardE (\<not> now < crt_not_before srv_cert) ValueError ''Server certificate not yet valid'') (\<lambda>_.
     bindE (guardE (\<not> now > crt_not_after srv_cert) ValueError ''Server certificate expired'') (\<lambda>_.
     bindE (case crt_basic_constraints srv_cert of
              None \<Rightarrow> raise ValueError ''Server certificate missing BasicConstraints''
            | Some ca \<Rightarrow> guardE (\<not> ca) ValueError ''Server certificate incorrectly marked as a CA'') (\<lambda>_.
     let san_dns = (case crt_san_dns srv_cert of None \<Rightarrow> [] | Some names \<Rightarrow> names);
         common_names = map snd (filter (\<lambda>a. fst a = CommonName) (crt_subject srv_cert)) in
     if expected_name \<notin> set (san_dns @ common_names) then Inl (PyError ValueError (name_msg expected_name))
     else Inr srv_cert)))))))))"

section \<open>CertificateVerify and ServerConfig signatures\<close>

definition sign_cert_verify :: "prims \<Rightarrow> int \<Rightarrow> bytes \<Rightarrow> bytes \<Rightarrow> bytes \<Rightarrow> bytes" where
  "sign_cert_verify P server_key rnd transcript_hash server_hello_core =
     ecdsa_sign P server_key rnd (build_cv_message P transcript_hash server_hello_core)"

text \<open>\<open>public_key().verify(sig, msg, ECDSA(SHA256))\<close>: an error for keys other than EC keys.\<close>

definition ecdsa_verify_cert :: "prims \<Rightarrow> x509_cert \<Rightarrow> bytes \<Rightarrow> bytes \<Rightarrow> unit res" where
  "ecdsa_verify_cert P cert sig msg = (case crt_public_key cert of
     EcKey pub \<Rightarrow> guardE (ecdsa_verify P pub sig msg) LibraryError ''InvalidSignature''
   | _ \<Rightarrow> raise LibraryError ''TypeError'')"

definition verify_certificate_verify_signature ::
  "prims \<Rightarrow> bytes \<Rightarrow> bytes \<Rightarrow> bytes \<Rightarrow> x509_cert \<Rightarrow> unit res" where
  "verify_certificate_verify_signature P cert_verify_sig transcript_hash server_hello_core server_cert =
     wrap_error ''CertificateVerify invalid'' (ecdsa_verify_cert P server_cert cert_verify_sig
       (build_cv_message P transcript_hash server_hello_core))"

definition sign_server_config :: "prims \<Rightarrow> int \<Rightarrow> bytes \<Rightarrow> bytes \<Rightarrow> bytes" where
  "sign_server_config P server_key rnd server_config = ecdsa_sign P server_key rnd (SC_PREFIX @ server_config)"

definition verify_server_config_signature :: "prims \<Rightarrow> bytes \<Rightarrow> bytes \<Rightarrow> x509_cert \<Rightarrow> unit res" where
  "verify_server_config_signature P server_config server_config_sig server_cert =
     wrap_error ''ServerConfig signature invalid''
       (ecdsa_verify_cert P server_cert server_config_sig (SC_PREFIX @ server_config))"

section \<open>The chain format\<close>

lemma wrap_cert_Inr: "wrap_cert c = Inr bs \<longleftrightarrow> length (crt_der c) < 2 ^ 24 \<and>
    bs = be_enc 3 (length (crt_der c)) @ crt_der c"
  by (auto simp: wrap_cert_def bindE_eq_Inr int_to_bytes_Inr)

definition wrapped :: "bytes \<Rightarrow> bytes" where
  "wrapped d = be_enc 3 (length d) @ d"

lemma length_wrapped [simp]: "length (wrapped d) = 3 + length d"
  by (simp add: wrapped_def)

lemma decode_chain_loop_step:
  assumes "drop pos data = wrapped d @ rest" and "length d < 2 ^ 24" and "x509_load_der P d = Inr c"
  shows "decode_chain_loop P data pos certs = decode_chain_loop P data (pos + 3 + length d) (certs @ [c])"
proof -
  have "length (drop pos data) = 3 + length d + length rest" by (simp add: assms(1))
  then have l: "pos < length data" "pos + 3 \<le> length data" "pos + 3 + length d \<le> length data" by auto
  have s1: "slice data pos (pos + 3) = be_enc 3 (length d)"
    by (simp add: slice_def assms(1) wrapped_def)
  have "drop (pos + 3) data = drop 3 (drop pos data)" by (simp add: add.commute)
  also have "\<dots> = d @ rest" by (simp add: assms(1) wrapped_def)
  finally have s2: "slice data (pos + 3) (pos + 3 + length d) = d"
    by (simp add: slice_def)
  have n: "be_dec (be_enc 3 (length d)) = length d" using assms(2) by simp
  show ?thesis
    by (subst decode_chain_loop.simps) (use l in \<open>simp add: Let_def s1 s2 n assms(3) not_less\<close>)
qed

lemma decode_chain_loop_end: "length data \<le> pos \<Longrightarrow> decode_chain_loop P data pos certs = Inr certs"
  by (subst decode_chain_loop.simps) simp

lemma decode_chain_loop_split:
  "decode_chain_loop P data pos certs = Inr res \<Longrightarrow> pos \<le> length data \<Longrightarrow>
    \<exists>ds cs. drop pos data = concat (map wrapped ds) \<and> res = certs @ cs \<and>
      list_all2 (\<lambda>d c. x509_load_der P d = Inr c \<and> length d < 2 ^ 24) ds cs"
proof (induction P data pos certs rule: decode_chain_loop.induct)
  case (1 P data pos certs)
  show ?case
  proof (cases "pos < length data")
    case False
    then show ?thesis
      using 1(2,3) by (intro exI [of _ "[]"]) (simp add: decode_chain_loop_end)
  next
    case True
    let ?n = "be_dec (slice data pos (pos + 3))"
    let ?d = "slice data (pos + 3) (pos + 3 + ?n)"
    from 1(2) True have l: "\<not> pos + 3 > length data" "\<not> pos + 3 + ?n > length data"
      by (subst (asm) decode_chain_loop.simps, simp add: Let_def split: if_splits)+
    from 1(2) True l obtain c where c: "x509_load_der P ?d = Inr c"
      and r: "decode_chain_loop P data (pos + 3 + ?n) (certs @ [c]) = Inr res"
      by (subst (asm) decode_chain_loop.simps) (auto simp: Let_def split: sum.splits)
    have sl: "length (slice data pos (pos + 3)) = 3" "length ?d = ?n"
      using l by (simp_all add: length_slice)
    have n: "?n < 2 ^ 24" using be_dec_less [of "slice data pos (pos + 3)"] by (simp add: sl(1))
    from 1(1) [OF True l(1) refl refl l(2) c r] l(2) obtain ds cs where
      ih: "drop (pos + 3 + ?n) data = concat (map wrapped ds)" "res = (certs @ [c]) @ cs"
        "list_all2 (\<lambda>d c. x509_load_der P d = Inr c \<and> length d < 2 ^ 24) ds cs"
      by auto
    have "wrapped ?d = slice data pos (pos + 3) @ ?d"
      using be_enc_be_dec [of "slice data pos (pos + 3)"] by (simp add: wrapped_def sl)
    also have "\<dots> = slice data pos (pos + 3 + ?n)" by (simp add: slice_split)
    finally have "drop pos data = wrapped ?d @ drop (pos + 3 + ?n) data"
      using drop_slice [of "pos + 3 + ?n" data pos] l(2) by simp
    with ih c n sl(2) show ?thesis
      by (intro exI [of _ "?d # ds"] exI [of _ "c # cs"]) simp
  qed
qed

lemma decode_cert_chain_Inr:
  "decode_cert_chain P data = Inr (a, b) \<longleftrightarrow> (\<exists>d e. data = wrapped d @ wrapped e \<and> length d < 2 ^ 24 \<and>
     length e < 2 ^ 24 \<and> x509_load_der P d = Inr a \<and> x509_load_der P e = Inr b)"
proof
  assume "decode_cert_chain P data = Inr (a, b)"
  then obtain cs where cs: "decode_chain_loop P data 0 [] = Inr cs"
    and "(case cs of [a, b] \<Rightarrow> Inr (a, b) | _ \<Rightarrow> Inl (PyError ValueError (cert_count_msg (length cs)))) = Inr (a, b)"
    unfolding decode_cert_chain_def bindE_eq_Inr by blast
  from this(2) have "cs = [a, b]" by (auto split: list.splits)
  with cs have "decode_chain_loop P data 0 [] = Inr [a, b]" by simp
  from decode_chain_loop_split [OF this] obtain ds where "data = concat (map wrapped ds)"
    "list_all2 (\<lambda>d c. x509_load_der P d = Inr c \<and> length d < 2 ^ 24) ds [a, b]" by auto
  moreover from this(2) obtain d e where "ds = [d, e]" by (auto simp: list_all2_Cons2)
  ultimately show "\<exists>d e. data = wrapped d @ wrapped e \<and> length d < 2 ^ 24 \<and>
     length e < 2 ^ 24 \<and> x509_load_der P d = Inr a \<and> x509_load_der P e = Inr b"
    by (intro exI [of _ d] exI [of _ e]) simp
next
  assume "\<exists>d e. data = wrapped d @ wrapped e \<and> length d < 2 ^ 24 \<and>
     length e < 2 ^ 24 \<and> x509_load_der P d = Inr a \<and> x509_load_der P e = Inr b"
  then obtain d e where d: "data = wrapped d @ wrapped e" "length d < 2 ^ 24"
    "length e < 2 ^ 24" "x509_load_der P d = Inr a" "x509_load_der P e = Inr b" by blast
  have "decode_chain_loop P data 0 [] = decode_chain_loop P data (3 + length d) [a]"
    using decode_chain_loop_step [of 0 data d "wrapped e" P a "[]"] d by simp
  also have "\<dots> = decode_chain_loop P data (3 + length d + 3 + length e) [a, b]"
    using decode_chain_loop_step [of "3 + length d" data e "[]" P b "[a]"] d by simp
  also have "\<dots> = Inr [a, b]" by (rule decode_chain_loop_end) (simp add: d)
  finally show "decode_cert_chain P data = Inr (a, b)" by (simp add: decode_cert_chain_def)
qed

lemma encode_cert_chain_Inr:
  "encode_cert_chain ca srv = Inr bs \<longleftrightarrow> length (crt_der ca) < 2 ^ 24 \<and> length (crt_der srv) < 2 ^ 24 \<and>
     bs = wrapped (crt_der ca) @ wrapped (crt_der srv)"
  by (auto simp: encode_cert_chain_def bindE_eq_Inr wrap_cert_Inr wrapped_def)

section \<open>Accepted chains\<close>

definition cert_signed :: "prims \<Rightarrow> x509_cert \<Rightarrow> x509_cert \<Rightarrow> bool" where
  "cert_signed P issuer c \<longleftrightarrow>
     (\<exists>pub. crt_public_key issuer = Ed25519Key pub \<and> ed25519_verify P pub (crt_signature c) (crt_tbs c))"

lemma verify_ed25519_Inr: "verify_ed25519_cert_signature P i c = Inr u \<longleftrightarrow> cert_signed P i c"
  by (auto simp: verify_ed25519_cert_signature_def cert_signed_def split: public_key.splits)

lemma wrap_error_Inr [simp]: "wrap_error t m = Inr x \<longleftrightarrow> m = Inr x"
  by (auto simp: wrap_error_def split: sum.splits)

lemma wrap_error_fails [simp]: "fails_only {ValueError} (wrap_error t m)"
  by (simp add: wrap_error_def split: sum.splits)

text \<open>The names a certificate stands for.\<close>

definition cert_names :: "x509_cert \<Rightarrow> pystr set" where
  "cert_names c = (case crt_san_dns c of None \<Rightarrow> {} | Some names \<Rightarrow> set names) \<union>
     {v. (CommonName, v) \<in> set (crt_subject c)}"

lemma cert_names_code:
  "set ((case crt_san_dns c of None \<Rightarrow> [] | Some names \<Rightarrow> names) @
     map snd (filter (\<lambda>a. fst a = CommonName) (crt_subject c))) = cert_names c"
  by (force simp: cert_names_def split: option.splits)

text \<open>What the client requires of a server certificate, given the pinned CA.\<close>

definition good_server_cert :: "prims \<Rightarrow> x509_cert \<Rightarrow> pystr \<Rightarrow> int \<Rightarrow> x509_cert \<Rightarrow> bool" where
  "good_server_cert P ca name now c \<longleftrightarrow> cert_signed P ca ca \<and> cert_signed P ca c \<and>
     crt_issuer c = crt_subject ca \<and> crt_not_before c \<le> now \<and> now \<le> crt_not_after c \<and>
     crt_basic_constraints c = Some False \<and> name \<in> cert_names c"

lemma verify_certificate_chain_Inr:
  "verify_certificate_chain P data name trusted loaded now = Inr c \<longleftrightarrow> (\<exists>w ca.
     decode_cert_chain P data = Inr (w, c) \<and> (case trusted of Some t \<Rightarrow> Inr t | None \<Rightarrow> loaded) = Inr ca \<and>
     crt_der w = crt_der ca \<and> good_server_cert P ca name now c)"
proof -
  have bc: "(case o' of None \<Rightarrow> raise ValueError s | Some ca \<Rightarrow> guardE (\<not> ca) ValueError s') = Inr u \<longleftrightarrow> o' = Some False"
    for o' s s' u by (auto split: option.splits)
  have pr: "bindE m (\<lambda>(a, b). f a b) = Inr x \<longleftrightarrow> (\<exists>a b. m = Inr (a, b) \<and> f a b = Inr x)"
    for m :: "(x509_cert \<times> x509_cert) res" and f and x :: x509_cert by (auto simp: bindE_eq_Inr)
  have ie: "(if A then Inl e else Inr d) = Inr c \<longleftrightarrow> \<not> A \<and> d = c"
    for A and e :: py_error and c d :: x509_cert by simp
  show ?thesis
    unfolding verify_certificate_chain_def Let_def cert_names_code pr
    unfolding ie bindE_eq_Inr verify_ed25519_Inr
      wrap_error_Inr guardE_eq_Inr bc good_server_cert_def not_less not_not
    by blast
qed

section \<open>Signatures\<close>

lemma ecdsa_verify_cert_Inr:
  "ecdsa_verify_cert P c sig msg = Inr u \<longleftrightarrow>
    (\<exists>pub. crt_public_key c = EcKey pub \<and> ecdsa_verify P pub sig msg)"
  by (auto simp: ecdsa_verify_cert_def split: public_key.splits)

lemma cv_message_neq_config: "build_cv_message P th core \<noteq> SC_PREFIX @ cfg"
proof
  assume e: "build_cv_message P th core = SC_PREFIX @ cfg"
  have "hd (build_cv_message P th core) = 32" by (simp add: build_cv_message_def CV_PREFIX_def)
  then have "hd (SC_PREFIX @ cfg) = 32" by (simp only: e)
  then show False by (simp add: SC_PREFIX_def blit_simps)
qed

lemma cv_message_inject:
  assumes "build_cv_message P th core = build_cv_message P th' core'" and "length th = length th'"
    and "inj_on (c_sha512 P) {th @ core, th' @ core'}"
  shows "th = th' \<and> core = core'"
proof -
  have "c_sha512 P (th @ core) = c_sha512 P (th' @ core')"
    using assms(1) unfolding build_cv_message_def same_append_eq hash_bytes_def by simp
  then have "th @ core = th' @ core'" using assms(3) unfolding inj_on_def by blast
  with assms(2) show ?thesis by simp
qed

section \<open>Generated chains\<close>

lemma generated_chain_good:
  assumes "x509_sign_ok P k sn1 (ca_template (Ed25519Key (ed25519_public P k)) now1)"
    and "ca = x509_sign P k sn1 (ca_template (Ed25519Key (ed25519_public P k)) now1)"
    and "x509_sign_ok P k sn2 (server_template pub ca capub now2)"
    and "srv = x509_sign P k sn2 (server_template pub ca capub now2)"
    and "now2 - 60 \<le> now" and "now \<le> now2 - 60 + 365 * 86400"
  shows "\<exists>chain. encode_cert_chain ca srv = Inr chain \<and>
    verify_certificate_chain P chain (lit ''localhost'') (Some ca) loaded now = Inr srv"
proof -
  have ca: "crt_subject ca = ca_name" "crt_public_key ca = Ed25519Key (ed25519_public P k)"
    "ed25519_verify P (ed25519_public P k) (crt_signature ca) (crt_tbs ca)"
    "x509_load_der P (crt_der ca) = Inr ca" "length (crt_der ca) < 2 ^ 24"
    using assms(1) unfolding x509_sign_ok_def Let_def assms(2) [symmetric] by (simp_all add: ca_template_def Let_def)
  have srv: "crt_issuer srv = crt_subject ca" "crt_not_before srv = now2 - 60"
    "crt_not_after srv = now2 - 60 + 365 * 86400" "crt_basic_constraints srv = Some False"
    "crt_san_dns srv = Some [lit ''localhost'']"
    "ed25519_verify P (ed25519_public P k) (crt_signature srv) (crt_tbs srv)"
    "x509_load_der P (crt_der srv) = Inr srv" "length (crt_der srv) < 2 ^ 24"
    using assms(3) unfolding x509_sign_ok_def Let_def assms(4) [symmetric] by (simp_all add: server_template_def Let_def)
  obtain chain where chain: "encode_cert_chain ca srv = Inr chain"
    using ca(5) srv(8) by (simp add: encode_cert_chain_Inr)
  have "decode_cert_chain P chain = Inr (ca, srv)"
    using chain ca(4) srv(7) by (auto simp: decode_cert_chain_Inr encode_cert_chain_Inr)
  moreover have "good_server_cert P ca (lit ''localhost'') now srv"
    using ca srv assms(5,6) by (simp add: good_server_cert_def cert_signed_def cert_names_def)
  ultimately show ?thesis using chain by (auto simp: verify_certificate_chain_Inr)
qed

section \<open>Properties\<close>

text \<open>
  The chain decoder accepts exactly the two-certificate encodings, with no byte left over, and
  returns the two certificates; in particular it inverts the encoder.
\<close>

theorem cert_chain_canonical:
  "(decode_cert_chain P data = Inr (a, b) \<longleftrightarrow> (\<exists>d e. data = wrapped d @ wrapped e \<and>
     length d < 2 ^ 24 \<and> length e < 2 ^ 24 \<and> x509_load_der P d = Inr a \<and> x509_load_der P e = Inr b)) \<and>
   (x509_load_der P (crt_der ca) = Inr ca \<longrightarrow> x509_load_der P (crt_der srv) = Inr srv \<longrightarrow>
     encode_cert_chain ca srv = Inr bs \<longrightarrow> decode_cert_chain P bs = Inr (ca, srv))"
  by (auto simp: decode_cert_chain_Inr encode_cert_chain_Inr)

theorem cert_chain_canonical_witness:
  "\<exists>bs. encode_cert_chain sample_ca sample_server = Inr bs \<and>
     decode_cert_chain sample bs = Inr (sample_ca, sample_server)"
proof -
  have d: "crt_der sample_ca = [1]" "crt_der sample_server = [2]"
    by (simp_all add: sample_ca_def sample_server_def)
  obtain bs where "encode_cert_chain sample_ca sample_server = Inr bs"
    by (simp add: encode_cert_chain_Inr d)
  with cert_chain_canonical [of sample bs sample_ca sample_server sample_ca sample_server bs] d show ?thesis by auto
qed

text \<open>
  C16: chain verification accepts exactly the chains whose wire CA is byte for byte the pinned one
  and whose server certificate is signed by it, issued in its name, valid now, no CA itself and made
  out to the expected name; the certificate it returns is that one.
\<close>

theorem certificate_chain_accepts_iff:
  "verify_certificate_chain P data name (Some ca) loaded now = Inr c \<longleftrightarrow>
    (\<exists>d e w. data = wrapped d @ wrapped e \<and> length d < 2 ^ 24 \<and> length e < 2 ^ 24 \<and>
       x509_load_der P d = Inr w \<and> x509_load_der P e = Inr c \<and>
       crt_der w = crt_der ca \<and> good_server_cert P ca name now c)"
  by (auto simp: verify_certificate_chain_Inr decode_cert_chain_Inr)

text \<open>
  A signature made for one purpose is of no use for the other: no CertificateVerify message is
  a ServerConfig message, and a CertificateVerify message determines the transcript hash and the
  ServerHello core it was made for, unless SHA-512 collides on them.
\<close>

theorem signed_messages_separate:
  assumes "length th = length th'" and "inj_on (c_sha512 P) {th @ core, th' @ core'}"
  shows "build_cv_message P th core \<noteq> SC_PREFIX @ cfg \<and>
    (build_cv_message P th core = build_cv_message P th' core' \<longrightarrow> th = th' \<and> core = core')"
  using cv_message_neq_config cv_message_inject [OF _ assms] by blast

theorem signed_messages_separate_witness:
  "build_cv_message sample [1] [2] \<noteq> build_cv_message sample [2] [1]"
proof -
  have "inj_on (c_sha512 sample) {[1] @ [2], [2] @ [1]}" by (simp add: inj_on_def fit_def)
  from signed_messages_separate [OF _ this] show ?thesis by auto
qed

text \<open>
  Signatures made with the certified key are accepted: both verifications succeed on what the
  holder of the certificate's key signs.
\<close>

theorem server_signatures_verify:
  assumes "ecdsa_ok P" and "crt_public_key c = EcKey (ec_public_bytes P k)"
  shows "verify_certificate_verify_signature P (sign_cert_verify P k r th core) th core c = Inr () \<and>
    verify_server_config_signature P cfg (sign_server_config P k r cfg) c = Inr ()"
  using assms by (auto simp: verify_certificate_verify_signature_def sign_cert_verify_def
      verify_server_config_signature_def sign_server_config_def ecdsa_verify_cert_Inr ecdsa_okD)

theorem server_signatures_verify_witness:
  "verify_server_config_signature sample [1, 2] (sign_server_config sample 5 [] [1, 2]) sample_server = Inr ()"
  by (rule server_signatures_verify [THEN conjunct2]) (simp_all add: sample_server_def)

end
