(* ===== verification/File_System.thy ===== *)
theory File_System
  imports Prelude Connection
begin

text \<open>
  The files of \<open>pki.py\<close>, \<open>server.py\<close> and the tools: a disk maps paths to contents.  Directories are
  left out (\<open>os.makedirs\<close> has made them), and the disk takes every write.  A write is also given by the
  states a crash can leave behind: \<open>open(path, "wb")\<close> empties the file, which then grows.
\<close>

section \<open>Reading and writing\<close>

type_synonym file_system = "pystr \<Rightarrow> bytes option"

definition read_file :: "pystr \<Rightarrow> file_system \<Rightarrow> bytes res" where
  "read_file path fs = (case fs path of
     None \<Rightarrow> raise FileNotFoundError ''No such file or directory'' | Some b \<Rightarrow> Inr b)"

definition write_file :: "pystr \<Rightarrow> bytes \<Rightarrow> file_system \<Rightarrow> file_system" where
  "write_file path content fs = fs(path \<mapsto> content)"

definition write_file_states :: "pystr \<Rightarrow> bytes \<Rightarrow> file_system \<Rightarrow> file_system list" where
  "write_file_states path content fs = map (\<lambda>n. fs(path \<mapsto> take n content)) [0..<Suc (length content)]"

lemma write_file_states_last: "last (write_file_states path content fs) = write_file path content fs"
  by (simp add: write_file_states_def write_file_def)

lemma write_file_apply [simp]: "write_file p b fs q = (if q = p then Some b else fs q)"
  by (simp add: write_file_def)

lemma read_write_file [simp]: "read_file q (write_file p b fs) = (if q = p then Inr b else read_file q fs)"
  by (simp add: read_file_def)

lemma write_file_states_other: "fs' \<in> set (write_file_states p b fs) \<Longrightarrow> q \<noteq> p \<Longrightarrow> fs' q = fs q"
  by (auto simp: write_file_states_def)

lemma write_file_states_own: "fs' \<in> set (write_file_states p b fs) \<Longrightarrow> \<exists>n. fs' p = Some (take n b)"
  by (auto simp: write_file_states_def simp del: upt_Suc)

text \<open>An operation that only reads the state.\<close>

definition loadS :: "('s \<Rightarrow> 'a res) \<Rightarrow> ('s, 'a) st_res" where
  "loadS f s = (f s, s)"

section \<open>Objects kept in files\<close>

text \<open>
  What the code relies on when it keeps objects in files: an object that is valid loads back from its
  own encoding.
\<close>

definition save_object :: "('a \<Rightarrow> bytes) \<Rightarrow> 'a \<Rightarrow> pystr \<Rightarrow> file_system \<Rightarrow> file_system" where
  "save_object enc x path fs = write_file path (enc x) fs"

definition load_object :: "(bytes \<Rightarrow> 'a res) \<Rightarrow> pystr \<Rightarrow> file_system \<Rightarrow> 'a res" where
  "load_object dec path fs = bindE (read_file path fs) dec"

locale file_object =
  fixes enc :: "'a \<Rightarrow> bytes" and dec :: "bytes \<Rightarrow> 'a res" and valid :: "'a \<Rightarrow> bool"
  assumes dec_enc: "valid x \<Longrightarrow> dec (enc x) = Inr x"
begin

lemma load_save: "valid x \<Longrightarrow> load_object dec path (save_object enc x path fs) = Inr x"
  by (simp add: load_object_def save_object_def dec_enc bindE_def)

lemma load_content: "valid x \<Longrightarrow> fs path = Some (enc x) \<Longrightarrow> load_object dec path fs = Inr x"
  by (simp add: load_object_def read_file_def dec_enc bindE_def)

end

lemma load_object_cong: "fs path = fs' path \<Longrightarrow> load_object dec path fs = load_object dec path fs'"
  by (simp add: load_object_def read_file_def)

lemma load_object_missing: "fs path = None \<Longrightarrow> load_object dec path fs = raise FileNotFoundError ''No such file or directory''"
  by (simp add: load_object_def read_file_def raise_def bindE_def)

lemma save_object_apply [simp]: "save_object enc x p fs q = (if q = p then Some (enc x) else fs q)"
  by (simp add: save_object_def)

end
