(* ===== verification/Pki_Files.thy ===== *)
theory Pki_Files
  imports Prelude Connection Primitives Sample_Primitives Pki File_System
begin

text \<open>
  The PEM files of \<open>pki.py\<close> and the bootstrap of a local CA.  The bootstrap on the disk refines a
  bootstrap that holds the objects themselves; it yields a PKI that works, is repaired after most
  crashes, and is not after the others.
\<close>

section \<open>Paths\<close>

text \<open>\<open>base\<close> is the project directory.\<close>

definition CERTS_DIR :: "pystr \<Rightarrow> pystr" where "CERTS_DIR base = base @ lit ''/certs''"
definition CA_CERT_PATH :: "pystr \<Rightarrow> pystr" where "CA_CERT_PATH base = CERTS_DIR base @ lit ''/ca_cert.pem''"
definition SRV_CERT_PATH :: "pystr \<Rightarrow> pystr" where "SRV_CERT_PATH base = CERTS_DIR base @ lit ''/server_cert.pem''"
definition SRV_KEY_PATH :: "pystr \<Rightarrow> pystr" where "SRV_KEY_PATH base = CERTS_DIR base @ lit ''/server_cert_key.pem''"

definition SERVER_CERT_PATH :: "pystr \<Rightarrow> pystr" where "SERVER_CERT_PATH = SRV_CERT_PATH"
definition SERVER_CERT_KEY_PATH :: "pystr \<Rightarrow> pystr" where "SERVER_CERT_KEY_PATH = SRV_KEY_PATH"

lemma paths_distinct [simp]:
  "SERVER_CERT_PATH b \<noteq> CA_CERT_PATH b" "CA_CERT_PATH b \<noteq> SERVER_CERT_PATH b"
  "SERVER_CERT_KEY_PATH b \<noteq> CA_CERT_PATH b" "CA_CERT_PATH b \<noteq> SERVER_CERT_KEY_PATH b"
  "SERVER_CERT_KEY_PATH b \<noteq> SERVER_CERT_PATH b" "SERVER_CERT_PATH b \<noteq> SERVER_CERT_KEY_PATH b"
  by (simp_all add: CA_CERT_PATH_def SERVER_CERT_PATH_def SERVER_CERT_KEY_PATH_def SRV_CERT_PATH_def SRV_KEY_PATH_def lit_def)

section \<open>Keys and certificates in files\<close>

definition save_private_key :: "prims \<Rightarrow> int \<Rightarrow> pystr \<Rightarrow> file_system \<Rightarrow> file_system" where
  "save_private_key P = save_object (pem_key P)"

definition save_certificate :: "prims \<Rightarrow> x509_cert \<Rightarrow> pystr \<Rightarrow> file_system \<Rightarrow> file_system" where
  "save_certificate P = save_object (pem_cert P)"

definition load_private_key :: "prims \<Rightarrow> pystr \<Rightarrow> file_system \<Rightarrow> int res" where
  "load_private_key P = load_object (pem_load_key P)"

definition load_certificate :: "prims \<Rightarrow> pystr \<Rightarrow> file_system \<Rightarrow> x509_cert res" where
  "load_certificate P = load_object (pem_load_cert P)"

interpretation cert_file: file_object "pem_cert P" "pem_load_cert P"
    "\<lambda>c. pem_ok P \<and> x509_load_der P (crt_der c) = Inr c" for P
  by unfold_locales (simp add: pem_ok_def)

interpretation key_file: file_object "pem_key P" "pem_load_key P"
    "\<lambda>k. pem_ok P \<and> ec_derive_private_key P k = Inr k" for P
  by unfold_locales (simp add: pem_ok_def)

lemmas file_defs = save_private_key_def save_certificate_def load_private_key_def load_certificate_def

section \<open>The bootstrap\<close>

text \<open>The generated keys and serial numbers, and the three clock readings.\<close>

record pki_random =
  pr_ca_key :: bytes
  pr_ca_serial :: int
  pr_srv_key :: int
  pr_srv_serial :: int
  pr_now_ca :: int
  pr_now_srv :: int
  pr_now_check :: int

definition pki_missing :: "pystr \<Rightarrow> file_system \<Rightarrow> bool" where
  "pki_missing base fs \<longleftrightarrow> fs (CA_CERT_PATH base) = None \<or> fs (SERVER_CERT_PATH base) = None \<or>
     fs (SERVER_CERT_KEY_PATH base) = None"

definition bootstrap_pki :: "prims \<Rightarrow> pystr \<Rightarrow> bool \<Rightarrow> pki_random \<Rightarrow> (file_system, unit) st_res" where
  "bootstrap_pki P base force rnd fs =
     (if \<not> force \<and> \<not> pki_missing base fs then (Inr (), fs)
      else
        let (ca_key, ca_cert) = generate_ca P (pr_ca_key rnd) (pr_ca_serial rnd) (pr_now_ca rnd);
            (srv_key, srv_cert) = generate_server_cert P ca_key ca_cert (pr_srv_key rnd) (pr_srv_serial rnd) (pr_now_srv rnd);
            fs = save_certificate P ca_cert (CA_CERT_PATH base) fs;
            fs = save_private_key P srv_key (SERVER_CERT_KEY_PATH base) fs;
            fs = save_certificate P srv_cert (SERVER_CERT_PATH base) fs in
        (bindE (encode_cert_chain ca_cert srv_cert) (\<lambda>chain.
         bindE (verify_certificate_chain P chain (lit ''localhost'') (Some ca_cert)
                  (load_certificate P (CA_CERT_PATH base) fs) (pr_now_check rnd)) (\<lambda>_.
           Inr ())), fs))"

text \<open>The generated certificates, and what the code relies on for them: documented behaviour of the builder.\<close>

definition generated_ca :: "prims \<Rightarrow> pki_random \<Rightarrow> x509_cert" where
  "generated_ca P rnd = snd (generate_ca P (pr_ca_key rnd) (pr_ca_serial rnd) (pr_now_ca rnd))"

definition generated_server :: "prims \<Rightarrow> pki_random \<Rightarrow> x509_cert" where
  "generated_server P rnd = snd (generate_server_cert P (pr_ca_key rnd) (generated_ca P rnd) (pr_srv_key rnd)
     (pr_srv_serial rnd) (pr_now_srv rnd))"

definition generation_ok :: "prims \<Rightarrow> pki_random \<Rightarrow> bool" where
  "generation_ok P rnd \<longleftrightarrow> pem_ok P \<and> ec_derive_private_key P (pr_srv_key rnd) = Inr (pr_srv_key rnd) \<and>
     x509_sign_ok P (pr_ca_key rnd) (pr_ca_serial rnd)
       (ca_template (Ed25519Key (ed25519_public P (pr_ca_key rnd))) (pr_now_ca rnd)) \<and>
     x509_sign_ok P (pr_ca_key rnd) (pr_srv_serial rnd)
       (server_template (EcKey (ec_public_bytes P (pr_srv_key rnd))) (generated_ca P rnd)
         (Ed25519Key (ed25519_public P (pr_ca_key rnd))) (pr_now_srv rnd))"

text \<open>The validity period of the generated server certificate.\<close>

definition within_validity :: "pki_random \<Rightarrow> int \<Rightarrow> bool" where
  "within_validity rnd now \<longleftrightarrow> pr_now_srv rnd - 60 \<le> now \<and> now \<le> pr_now_srv rnd - 60 + SERVER_VALIDITY_DAYS * 86400"

lemma generated_eq:
  "generated_ca P rnd = x509_sign P (pr_ca_key rnd) (pr_ca_serial rnd)
     (ca_template (Ed25519Key (ed25519_public P (pr_ca_key rnd))) (pr_now_ca rnd))"
  "generated_server P rnd = x509_sign P (pr_ca_key rnd) (pr_srv_serial rnd)
     (server_template (EcKey (ec_public_bytes P (pr_srv_key rnd))) (generated_ca P rnd)
        (Ed25519Key (ed25519_public P (pr_ca_key rnd))) (pr_now_srv rnd))"
  by (simp_all add: generated_ca_def generated_server_def generate_ca_def generate_server_cert_def)

lemma generated_facts:
  assumes "generation_ok P rnd"
  shows "x509_load_der P (crt_der (generated_ca P rnd)) = Inr (generated_ca P rnd)"
    and "x509_load_der P (crt_der (generated_server P rnd)) = Inr (generated_server P rnd)"
    and "crt_public_key (generated_server P rnd) = EcKey (ec_public_bytes P (pr_srv_key rnd))"
    and "pem_ok P" and "ec_derive_private_key P (pr_srv_key rnd) = Inr (pr_srv_key rnd)"
    and "within_validity rnd now \<Longrightarrow> \<exists>chain. encode_cert_chain (generated_ca P rnd) (generated_server P rnd) = Inr chain \<and>
      verify_certificate_chain P chain (lit ''localhost'') (Some (generated_ca P rnd)) loaded now = Inr (generated_server P rnd)"
    and "within_validity rnd now \<Longrightarrow> good_server_cert P (generated_ca P rnd) (lit ''localhost'') now (generated_server P rnd)"
proof -
  let ?ca = "generated_ca P rnd" and ?srv = "generated_server P rnd"
  have g: "x509_sign_ok P (pr_ca_key rnd) (pr_ca_serial rnd)
       (ca_template (Ed25519Key (ed25519_public P (pr_ca_key rnd))) (pr_now_ca rnd))"
    "x509_sign_ok P (pr_ca_key rnd) (pr_srv_serial rnd)
       (server_template (EcKey (ec_public_bytes P (pr_srv_key rnd))) ?ca
         (Ed25519Key (ed25519_public P (pr_ca_key rnd))) (pr_now_srv rnd))"
    "pem_ok P" "ec_derive_private_key P (pr_srv_key rnd) = Inr (pr_srv_key rnd)"
    using assms by (simp_all add: generation_ok_def)
  show "x509_load_der P (crt_der ?ca) = Inr ?ca"
    using g(1) by (simp add: x509_sign_ok_def generated_eq Let_def)
  show "x509_load_der P (crt_der ?srv) = Inr ?srv" "crt_public_key ?srv = EcKey (ec_public_bytes P (pr_srv_key rnd))"
    using g(2) unfolding x509_sign_ok_def Let_def generated_eq(2) [symmetric] by (simp_all add: server_template_def Let_def)
  show "pem_ok P" "ec_derive_private_key P (pr_srv_key rnd) = Inr (pr_srv_key rnd)" by (rule g(3,4))+
  show chain: "\<exists>chain. encode_cert_chain ?ca ?srv = Inr chain \<and>
      verify_certificate_chain P chain (lit ''localhost'') (Some ?ca) loaded now = Inr ?srv" if "within_validity rnd now" for now loaded
    using generated_chain_good [OF g(1) generated_eq(1) g(2) generated_eq(2)] that by (simp add: within_validity_def)
  show "good_server_cert P ?ca (lit ''localhost'') now ?srv" if "within_validity rnd now"
    using chain [OF that, of "Inr ?ca"] by (auto simp: verify_certificate_chain_Inr)
qed

text \<open>The disk the bootstrap leaves when it generates.\<close>

definition pki_saved :: "prims \<Rightarrow> pystr \<Rightarrow> pki_random \<Rightarrow> file_system \<Rightarrow> file_system" where
  "pki_saved P base rnd fs = fs(CA_CERT_PATH base \<mapsto> pem_cert P (generated_ca P rnd),
     SERVER_CERT_KEY_PATH base \<mapsto> pem_key P (pr_srv_key rnd),
     SERVER_CERT_PATH base \<mapsto> pem_cert P (generated_server P rnd))"

definition self_check :: "prims \<Rightarrow> pki_random \<Rightarrow> unit res" where
  "self_check P rnd = bindE (encode_cert_chain (generated_ca P rnd) (generated_server P rnd)) (\<lambda>chain.
     bindE (verify_certificate_chain P chain (lit ''localhost'') (Some (generated_ca P rnd))
       (Inr (generated_ca P rnd)) (pr_now_check rnd)) (\<lambda>_. Inr ()))"

lemma trusted_given: "verify_certificate_chain P d n (Some c) (load_certificate P path fs) now =
    verify_certificate_chain P d n (Some c) (Inr c) now"
  by (simp add: verify_certificate_chain_def)

lemma bootstrap_generates:
  "force \<or> pki_missing base fs \<Longrightarrow> bootstrap_pki P base force rnd fs = (self_check P rnd, pki_saved P base rnd fs)"
  by (auto simp: bootstrap_pki_def self_check_def pki_saved_def save_certificate_def save_private_key_def save_object_def
      write_file_def generated_ca_def generated_server_def generate_ca_def generate_server_cert_def Let_def
      trusted_given)

lemma bootstrap_keeps: "\<not> pki_missing base fs \<Longrightarrow> bootstrap_pki P base False rnd fs = (Inr (), fs)"
  by (simp add: bootstrap_pki_def)

lemma pki_saved_apply:
  "pki_saved P base rnd fs (CA_CERT_PATH base) = Some (pem_cert P (generated_ca P rnd))"
  "pki_saved P base rnd fs (SERVER_CERT_KEY_PATH base) = Some (pem_key P (pr_srv_key rnd))"
  "pki_saved P base rnd fs (SERVER_CERT_PATH base) = Some (pem_cert P (generated_server P rnd))"
  by (simp_all add: pki_saved_def)

lemma pki_saved_missing [simp]: "\<not> pki_missing base (pki_saved P base rnd fs)"
  by (simp add: pki_missing_def pki_saved_apply)

lemma pki_saved_load:
  assumes "generation_ok P rnd"
  shows "load_certificate P (CA_CERT_PATH base) (pki_saved P base rnd fs) = Inr (generated_ca P rnd)"
    and "load_certificate P (SERVER_CERT_PATH base) (pki_saved P base rnd fs) = Inr (generated_server P rnd)"
    and "load_private_key P (SERVER_CERT_KEY_PATH base) (pki_saved P base rnd fs) = Inr (pr_srv_key rnd)"
  using generated_facts(1,2,4,5) [OF assms]
  by (simp_all add: load_certificate_def load_private_key_def cert_file.load_content key_file.load_content pki_saved_apply)

lemma self_check_ok: "generation_ok P rnd \<Longrightarrow> within_validity rnd (pr_now_check rnd) \<Longrightarrow> self_check P rnd = Inr ()"
  using generated_facts(6) [of P rnd "pr_now_check rnd" "Inr (generated_ca P rnd)"] by (auto simp: self_check_def bindE_def)

section \<open>Specification: a bootstrap of objects\<close>

record pki_objects =
  po_ca :: "x509_cert option"
  po_cert :: "x509_cert option"
  po_key :: "int option"

definition bootstrap_spec :: "prims \<Rightarrow> bool \<Rightarrow> pki_random \<Rightarrow> pki_objects \<Rightarrow> unit res \<times> pki_objects" where
  "bootstrap_spec P force rnd po =
     (if \<not> force \<and> po_ca po \<noteq> None \<and> po_cert po \<noteq> None \<and> po_key po \<noteq> None then (Inr (), po)
      else (self_check P rnd, \<lparr>po_ca = Some (generated_ca P rnd), po_cert = Some (generated_server P rnd),
        po_key = Some (pr_srv_key rnd)\<rparr>))"

definition loaded :: "'a res \<Rightarrow> 'a option" where
  "loaded r = (case r of Inl _ \<Rightarrow> None | Inr x \<Rightarrow> Some x)"

lemma loaded_simps [simp]: "loaded (Inr x) = Some x" "loaded (Inl e) = None"
  by (simp_all add: loaded_def)

definition pki_view :: "prims \<Rightarrow> pystr \<Rightarrow> file_system \<Rightarrow> pki_objects" where
  "pki_view P base fs = \<lparr>po_ca = loaded (load_certificate P (CA_CERT_PATH base) fs),
     po_cert = loaded (load_certificate P (SERVER_CERT_PATH base) fs),
     po_key = loaded (load_private_key P (SERVER_CERT_KEY_PATH base) fs)\<rparr>"

text \<open>No file is damaged: what exists loads.\<close>

definition pki_intact :: "prims \<Rightarrow> pystr \<Rightarrow> file_system \<Rightarrow> bool" where
  "pki_intact P base fs \<longleftrightarrow>
     (fs (CA_CERT_PATH base) = None \<longleftrightarrow> po_ca (pki_view P base fs) = None) \<and>
     (fs (SERVER_CERT_PATH base) = None \<longleftrightarrow> po_cert (pki_view P base fs) = None) \<and>
     (fs (SERVER_CERT_KEY_PATH base) = None \<longleftrightarrow> po_key (pki_view P base fs) = None)"

lemma pki_saved_view: "generation_ok P rnd \<Longrightarrow> pki_view P base (pki_saved P base rnd fs) =
    \<lparr>po_ca = Some (generated_ca P rnd), po_cert = Some (generated_server P rnd), po_key = Some (pr_srv_key rnd)\<rparr>"
  by (simp add: pki_view_def pki_saved_load)

section \<open>Crashes\<close>

text \<open>The states of the disk while the bootstrap writes its three files.\<close>

definition bootstrap_states :: "prims \<Rightarrow> pystr \<Rightarrow> pki_random \<Rightarrow> file_system \<Rightarrow> file_system list" where
  "bootstrap_states P base rnd fs =
     (let ca = pem_cert P (generated_ca P rnd); key = pem_key P (pr_srv_key rnd); srv = pem_cert P (generated_server P rnd);
          fs1 = write_file (CA_CERT_PATH base) ca fs; fs2 = write_file (SERVER_CERT_KEY_PATH base) key fs1 in
      write_file_states (CA_CERT_PATH base) ca fs @ write_file_states (SERVER_CERT_KEY_PATH base) key fs1 @
      write_file_states (SERVER_CERT_PATH base) srv fs2)"

lemma bootstrap_states_last: "last (bootstrap_states P base rnd fs) = snd (bootstrap_pki P base True rnd fs)"
proof -
  have "write_file_states p b f \<noteq> []" for p b f by (simp add: write_file_states_def)
  then show ?thesis
    by (simp add: bootstrap_states_def Let_def bootstrap_generates write_file_states_last write_file_def pki_saved_def)
qed

lemma bootstrap_states_cases:
  assumes "fs' \<in> set (bootstrap_states P base rnd fs)"
  obtains n where "fs' = (pki_saved P base rnd fs)(SERVER_CERT_PATH base \<mapsto> take n (pem_cert P (generated_server P rnd)))"
  | "fs' (SERVER_CERT_PATH base) = fs (SERVER_CERT_PATH base)"
    "\<And>q. q \<noteq> CA_CERT_PATH base \<Longrightarrow> q \<noteq> SERVER_CERT_KEY_PATH base \<Longrightarrow> fs' q = fs q"
  using assms unfolding bootstrap_states_def Let_def
  by (auto simp: write_file_states_def write_file_def pki_saved_def simp del: upt_Suc)


lemma pki_saved_cong:
  "(\<And>q. q \<noteq> CA_CERT_PATH base \<Longrightarrow> q \<noteq> SERVER_CERT_KEY_PATH base \<Longrightarrow> q \<noteq> SERVER_CERT_PATH base \<Longrightarrow> fs' q = fs q) \<Longrightarrow>
    pki_saved P base rnd fs' = pki_saved P base rnd fs"
  by (rule ext) (simp add: pki_saved_def)

text \<open>A server certificate that the CA on the disk has not signed is rejected under every chain the server can send.\<close>

lemma foreign_chain_rejected:
  assumes "x509_load_der P (crt_der ca) = Inr ca" and "x509_load_der P (crt_der srv) = Inr srv" and "\<not> cert_signed P ca srv"
    and "encode_cert_chain ca srv = Inr chain"
  shows "\<exists>e. verify_certificate_chain P chain name None (Inr ca) now = Inl e"
proof (cases "verify_certificate_chain P chain name None (Inr ca) now")
  case (Inr c)
  then obtain w where "decode_cert_chain P chain = Inr (w, c)" "cert_signed P ca c"
    by (auto simp: verify_certificate_chain_Inr good_server_cert_def)
  with cert_chain_canonical [of P chain w c ca srv chain] assms show ?thesis by simp
qed simp

section \<open>Properties\<close>

text \<open>
  C31: the bootstrap yields a working PKI on any disk that lacks one of the three files, or when
  forced: with a certificate builder that does what it is told, it passes its own self-check, the key
  and certificates load back, the certificate certifies the key, the chain of the two certificates is
  accepted against the CA file for as long as the server certificate is valid, no other file is
  touched, and later bootstraps leave the disk alone.
\<close>

theorem bootstrap_pki_works:
  assumes "generation_ok P rnd" and "force \<or> pki_missing base fs" and "within_validity rnd (pr_now_check rnd)"
  shows "\<exists>fs' ca srv key. bootstrap_pki P base force rnd fs = (Inr (), fs') \<and>
    load_certificate P (CA_CERT_PATH base) fs' = Inr ca \<and> load_certificate P (SERVER_CERT_PATH base) fs' = Inr srv \<and>
    load_private_key P (SERVER_CERT_KEY_PATH base) fs' = Inr key \<and> crt_public_key srv = EcKey (ec_public_bytes P key) \<and>
    (\<forall>now. within_validity rnd now \<longrightarrow> (\<exists>chain. encode_cert_chain ca srv = Inr chain \<and>
       verify_certificate_chain P chain (lit ''localhost'') None (load_certificate P (CA_CERT_PATH base) fs') now = Inr srv)) \<and>
    (\<forall>q. q \<notin> {CA_CERT_PATH base, SERVER_CERT_PATH base, SERVER_CERT_KEY_PATH base} \<longrightarrow> fs' q = fs q) \<and>
    (\<forall>rnd'. bootstrap_pki P base False rnd' fs' = (Inr (), fs'))"
proof -
  let ?fs = "pki_saved P base rnd fs"
  have "verify_certificate_chain P chain n None (Inr ca) now = verify_certificate_chain P chain n (Some ca) (Inr ca) now"
    for chain n ca now by (simp add: verify_certificate_chain_def)
  then have "\<exists>chain. encode_cert_chain (generated_ca P rnd) (generated_server P rnd) = Inr chain \<and>
      verify_certificate_chain P chain (lit ''localhost'') None (load_certificate P (CA_CERT_PATH base) ?fs) now =
        Inr (generated_server P rnd)" if "within_validity rnd now" for now
    using generated_facts(6) [OF assms(1) that] by (simp add: pki_saved_load [OF assms(1)])
  moreover have "\<forall>q. q \<notin> {CA_CERT_PATH base, SERVER_CERT_PATH base, SERVER_CERT_KEY_PATH base} \<longrightarrow> ?fs q = fs q"
    by (simp add: pki_saved_def)
  ultimately show ?thesis
    by (rule_tac exI [of _ ?fs], rule_tac exI [of _ "generated_ca P rnd"], rule_tac exI [of _ "generated_server P rnd"],
        rule_tac exI [of _ "pr_srv_key rnd"])
      (simp add: pki_saved_load [OF assms(1)] generated_facts(3) [OF assms(1)] self_check_ok [OF assms(1,3)]
        bootstrap_generates [OF assms(2)] bootstrap_keeps)
qed

definition sample_pki_random :: pki_random where
  "sample_pki_random = \<lparr>pr_ca_key = [9], pr_ca_serial = 1, pr_srv_key = 5, pr_srv_serial = 2, pr_now_ca = 1000,
     pr_now_srv = 1000, pr_now_check = 1001\<rparr>"

lemma sample_generated:
  "generated_ca sample sample_pki_random = sample_ca" "generated_server sample sample_pki_random = sample_server"
  by (simp_all add: sample_pki_random_def generated_eq sample_sign_def ca_template_def server_template_def
      sample_ca_def sample_server_def ca_name_def server_name_def Let_def)

lemma sample_generation_ok: "generation_ok sample sample_pki_random" "within_validity sample_pki_random 1001"
proof -
  show "within_validity sample_pki_random 1001" by (simp add: within_validity_def sample_pki_random_def)
  have "x509_sign_ok sample [9] 1 (ca_template (Ed25519Key (ed25519_public sample [9])) 1000)"
    using sample_generated(1) by (simp add: x509_sign_ok_def generated_eq sample_pki_random_def Let_def)
      (simp add: sample_ca_def ca_template_def ca_name_def Let_def)
  moreover have "x509_sign_ok sample [9] 2 (server_template (EcKey (ec_public_bytes sample 5)) sample_ca
      (Ed25519Key (ed25519_public sample [9])) 1000)"
    using sample_generated by (simp add: x509_sign_ok_def generated_eq(2) sample_pki_random_def Let_def)
      (simp add: sample_server_def sample_ca_def server_template_def server_name_def Let_def)
  ultimately show "generation_ok sample sample_pki_random"
    using sample_generated(1) by (simp add: generation_ok_def) (simp add: sample_pki_random_def)
qed

theorem bootstrap_pki_works_witness:
  "fst (bootstrap_pki sample [] False sample_pki_random Map.empty) = Inr ()"
proof -
  have "False \<or> pki_missing [] Map.empty" by (simp add: pki_missing_def)
  moreover have "within_validity sample_pki_random (pr_now_check sample_pki_random)"
    using sample_generation_ok(2) by (simp add: sample_pki_random_def)
  ultimately obtain fs' where "bootstrap_pki sample [] False sample_pki_random Map.empty = (Inr (), fs')"
    using bootstrap_pki_works [OF sample_generation_ok(1), of False "[]" Map.empty] by blast
  then show ?thesis by simp
qed

text \<open>
  C32: the bootstrap on the disk refines the bootstrap of objects: as long as no file is damaged, it returns
  the same result, what then loads from the disk are the objects of the specification, and no file is
  damaged by it.
\<close>

theorem bootstrap_refines_spec:
  assumes "pki_intact P base fs" and "generation_ok P rnd"
  shows "fst (bootstrap_pki P base force rnd fs) = fst (bootstrap_spec P force rnd (pki_view P base fs)) \<and>
    pki_view P base (snd (bootstrap_pki P base force rnd fs)) = snd (bootstrap_spec P force rnd (pki_view P base fs)) \<and>
    pki_intact P base (snd (bootstrap_pki P base force rnd fs))"
proof (cases "force \<or> pki_missing base fs")
  case True
  moreover from this have "force \<or> \<not> (po_ca (pki_view P base fs) \<noteq> None \<and> po_cert (pki_view P base fs) \<noteq> None \<and>
      po_key (pki_view P base fs) \<noteq> None)"
    using assms(1) by (auto simp: pki_intact_def pki_missing_def)
  ultimately show ?thesis
    using pki_saved_view [OF assms(2), of base fs]
    by (auto simp: bootstrap_generates bootstrap_spec_def pki_intact_def pki_saved_apply)
next
  case False
  with assms(1) show ?thesis by (auto simp: bootstrap_keeps bootstrap_spec_def pki_intact_def pki_missing_def)
qed

theorem bootstrap_refines_spec_witness:
  "pki_view sample [] (snd (bootstrap_pki sample [] False sample_pki_random Map.empty)) =
     \<lparr>po_ca = Some sample_ca, po_cert = Some sample_server, po_key = Some 5\<rparr>"
proof -
  have v: "pki_view sample [] Map.empty = \<lparr>po_ca = None, po_cert = None, po_key = None\<rparr>"
    by (simp add: pki_view_def load_certificate_def load_private_key_def load_object_missing raise_def)
  then have "pki_intact sample [] Map.empty" by (simp add: pki_intact_def)
  from bootstrap_refines_spec [OF this sample_generation_ok(1), of False] show ?thesis
    by (simp add: v bootstrap_spec_def sample_generated) (simp add: sample_pki_random_def)
qed

text \<open>
  A crash of the first bootstrap: when there was no server certificate and the process dies at any
  point of its writes, then either the next start generates everything anew and works, or the crash
  fell into the last write and has cut the server certificate short, and no later start repairs it.
\<close>

theorem bootstrap_crash:
  assumes "fs (SERVER_CERT_PATH base) = None" and "fs' \<in> set (bootstrap_states P base rnd fs)"
    and "generation_ok P rnd'" and "within_validity rnd' (pr_now_check rnd')"
  shows "bootstrap_pki P base False rnd' fs' = (Inr (), pki_saved P base rnd' fs) \<or>
    (\<exists>n. fs' = (pki_saved P base rnd fs)(SERVER_CERT_PATH base \<mapsto> take n (pem_cert P (generated_server P rnd)))) \<and>
      bootstrap_pki P base False rnd' fs' = (Inr (), fs')"
  using assms(2)
proof (cases rule: bootstrap_states_cases)
  case (1 n)
  then have "\<not> pki_missing base fs'" by (simp add: pki_missing_def pki_saved_def)
  with 1 show ?thesis by (auto simp: bootstrap_keeps)
next
  case 2
  then have "pki_missing base fs'" by (simp add: pki_missing_def assms(1))
  moreover have "pki_saved P base rnd' fs' = pki_saved P base rnd' fs"
    by (rule pki_saved_cong) (simp add: 2)
  ultimately show ?thesis using self_check_ok [OF assms(3,4)] by (simp add: bootstrap_generates)
qed

theorem bootstrap_crash_witness:
  "fst (bootstrap_pki sample [] False sample_pki_random
     (write_file (CA_CERT_PATH []) (pem_cert sample sample_ca) Map.empty)) = Inr ()"
proof -
  let ?fs = "write_file (CA_CERT_PATH []) (pem_cert sample sample_ca) Map.empty"
  have "last (write_file_states (CA_CERT_PATH []) (pem_cert sample sample_ca) Map.empty) \<in>
      set (write_file_states (CA_CERT_PATH []) (pem_cert sample sample_ca) Map.empty)"
    by (rule last_in_set) (simp add: write_file_states_def)
  then have "?fs \<in> set (bootstrap_states sample [] sample_pki_random Map.empty)"
    by (simp add: bootstrap_states_def sample_generated Let_def write_file_states_last)
  moreover have "within_validity sample_pki_random (pr_now_check sample_pki_random)"
    using sample_generation_ok(2) by (simp add: sample_pki_random_def)
  ultimately show ?thesis
    using bootstrap_crash [OF _ _ sample_generation_ok(1), of Map.empty "[]" ?fs sample_pki_random] by fastforce
qed

text \<open>
  The bootstrap is not crash-safe on a disk that has a server key and certificate (a forced run, or one
  after the CA file was lost): a crash right after the CA file was written is a state of its writes
  after which every later start finds its three files and keeps them, while every client that reads
  the CA file rejects the server, for good, because the old certificate is not signed by the new CA.
\<close>

theorem bootstrap_crash_stuck:
  assumes "generation_ok P rnd" and "fs (SERVER_CERT_PATH base) \<noteq> None" and "fs (SERVER_CERT_KEY_PATH base) \<noteq> None"
    and "load_certificate P (SERVER_CERT_PATH base) fs = Inr srv" and "\<not> cert_signed P (generated_ca P rnd) srv"
    and "x509_load_der P (crt_der srv) = Inr srv"
  shows "\<exists>fs' \<in> set (bootstrap_states P base rnd fs).
    (\<forall>rnd'. bootstrap_pki P base False rnd' fs' = (Inr (), fs')) \<and>
    load_certificate P (SERVER_CERT_PATH base) fs' = Inr srv \<and>
    (\<forall>ca chain name now. load_certificate P (CA_CERT_PATH base) fs' = Inr ca \<longrightarrow> encode_cert_chain ca srv = Inr chain \<longrightarrow>
       (\<exists>e. verify_certificate_chain P chain name None (load_certificate P (CA_CERT_PATH base) fs') now = Inl e))"
proof -
  let ?ca = "generated_ca P rnd"
  let ?fs = "write_file (CA_CERT_PATH base) (pem_cert P ?ca) fs"
  have ca: "load_certificate P (CA_CERT_PATH base) ?fs = Inr ?ca"
    using generated_facts(1,4) [OF assms(1)] by (simp add: load_certificate_def cert_file.load_content)
  have "last (write_file_states (CA_CERT_PATH base) (pem_cert P ?ca) fs) \<in> set (write_file_states (CA_CERT_PATH base) (pem_cert P ?ca) fs)"
    by (rule last_in_set) (simp add: write_file_states_def)
  then have "?fs \<in> set (bootstrap_states P base rnd fs)"
    by (simp add: bootstrap_states_def Let_def write_file_states_last)
  moreover have "\<not> pki_missing base ?fs" using assms(2,3) by (simp add: pki_missing_def)
  moreover have "load_certificate P (SERVER_CERT_PATH base) ?fs = Inr srv"
    using assms(4) load_object_cong [of ?fs "SERVER_CERT_PATH base" fs "pem_load_cert P"] by (simp add: load_certificate_def)
  moreover have "\<exists>e. verify_certificate_chain P chain name None (Inr ?ca) now = Inl e" if "encode_cert_chain ?ca srv = Inr chain" for chain name now
    by (rule foreign_chain_rejected [OF generated_facts(1) [OF assms(1)] assms(6,5) that])
  ultimately show ?thesis using ca by (intro bexI [of _ ?fs]) (auto simp: bootstrap_keeps)
qed

theorem bootstrap_crash_stuck_witness:
  "\<exists>fs. \<forall>rnd'. bootstrap_pki sample [] False rnd' fs = (Inr (), fs) \<and>
     load_certificate sample (SERVER_CERT_PATH []) fs = Inr sample_foreign"
proof -
  let ?fs = "[SERVER_CERT_PATH [] \<mapsto> pem_cert sample sample_foreign, SERVER_CERT_KEY_PATH [] \<mapsto> pem_key sample 5]"
  have f: "x509_load_der sample (crt_der sample_foreign) = Inr sample_foreign" by (simp add: sample_foreign_def)
  then have l: "load_certificate sample (SERVER_CERT_PATH []) ?fs = Inr sample_foreign"
    by (simp add: load_certificate_def cert_file.load_content)
  have "\<not> cert_signed sample (generated_ca sample sample_pki_random) sample_foreign"
    by (simp add: sample_generated cert_signed_def sample_ca_def sample_foreign_def)
  from bootstrap_crash_stuck [OF sample_generation_ok(1) _ _ l this f] show ?thesis by fastforce
qed

end
