(* ===== verification/Pki_Race.thy ===== *)
theory Pki_Race
  imports Prelude Connection Primitives Sample_Primitives Pki File_System Pki_Files
begin

text \<open>
  Programs that bootstrap the PKI at the same time.  The server and both clients call \<open>bootstrap_pki\<close>
  when they start, and nothing keeps them apart: the test for the three files and the three writes of
  several processes can interleave.  The test is one step here and so is each write, which is less
  than what the operating system may interleave; it is enough to break the PKI.
\<close>

section \<open>A bootstrap in steps\<close>

text \<open>Before the test, before each of the writes and before the self-check; \<open>Boot_kept\<close>: the files were there.\<close>

datatype boot_pc = Boot_test | Boot_ca | Boot_key | Boot_cert | Boot_check | Boot_kept | Boot_done "unit res"

record booting =
  bo_random :: pki_random
  bo_pc :: boot_pc

definition boot_new :: "pki_random \<Rightarrow> booting" where
  "boot_new rnd = \<lparr>bo_random = rnd, bo_pc = Boot_test\<rparr>"

definition boot_step :: "prims \<Rightarrow> pystr \<Rightarrow> booting \<Rightarrow> file_system \<Rightarrow> booting \<times> file_system" where
  "boot_step P base b fs =
     (let rnd = bo_random b in
      case bo_pc b of
        Boot_test \<Rightarrow> (b\<lparr>bo_pc := (if pki_missing base fs then Boot_ca else Boot_kept)\<rparr>, fs)
      | Boot_ca \<Rightarrow> (b\<lparr>bo_pc := Boot_key\<rparr>, save_certificate P (generated_ca P rnd) (CA_CERT_PATH base) fs)
      | Boot_key \<Rightarrow> (b\<lparr>bo_pc := Boot_cert\<rparr>, save_private_key P (pr_srv_key rnd) (SERVER_CERT_KEY_PATH base) fs)
      | Boot_cert \<Rightarrow> (b\<lparr>bo_pc := Boot_check\<rparr>, save_certificate P (generated_server P rnd) (SERVER_CERT_PATH base) fs)
      | Boot_check \<Rightarrow> (b\<lparr>bo_pc := Boot_done (self_check P rnd)\<rparr>, fs)
      | Boot_kept \<Rightarrow> (b, fs)
      | Boot_done r \<Rightarrow> (b, fs))"

text \<open>A schedule says whose turn it is.\<close>

fun boot_schedule :: "prims \<Rightarrow> pystr \<Rightarrow> nat list \<Rightarrow> booting list \<times> file_system \<Rightarrow> booting list \<times> file_system" where
  "boot_schedule P base [] st = st"
| "boot_schedule P base (i # is) (bs, fs) =
     boot_schedule P base is
       (if i < length bs then (case boot_step P base (bs ! i) fs of (b, fs) \<Rightarrow> (bs[i := b], fs)) else (bs, fs))"

text \<open>Alone, the steps are \<open>bootstrap_pki\<close>.\<close>

definition boot_result :: "boot_pc \<Rightarrow> unit res option" where
  "boot_result pc = (case pc of Boot_kept \<Rightarrow> Some (Inr ()) | Boot_done r \<Rightarrow> Some r | _ \<Rightarrow> None)"

lemmas boot_simps = boot_step_def save_certificate_def save_private_key_def save_object_def write_file_def

lemma boot_alone:
  "\<exists>b. boot_schedule P base [0, 0, 0, 0, 0] ([boot_new rnd], fs) = ([b], snd (bootstrap_pki P base False rnd fs)) \<and>
     boot_result (bo_pc b) = Some (fst (bootstrap_pki P base False rnd fs))"
proof (cases "pki_missing base fs")
  case True
  then show ?thesis
    by (simp add: boot_new_def boot_simps boot_result_def bootstrap_generates pki_saved_def)
next
  case False
  then show ?thesis by (simp add: boot_new_def boot_step_def boot_result_def bootstrap_keeps)
qed

section \<open>What a race can leave behind\<close>

text \<open>The three files, with what a process writes to each and the point after which it has done so.\<close>

fun boot_rank :: "boot_pc \<Rightarrow> nat" where
  "boot_rank Boot_test = 0"
| "boot_rank Boot_kept = 0"
| "boot_rank Boot_ca = 0"
| "boot_rank Boot_key = 1"
| "boot_rank Boot_cert = 2"
| "boot_rank Boot_check = 3"
| "boot_rank (Boot_done r) = 3"

definition boot_files :: "prims \<Rightarrow> pystr \<Rightarrow> (pystr \<times> nat \<times> (pki_random \<Rightarrow> bytes)) list" where
  "boot_files P base =
     [(CA_CERT_PATH base, 0, \<lambda>rnd. pem_cert P (generated_ca P rnd)),
      (SERVER_CERT_KEY_PATH base, 1, \<lambda>rnd. pem_key P (pr_srv_key rnd)),
      (SERVER_CERT_PATH base, 2, \<lambda>rnd. pem_cert P (generated_server P rnd))]"

text \<open>A file is the initial one until a process has written it, and then what one of those that have written it wrote.\<close>

definition written_by :: "file_system \<Rightarrow> booting list \<Rightarrow> file_system \<Rightarrow> pystr \<times> nat \<times> (pki_random \<Rightarrow> bytes) \<Rightarrow> bool" where
  "written_by fs0 bs fs f = (case f of (path, n, content) \<Rightarrow>
     (if \<exists>b \<in> set bs. n < boot_rank (bo_pc b)
      then \<exists>b \<in> set bs. n < boot_rank (bo_pc b) \<and> fs path = Some (content (bo_random b))
      else fs path = fs0 path))"

definition race_inv :: "prims \<Rightarrow> pystr \<Rightarrow> file_system \<Rightarrow> booting list \<Rightarrow> file_system \<Rightarrow> bool" where
  "race_inv P base fs0 bs fs \<longleftrightarrow>
     (\<forall>f \<in> set (boot_files P base). written_by fs0 bs fs f) \<and> ((\<exists>b \<in> set bs. bo_pc b = Boot_kept) \<longrightarrow> \<not> pki_missing base fs) \<and>
     (\<forall>q. q \<notin> fst ` set (boot_files P base) \<longrightarrow> fs q = fs0 q)"

lemma ex_set_conv_nth: "(\<exists>x \<in> set xs. Q x) \<longleftrightarrow> (\<exists>j < length xs. Q (xs ! j))"
  by (metis in_set_conv_nth)

lemma ex_set_update:
  assumes "i < length bs" and "Q b \<longleftrightarrow> Q (bs ! i)"
  shows "(\<exists>x \<in> set (bs[i := b]). Q x) \<longleftrightarrow> (\<exists>x \<in> set bs. Q x)"
proof -
  have "Q (bs[i := b] ! j) \<longleftrightarrow> Q (bs ! j)" if "j < length bs" for j
    using assms that by (cases "j = i") simp_all
  then show ?thesis unfolding ex_set_conv_nth by (metis length_list_update)
qed

lemma boot_step_effect:
  assumes "boot_step P base b fs = (b', fs')" and "(path, n, content) \<in> set (boot_files P base)"
  shows "bo_random b' = bo_random b" and "boot_rank (bo_pc b) \<le> boot_rank (bo_pc b')"
    and "fs' path = (if boot_rank (bo_pc b) \<le> n \<and> n < boot_rank (bo_pc b') then Some (content (bo_random b)) else fs path)"
proof -
  show "bo_random b' = bo_random b" "boot_rank (bo_pc b) \<le> boot_rank (bo_pc b')"
    using assms(1) by (cases "bo_pc b"; force simp: boot_simps)+
  show "fs' path = (if boot_rank (bo_pc b) \<le> n \<and> n < boot_rank (bo_pc b') then Some (content (bo_random b)) else fs path)"
    using assms by (cases "bo_pc b") (auto simp: boot_simps boot_files_def split: if_splits)
qed

lemma boot_step_other: "boot_step P base b fs = (b', fs') \<Longrightarrow> q \<notin> fst ` set (boot_files P base) \<Longrightarrow> fs' q = fs q"
  by (cases "bo_pc b") (auto simp: boot_simps boot_files_def)

lemma boot_step_kept: "boot_step P base b fs = (b', fs') \<Longrightarrow> bo_pc b' = Boot_kept \<Longrightarrow> bo_pc b = Boot_kept \<or> \<not> pki_missing base fs"
  by (cases "bo_pc b") (auto simp: boot_simps split: if_splits)

lemma boot_step_present: "boot_step P base b fs = (b', fs') \<Longrightarrow> \<not> pki_missing base fs \<Longrightarrow> \<not> pki_missing base fs'"
  by (cases "bo_pc b") (auto simp: boot_simps pki_missing_def)

lemma written_by_step:
  assumes "i < length bs" and "boot_step P base (bs ! i) fs = (b, fs')" and f: "f \<in> set (boot_files P base)"
    and w: "written_by fs0 bs fs f"
  shows "written_by fs0 (bs[i := b]) fs' f"
proof -
  obtain path n content where f': "f = (path, n, content)" by (cases f) auto
  note e = boot_step_effect [OF assms(2) f [unfolded f']]
  show ?thesis
  proof (cases "boot_rank (bo_pc (bs ! i)) \<le> n \<and> n < boot_rank (bo_pc b)")
    case True
    moreover have "b \<in> set (bs[i := b])" using assms(1) by (rule set_update_memI)
    ultimately show ?thesis using e unfolding f' written_by_def by auto
  next
    case False
    then have r: "n < boot_rank (bo_pc b) \<longleftrightarrow> n < boot_rank (bo_pc (bs ! i))" using e(2) by auto
    have "(\<exists>x \<in> set (bs[i := b]). n < boot_rank (bo_pc x)) \<longleftrightarrow> (\<exists>x \<in> set bs. n < boot_rank (bo_pc x))"
      by (rule ex_set_update [OF assms(1)]) (rule r)
    moreover have "(\<exists>x \<in> set (bs[i := b]). n < boot_rank (bo_pc x) \<and> fs path = Some (content (bo_random x))) \<longleftrightarrow>
        (\<exists>x \<in> set bs. n < boot_rank (bo_pc x) \<and> fs path = Some (content (bo_random x)))"
      by (rule ex_set_update [OF assms(1)]) (simp add: r e(1))
    moreover have "fs' path = fs path" using e(3) False by auto
    ultimately show ?thesis using w unfolding f' written_by_def by simp
  qed
qed

lemma race_inv_step:
  assumes "i < length bs" and "boot_step P base (bs ! i) fs = (b, fs')" and inv: "race_inv P base fs0 bs fs"
  shows "race_inv P base fs0 (bs[i := b]) fs'"
proof -
  have "\<not> pki_missing base fs'" if "x \<in> set (bs[i := b])" "bo_pc x = Boot_kept" for x
  proof -
    have "x = b \<or> x \<in> set bs" using that(1) set_update_subset_insert [of bs i b] by auto
    then have "\<not> pki_missing base fs"
      using boot_step_kept [OF assms(2)] that(2) inv assms(1) unfolding race_inv_def by (metis nth_mem)
    then show ?thesis by (rule boot_step_present [OF assms(2)])
  qed
  then show ?thesis
    using inv written_by_step [OF assms(1,2)] boot_step_other [OF assms(2)] unfolding race_inv_def by auto
qed

lemma race_inv_schedule:
  "race_inv P base fs0 bs fs \<Longrightarrow> boot_schedule P base is (bs, fs) = (bs', fs') \<Longrightarrow> race_inv P base fs0 bs' fs'"
proof (induction "is" arbitrary: bs fs)
  case (Cons i "is")
  show ?case
  proof (cases "i < length bs")
    case True
    obtain b fs1 where b: "boot_step P base (bs ! i) fs = (b, fs1)" by fastforce
    with Cons.prems(2) True have "boot_schedule P base is (bs[i := b], fs1) = (bs', fs')" by simp
    with Cons.IH race_inv_step [OF True b Cons.prems(1)] show ?thesis by blast
  next
    case False
    with Cons.prems Cons.IH show ?thesis by simp
  qed
qed simp

lemma boot_schedule_random:
  "boot_schedule P base is (bs, fs) = (bs', fs') \<Longrightarrow> map bo_random bs' = map bo_random bs"
proof (induction "is" arbitrary: bs fs)
  case (Cons i "is")
  show ?case
  proof (cases "i < length bs")
    case True
    obtain b fs1 where b: "boot_step P base (bs ! i) fs = (b, fs1)" by fastforce
    have r: "bo_random b = bo_random (bs ! i)"
      using boot_step_effect(1) [OF b, of "CA_CERT_PATH base"] by (auto simp: boot_files_def)
    from b Cons.prems True have "boot_schedule P base is (bs[i := b], fs1) = (bs', fs')" by simp
    from Cons.IH [OF this] r True show ?thesis
      by (simp add: map_update list_update_same_conv)
  next
    case False
    with Cons.prems Cons.IH show ?thesis by simp
  qed
qed simp

section \<open>Properties\<close>



text \<open>
  C34: two programs that start at once on a disk without PKI can break it for good: there is a
  schedule after which both have passed their self-check and every later start finds three whole files
  and keeps them, but the CA on the disk is of one process and the server certificate of the other, so
  that no chain the server can send is accepted against the CA file, under any name and at any time.
\<close>

theorem bootstrap_race_breaks:
  assumes "pki_missing base fs" and "generation_ok P rnd1" and "generation_ok P rnd2"
    and "within_validity rnd1 (pr_now_check rnd1)" and "within_validity rnd2 (pr_now_check rnd2)"
    and "\<not> cert_signed P (generated_ca P rnd2) (generated_server P rnd1)"
  shows "\<exists>is bs fs' ca srv. boot_schedule P base is ([boot_new rnd1, boot_new rnd2], fs) = (bs, fs') \<and>
    (\<forall>b \<in> set bs. boot_result (bo_pc b) = Some (Inr ())) \<and> (\<forall>rnd'. bootstrap_pki P base False rnd' fs' = (Inr (), fs')) \<and>
    load_certificate P (CA_CERT_PATH base) fs' = Inr ca \<and> load_certificate P (SERVER_CERT_PATH base) fs' = Inr srv \<and>
    (\<forall>chain name now. encode_cert_chain ca srv = Inr chain \<longrightarrow>
       (\<exists>e. verify_certificate_chain P chain name None (load_certificate P (CA_CERT_PATH base) fs') now = Inl e))"
proof -
  let ?fs = "fs(CA_CERT_PATH base \<mapsto> pem_cert P (generated_ca P rnd2), SERVER_CERT_KEY_PATH base \<mapsto> pem_key P (pr_srv_key rnd1),
    SERVER_CERT_PATH base \<mapsto> pem_cert P (generated_server P rnd1))"
  let ?done = "\<lambda>rnd. \<lparr>bo_random = rnd, bo_pc = Boot_done (Inr ())\<rparr>"
  have "boot_schedule P base [0, 1, 0, 1, 1, 1, 0, 0, 0, 1] ([boot_new rnd1, boot_new rnd2], fs) = ([?done rnd1, ?done rnd2], ?fs)"
    using assms(1) self_check_ok [OF assms(2,4)] self_check_ok [OF assms(3,5)]
    by (simp add: boot_new_def boot_simps fun_upd_twist)
  moreover have "\<not> pki_missing base ?fs" by (simp add: pki_missing_def)
  moreover have ca: "load_certificate P (CA_CERT_PATH base) ?fs = Inr (generated_ca P rnd2)"
    and "load_certificate P (SERVER_CERT_PATH base) ?fs = Inr (generated_server P rnd1)"
    using generated_facts(1,4) [OF assms(3)] generated_facts(2) [OF assms(2)]
    by (simp_all add: load_certificate_def cert_file.load_content)
  moreover have "\<exists>e. verify_certificate_chain P chain name None (Inr (generated_ca P rnd2)) now = Inl e"
    if "encode_cert_chain (generated_ca P rnd2) (generated_server P rnd1) = Inr chain" for chain name now
    by (rule foreign_chain_rejected [OF generated_facts(1) [OF assms(3)] generated_facts(2) [OF assms(2)] assms(6) that])
  ultimately show ?thesis
    by (intro exI [of _ "[0, 1, 0, 1, 1, 1, 0, 0, 0, 1]"] exI [of _ "[?done rnd1, ?done rnd2]"] exI [of _ ?fs]
        exI [of _ "generated_ca P rnd2"] exI [of _ "generated_server P rnd1"])
      (simp add: boot_result_def bootstrap_keeps)
qed

text \<open>A second process of the sample, with a key and a serial number of its own.\<close>

definition sample_pki_random2 :: pki_random where
  "sample_pki_random2 = sample_pki_random\<lparr>pr_ca_key := [8], pr_ca_serial := 4, pr_srv_serial := 3\<rparr>"

lemma sample_generated2:
  "generated_ca sample sample_pki_random2 = sample_foreign_ca" "generated_server sample sample_pki_random2 = sample_foreign"
  by (simp_all add: sample_pki_random2_def sample_pki_random_def generated_eq sample_sign_def ca_template_def server_template_def
      sample_foreign_ca_def sample_foreign_def sample_ca_def sample_server_def ca_name_def server_name_def Let_def)

lemma sample_generation_ok2: "generation_ok sample sample_pki_random2"
proof -
  have "x509_sign_ok sample [8] 4 (ca_template (Ed25519Key (ed25519_public sample [8])) 1000)"
    using sample_generated2(1) by (simp add: x509_sign_ok_def generated_eq sample_pki_random2_def sample_pki_random_def Let_def)
      (simp add: sample_foreign_ca_def sample_ca_def ca_template_def ca_name_def Let_def)
  moreover have "x509_sign_ok sample [8] 3 (server_template (EcKey (ec_public_bytes sample 5)) sample_foreign_ca
      (Ed25519Key (ed25519_public sample [8])) 1000)"
    using sample_generated2
    by (simp add: x509_sign_ok_def generated_eq(2) sample_pki_random2_def sample_pki_random_def Let_def)
      (simp add: sample_foreign_def sample_foreign_ca_def sample_server_def sample_ca_def server_template_def server_name_def Let_def)
  ultimately show ?thesis
    using sample_generated2(1) by (simp add: generation_ok_def) (simp add: sample_pki_random2_def sample_pki_random_def)
qed

theorem bootstrap_race_breaks_witness:
  "\<exists>is bs fs'. boot_schedule sample [] is ([boot_new sample_pki_random2, boot_new sample_pki_random], Map.empty) = (bs, fs') \<and>
    (\<forall>rnd'. bootstrap_pki sample [] False rnd' fs' = (Inr (), fs'))"
proof -
  have "generation_ok sample sample_pki_random2" by (rule sample_generation_ok2)
  moreover have "within_validity sample_pki_random2 (pr_now_check sample_pki_random2)"
    and "within_validity sample_pki_random (pr_now_check sample_pki_random)"
    by (simp_all add: within_validity_def sample_pki_random_def sample_pki_random2_def)
  moreover have "pki_missing [] Map.empty" by (simp add: pki_missing_def)
  moreover have "\<not> cert_signed sample (generated_ca sample sample_pki_random) (generated_server sample sample_pki_random2)"
    by (simp add: sample_generated sample_generated2 cert_signed_def sample_ca_def sample_foreign_def)
  ultimately show ?thesis using bootstrap_race_breaks [OF _ _ sample_generation_ok(1)] by blast
qed

end
