(* ===== verification/Sha512.thy ===== *)
theory Sha512
  imports Prelude
begin

text \<open>
  SHA-512 and HMAC-SHA512 of Python's \<open>hashlib\<close> and \<open>hmac\<close> modules, which \<open>opaque_adapter.py\<close> uses
  directly (FIPS 180-4 and FIPS 198-1).  A digest has 64 bytes; nothing else about the functions is
  needed by the theorems.
\<close>

unbundle bit_operations_syntax

section \<open>SHA-512\<close>

text \<open>The round constants and the initial state of FIPS 180-4, in decimal.\<close>

definition sha512_k :: "64 word list" where
  "sha512_k = [
    4794697086780616226, 8158064640168781261, 13096744586834688815, 16840607885511220156,
    4131703408338449720, 6480981068601479193, 10538285296894168987, 12329834152419229976,
    15566598209576043074, 1334009975649890238, 2608012711638119052, 6128411473006802146,
    8268148722764581231, 9286055187155687089, 11230858885718282805, 13951009754708518548,
    16472876342353939154, 17275323862435702243, 1135362057144423861, 2597628984639134821,
    3308224258029322869, 5365058923640841347, 6679025012923562964, 8573033837759648693,
    10970295158949994411, 12119686244451234320, 12683024718118986047, 13788192230050041572,
    14330467153632333762, 15395433587784984357, 489312712824947311, 1452737877330783856,
    2861767655752347644, 3322285676063803686, 5560940570517711597, 5996557281743188959,
    7280758554555802590, 8532644243296465576, 9350256976987008742, 10552545826968843579,
    11727347734174303076, 12113106623233404929, 14000437183269869457, 14369950271660146224,
    15101387698204529176, 15463397548674623760, 17586052441742319658, 1182934255886127544,
    1847814050463011016, 2177327727835720531, 2830643537854262169, 3796741975233480872,
    4115178125766777443, 5681478168544905931, 6601373596472566643, 7507060721942968483,
    8399075790359081724, 8693463985226723168, 9568029438360202098, 10144078919501101548,
    10430055236837252648, 11840083180663258601, 13761210420658862357, 14299343276471374635,
    14566680578165727644, 15097957966210449927, 16922976911328602910, 17689382322260857208,
    500013540394364858, 748580250866718886, 1242879168328830382, 1977374033974150939,
    2944078676154940804, 3659926193048069267, 4368137639120453308, 4836135668995329356,
    5532061633213252278, 6448918945643986474, 6902733635092675308, 7801388544844847127]"

definition sha512_h0 :: "64 word list" where
  "sha512_h0 = [
    7640891576956012808, 13503953896175478587, 4354685564936845355, 11912009170470909681,
    5840696475078001361, 11170449401992604703, 2270897969802886507, 6620516959819538809]"

definition rotr64 :: "nat \<Rightarrow> 64 word \<Rightarrow> 64 word" where
  "rotr64 n x = drop_bit n x OR push_bit (64 - n) x"

definition sha_pad :: "bytes \<Rightarrow> bytes" where
  "sha_pad m = m @ [0x80] @ replicate ((239 - length m mod 128) mod 128) 0 @ be_enc 16 (8 * length m)"

fun words64 :: "bytes \<Rightarrow> 64 word list" where
  "words64 (a # b # c # d # e # f # g # h # r) = word_of_nat (be_dec [a, b, c, d, e, f, g, h]) # words64 r"
| "words64 _ = []"

text \<open>The message schedule, extended one word at a time (the newest word last).\<close>

fun schedule :: "nat \<Rightarrow> 64 word list \<Rightarrow> 64 word list" where
  "schedule 0 w = w"
| "schedule (Suc n) w =
     (let i = length w; x = w ! (i - 15); y = w ! (i - 2);
          s0 = rotr64 1 x XOR rotr64 8 x XOR drop_bit 7 x;
          s1 = rotr64 19 y XOR rotr64 61 y XOR drop_bit 6 y in
      schedule n (w @ [w ! (i - 16) + s0 + w ! (i - 7) + s1]))"

fun sha_round :: "64 word \<times> 64 word \<Rightarrow> 64 word list \<Rightarrow> 64 word list" where
  "sha_round (k, w) [a, b, c, d, e, f, g, h] =
     (let s1 = rotr64 14 e XOR rotr64 18 e XOR rotr64 41 e;
          ch = (e AND f) XOR (NOT e AND g);
          t1 = h + s1 + ch + k + w;
          s0 = rotr64 28 a XOR rotr64 34 a XOR rotr64 39 a;
          maj = (a AND b) XOR (a AND c) XOR (b AND c);
          t2 = s0 + maj in
      [t1 + t2, a, b, c, d + t1, e, f, g])"
| "sha_round _ hs = hs"

definition sha_block :: "64 word list \<Rightarrow> bytes \<Rightarrow> 64 word list" where
  "sha_block hs block =
     map2 (+) hs (fold sha_round (zip sha512_k (schedule 64 (words64 block))) hs)"

fun blocks128 :: "nat \<Rightarrow> bytes \<Rightarrow> bytes list" where
  "blocks128 0 m = []"
| "blocks128 (Suc n) m = take 128 m # blocks128 n (drop 128 m)"

definition sha512 :: "bytes \<Rightarrow> bytes" where
  "sha512 m = (let p = sha_pad m in
     concat (map (\<lambda>w. be_enc 8 (unat w)) (fold (\<lambda>b hs. sha_block hs b) (blocks128 (length p div 128) p) sha512_h0)))"

lemma length_sha_round: "length (sha_round kw hs) = length hs"
  by (cases "(kw, hs)" rule: sha_round.cases) (simp_all add: Let_def)

lemma length_sha_rounds: "length (fold sha_round kws hs) = length hs"
  by (induction kws arbitrary: hs) (simp_all add: length_sha_round)

lemma length_sha_block [simp]: "length (sha_block hs b) = length hs"
  by (simp add: sha_block_def length_sha_rounds)

lemma length_sha_blocks: "length (fold (\<lambda>b hs. sha_block hs b) bs hs) = length hs"
  by (induction bs arbitrary: hs) simp_all

lemma length_sha512 [simp]: "length (sha512 m) = 64"
proof -
  have "length (concat (map (\<lambda>w. be_enc 8 (unat w)) ws)) = 8 * length ws" for ws :: "64 word list"
    by (induction ws) simp_all
  then show ?thesis by (simp add: sha512_def Let_def length_sha_blocks sha512_h0_def)
qed

section \<open>HMAC\<close>

definition hmac_sha512 :: "bytes \<Rightarrow> bytes \<Rightarrow> bytes" where
  "hmac_sha512 key msg =
     (let k = (if length key > 128 then sha512 key else key);
          k = k @ replicate (128 - length k) 0 in
      sha512 (map (\<lambda>b. b XOR 0x5c) k @ sha512 (map (\<lambda>b. b XOR 0x36) k @ msg)))"

lemma length_hmac [simp]: "length (hmac_sha512 k m) = 64"
  by (simp add: hmac_sha512_def Let_def)

end
