(* ===== verification/P256.thy ===== *)
theory P256
  imports Prelude
begin

text \<open>
  The P-256 arithmetic of \<open>opaque_adapter.py\<close> on Python integers: affine addition and the
  double-and-add scalar multiplication on compressed points, with \<open>pow(b, e, m)\<close> as square and
  multiply.  The lemmas show the exponentiation equal to its specification, addition closed on the
  curve wherever the denominator it inverts is invertible, and the shape of scalar multiples.
\<close>

section \<open>Parameters\<close>

definition P256_ORDER :: int where
  "P256_ORDER = 0xFFFFFFFF00000000FFFFFFFFFFFFFFFFBCE6FAADA7179E84F3B9CAC2FC632551"
definition P256_FIELD :: int where
  "P256_FIELD = 0xFFFFFFFF00000001000000000000000000000000FFFFFFFFFFFFFFFFFFFFFFFF"
definition P256_A :: int where
  "P256_A = 0xFFFFFFFF00000001000000000000000000000000FFFFFFFFFFFFFFFFFFFFFFFC"
definition P256_B :: int where
  "P256_B = 0x5AC635D8AA3A93E7B3EBBD55769886BC651D06B0CC53B0F63BCE3C3E27D2604B"

definition POINT_LEN :: nat where [simp]: "POINT_LEN = 33"

section \<open>Modular exponentiation\<close>

text \<open>Python's \<open>pow(b, e, m)\<close> for a non-negative exponent and a positive modulus.\<close>

fun pow_mod_loop :: "int \<Rightarrow> int \<Rightarrow> nat \<Rightarrow> int \<Rightarrow> int" where
  "pow_mod_loop acc b e m =
     (if e = 0 then acc
      else pow_mod_loop (if odd e then acc * b mod m else acc) (b * b mod m) (e div 2) m)"

declare pow_mod_loop.simps [simp del]

definition pow_mod :: "int \<Rightarrow> int \<Rightarrow> int \<Rightarrow> int" where
  "pow_mod b e m = pow_mod_loop (1 mod m) (b mod m) (nat e) m"

lemma pow_mod_loop_correct: "pow_mod_loop acc b e m mod m = acc * b ^ e mod m"
proof (induction acc b e m rule: pow_mod_loop.induct)
  case (1 acc b e m)
  show ?case
  proof (cases "e = 0")
    case True
    then show ?thesis by (simp add: pow_mod_loop.simps)
  next
    case False
    have ih: "pow_mod_loop acc b e m mod m = (if odd e then acc * b mod m else acc) * (b * b mod m) ^ (e div 2) mod m"
      using 1 [OF False] False by (subst pow_mod_loop.simps) simp
    also have "\<dots> = (if odd e then acc * b else acc) * (b * b) ^ (e div 2) mod m"
      by (rule mod_mult_cong) (simp_all add: power_mod)
    also have "(if odd e then acc * b else acc) * (b * b) ^ (e div 2) = acc * b ^ e"
    proof (cases "odd e")
      case True
      then have "b ^ e = b * (b * b) ^ (e div 2)"
        using odd_two_times_div_two_succ [OF True] by (metis power2_eq_square power_Suc power_mult Suc_eq_plus1)
      with True show ?thesis by (simp add: mult.assoc)
    next
      case False
      then have "b ^ e = (b * b) ^ (e div 2)"
        by (metis dvd_mult_div_cancel power2_eq_square power_mult)
      with False show ?thesis by simp
    qed
    finally show ?thesis .
  qed
qed

lemma pow_mod_loop_range: "0 < m \<Longrightarrow> 0 \<le> acc \<Longrightarrow> acc < m \<Longrightarrow> 0 \<le> pow_mod_loop acc b e m \<and> pow_mod_loop acc b e m < m"
proof (induction acc b e m rule: pow_mod_loop.induct)
  case (1 acc b e m)
  then show ?case by (subst (1 2) pow_mod_loop.simps) auto
qed

lemma pow_mod_eq: "0 < m \<Longrightarrow> pow_mod b e m = b ^ nat e mod m"
  using pow_mod_loop_range [of m "1 mod m" "b mod m" "nat e"] pow_mod_loop_correct [of "1 mod m" "b mod m" "nat e" m]
  by (simp add: pow_mod_def mod_mult_left_eq power_mod)

lemma P256_FIELD_pos [simp]: "0 < P256_FIELD" "odd P256_FIELD" "P256_FIELD < 2 ^ 256"
  by (simp_all add: P256_FIELD_def)

section \<open>Points\<close>

text \<open>\<open>None\<close> is the point at infinity.\<close>

type_synonym point = "(int \<times> int) option"

fun p256_affine_add :: "point \<Rightarrow> point \<Rightarrow> point" where
  "p256_affine_add None Q = Q"
| "p256_affine_add P None = P"
| "p256_affine_add (Some (x1, y1)) (Some (x2, y2)) =
     (let p = P256_FIELD; a = P256_A in
      if x1 = x2 \<and> y1 \<noteq> y2 then None
      else
        let lam = (if x1 = x2 then (3 * x1 * x1 + a) * pow_mod (2 * y1) (p - 2) p mod p
                   else (y2 - y1) * pow_mod (x2 - x1) (p - 2) p mod p);
            x3 = (lam * lam - x1 - x2) mod p;
            y3 = (lam * (x1 - x3) - y1) mod p in
        Some (x3, y3))"

text \<open>The loop \<open>while k\<close> for a non-negative \<open>k\<close>.\<close>

fun scalar_loop :: "nat \<Rightarrow> point \<Rightarrow> point \<Rightarrow> point" where
  "scalar_loop k R Q =
     (if k = 0 then R
      else scalar_loop (k div 2) (if odd k then p256_affine_add R Q else R) (p256_affine_add Q Q))"

declare scalar_loop.simps [simp del]

definition p256_decompress :: "int \<Rightarrow> int \<Rightarrow> int" where
  "p256_decompress flag x =
     (let y_sq = (pow_mod x 3 P256_FIELD + P256_A * x + P256_B) mod P256_FIELD;
          y = pow_mod y_sq ((P256_FIELD + 1) div 4) P256_FIELD in
      if y mod 2 \<noteq> flag - 2 then P256_FIELD - y else y)"

definition p256_scalar_mult :: "nat \<Rightarrow> bytes \<Rightarrow> bytes res" where
  "p256_scalar_mult k compressed =
     bindE (py_index compressed 0) (\<lambda>flag.
     let x = int (be_dec (slice compressed 1 33));
         y = p256_decompress (uint flag) x in
     case scalar_loop k None (Some (x, y)) of
       None \<Rightarrow> raise ValueError ''Scalar multiplication yielded point at infinity''
     | Some (rx, ry) \<Rightarrow>
         bindE (int_to_bytes 32 rx) (\<lambda>xb. Inr ((if ry mod 2 = 0 then [2] else [3]) @ xb)))"

section \<open>Shape of scalar multiples\<close>

definition point_fits :: "point \<Rightarrow> bool" where
  "point_fits P = (case P of None \<Rightarrow> True | Some (x, y) \<Rightarrow> 0 \<le> x \<and> x < 2 ^ 256)"

lemma point_fits_add: "point_fits P \<Longrightarrow> point_fits Q \<Longrightarrow> point_fits (p256_affine_add P Q)"
proof (induction P Q rule: p256_affine_add.induct)
  case (3 x1 y1 x2 y2)
  have "(z mod P256_FIELD) < 2 ^ 256" for z
    using pos_mod_bound [OF P256_FIELD_pos(1), of z] P256_FIELD_pos(3) by linarith
  then show ?case by (simp add: Let_def point_fits_def)
qed simp_all

lemma point_fits_loop: "point_fits R \<Longrightarrow> point_fits Q \<Longrightarrow> point_fits (scalar_loop k R Q)"
proof (induction k R Q rule: scalar_loop.induct)
  case (1 k R Q)
  then show ?case by (subst scalar_loop.simps) (simp add: point_fits_add)
qed

lemma scalar_mult_cases:
  assumes "c \<noteq> []"
  shows "(\<exists>pre xb. p256_scalar_mult k c = Inr (pre # xb) \<and> pre \<in> {2, 3} \<and> length xb = 32) \<or>
    p256_scalar_mult k c = raise ValueError ''Scalar multiplication yielded point at infinity''"
proof -
  let ?x = "int (be_dec (slice c 1 33))"
  let ?y = "p256_decompress (uint (c ! 0)) ?x"
  have "length (slice c 1 33) \<le> 32" by (simp add: length_slice)
  then have "(256::nat) ^ length (slice c 1 33) \<le> 256 ^ 32" by (intro power_increasing) simp_all
  then have "be_dec (slice c 1 33) < 256 ^ 32" using be_dec_less [of "slice c 1 33"] by linarith
  then have "point_fits (Some (?x, ?y))" by (simp add: point_fits_def)
  then have f: "point_fits (scalar_loop k None (Some (?x, ?y)))"
    by (intro point_fits_loop) (simp_all add: point_fits_def)
  show ?thesis
  proof (cases "scalar_loop k None (Some (?x, ?y))")
    case None
    then show ?thesis using assms by (simp add: p256_scalar_mult_def py_index_def Let_def)
  next
    case (Some r)
    obtain rx ry where r: "r = (rx, ry)" by fastforce
    then have "0 \<le> rx" "nat rx < 256 ^ 32" using f Some by (auto simp: point_fits_def)
    then have "int_to_bytes 32 rx = Inr (be_enc 32 (nat rx))" by (simp add: int_to_bytes_def)
    then show ?thesis using assms Some r
      by (simp add: p256_scalar_mult_def py_index_def Let_def)
  qed
qed

lemma scalar_mult_length: "p256_scalar_mult k c = Inr z \<Longrightarrow> length z = 33"
  using scalar_mult_cases [of c k] by (cases "c = []") (auto simp: p256_scalar_mult_def py_index_def)

text \<open>A compressed point as \<open>hash_to_curve\<close> and scalar multiplication produce it.\<close>

definition compressed_ok :: "bytes \<Rightarrow> bool" where
  "compressed_ok c \<longleftrightarrow> length c = 33 \<and> c ! 0 \<in> {2, 3}"

lemma decompress_parity:
  assumes "flag \<in> {2, 3}"
  shows "p256_decompress flag x mod 2 = flag - 2"
proof -
  have "(P256_FIELD - y) mod 2 = 1 - y mod 2" for y
    using P256_FIELD_pos(2) by (simp add: mod_2_eq_odd)
  moreover have "y mod 2 = 0 \<or> y mod 2 = 1" for y :: int by presburger
  ultimately show ?thesis using assms unfolding p256_decompress_def Let_def
    by (auto split: if_splits)
qed

lemma scalar_mult_1: "compressed_ok c \<Longrightarrow> p256_scalar_mult 1 c = Inr c"
proof -
  assume c: "compressed_ok c"
  then obtain f r where fr: "c = f # r" "length r = 32" "f = 2 \<or> f = 3"
    by (cases c) (auto simp: compressed_ok_def)
  have s: "slice c 1 33 = r" using fr by (simp add: slice_def)
  let ?y = "p256_decompress (uint f) (int (be_dec r))"
  have l: "scalar_loop 1 None (Some (int (be_dec r), ?y)) = Some (int (be_dec r), ?y)"
    by (subst scalar_loop.simps) (subst scalar_loop.simps, simp)
  have "uint f \<in> {2, 3}" using fr(3) by auto
  then have "?y mod 2 = uint f - 2" by (rule decompress_parity)
  then have "(if ?y mod 2 = 0 then [2] else [3]) = [f]" using fr(3) by auto
  moreover have "int_to_bytes 32 (int (be_dec r)) = Inr r"
    using be_dec_less [of r] be_enc_be_dec [of r] fr(2) by (simp add: int_to_bytes_def)
  ultimately show ?thesis
    using s l by (simp add: p256_scalar_mult_def py_index_def Let_def fr(1))
qed

section \<open>The curve\<close>

definition cubic :: "int \<Rightarrow> int \<Rightarrow> int \<Rightarrow> int" where
  "cubic a b x = x * x * x + a * x + b"

text \<open>The line through two points meets the cubic in \<open>x1\<close>, \<open>x2\<close> and \<open>x3\<close>.\<close>

lemma line_identity:
  fixes x1 y1 x2 lam a b x :: int
  defines "x3 \<equiv> lam * lam - x1 - x2"
  defines "c1 \<equiv> a + 2 * lam * lam * x1 - 2 * lam * y1 - (x1 * x2 + x1 * x3 + x2 * x3)"
  defines "c0 \<equiv> b - (y1 - lam * x1) * (y1 - lam * x1) + x1 * x2 * x3"
  shows "cubic a b x - (lam * (x - x1) + y1) * (lam * (x - x1) + y1) =
    (x - x1) * (x - x2) * (x - x3) + (c1 * x + c0)"
  unfolding c1_def c0_def x3_def cubic_def by algebra

lemma chord_closed:
  fixes p :: int
  assumes on1: "p dvd y1 * y1 - cubic a b x1" and on2: "p dvd y2 * y2 - cubic a b x2"
    and lam: "p dvd lam * (x2 - x1) - (y2 - y1)" and inv: "p dvd (x2 - x1) * i - 1"
    and x3: "x3 = lam * lam - x1 - x2" and y3: "y3 = lam * (x1 - x3) - y1"
  shows "p dvd y3 * y3 - cubic a b x3"
proof -
  define c1 where "c1 = a + 2 * lam * lam * x1 - 2 * lam * y1 - (x1 * x2 + x1 * x3 + x2 * x3)"
  define c0 where "c0 = b - (y1 - lam * x1) * (y1 - lam * x1) + x1 * x2 * x3"
  have id: "cubic a b x - (lam * (x - x1) + y1) * (lam * (x - x1) + y1) =
      (x - x1) * (x - x2) * (x - x3) + (c1 * x + c0)" for x
    unfolding c1_def c0_def x3 by (rule line_identity)
  have "c1 * x1 + c0 = - (y1 * y1 - cubic a b x1)"
    using id [of x1] by simp
  then have r1: "p dvd c1 * x1 + c0" using on1 by (metis dvd_minus_iff)
  have "c1 * x2 + c0 = - (y2 * y2 - cubic a b x2) - (lam * (x2 - x1) - (y2 - y1)) * (lam * (x2 - x1) + y1 + y2)"
    using id [of x2] by algebra
  then have r2: "p dvd c1 * x2 + c0" using on2 lam by (metis dvd_diff dvd_minus_iff dvd_mult2)
  have "c1 = i * ((c1 * x2 + c0) - (c1 * x1 + c0)) - c1 * ((x2 - x1) * i - 1)" by algebra
  then have k1: "p dvd c1" using r1 r2 inv by (metis dvd_diff dvd_mult)
  have "c1 * x3 + c0 = c1 * (x3 - x1) + (c1 * x1 + c0)" by algebra
  then have k3: "p dvd c1 * x3 + c0" using k1 r1 by (metis dvd_add dvd_mult2)
  have "y3 * y3 - cubic a b x3 = - (c1 * x3 + c0)"
    using id [of x3] unfolding y3 by algebra
  then show ?thesis using k3 by (metis dvd_minus_iff)
qed

lemma tangent_closed:
  fixes p :: int
  assumes on1: "p dvd y1 * y1 - cubic a b x1"
    and lam: "p dvd lam * (2 * y1) - (3 * x1 * x1 + a)"
    and x3: "x3 = lam * lam - x1 - x1" and y3: "y3 = lam * (x1 - x3) - y1"
  shows "p dvd y3 * y3 - cubic a b x3"
proof -
  define c1 where "c1 = a + 2 * lam * lam * x1 - 2 * lam * y1 - (x1 * x1 + x1 * x3 + x1 * x3)"
  define c0 where "c0 = b - (y1 - lam * x1) * (y1 - lam * x1) + x1 * x1 * x3"
  have id: "cubic a b x - (lam * (x - x1) + y1) * (lam * (x - x1) + y1) =
      (x - x1) * (x - x1) * (x - x3) + (c1 * x + c0)" for x
    unfolding c1_def c0_def x3 by (rule line_identity)
  have "c1 = - (lam * (2 * y1) - (3 * x1 * x1 + a))"
    unfolding c1_def x3 by algebra
  then have k1: "p dvd c1" using lam by (metis dvd_minus_iff)
  have "c1 * x1 + c0 = - (y1 * y1 - cubic a b x1)"
    using id [of x1] by simp
  then have r1: "p dvd c1 * x1 + c0" using on1 by (metis dvd_minus_iff)
  have "c1 * x3 + c0 = c1 * (x3 - x1) + (c1 * x1 + c0)" by algebra
  then have k3: "p dvd c1 * x3 + c0" using k1 r1 by (metis dvd_add dvd_mult2)
  have "y3 * y3 - cubic a b x3 = - (c1 * x3 + c0)"
    using id [of x3] unfolding y3 by algebra
  then show ?thesis using k3 by (metis dvd_minus_iff)
qed

text \<open>Reducing the coordinates modulo \<open>p\<close> stays on the curve.\<close>

lemma closed_mod:
  fixes p :: int
  assumes "p dvd y * y - cubic a b x" and "p dvd x' - x" and "p dvd y' - y"
  shows "p dvd y' * y' - cubic a b x'"
proof -
  have "y' * y' - cubic a b x' = (y * y - cubic a b x) + (y' - y) * (y' + y) -
      (x' - x) * (x' * x' + x' * x + x * x + a)"
    unfolding cubic_def by algebra
  with assms show ?thesis by (metis dvd_add dvd_diff dvd_mult2)
qed

lemma dvd_mod_diff: "(p::int) dvd z mod p - z"
  by (simp add: mod_eq_dvd_iff [symmetric])

definition on_curve :: "point \<Rightarrow> bool" where
  "on_curve P = (case P of None \<Rightarrow> True
     | Some (x, y) \<Rightarrow> P256_FIELD dvd y * y - cubic P256_A P256_B x)"

text \<open>The denominator of an addition, and that \<open>pow(d, p - 2, p)\<close> is its inverse.\<close>

definition denominator :: "int \<times> int \<Rightarrow> int \<times> int \<Rightarrow> int" where
  "denominator P Q = (if fst P = fst Q then 2 * snd P else fst Q - fst P)"

definition inverted :: "int \<Rightarrow> bool" where
  "inverted d \<longleftrightarrow> P256_FIELD dvd d * pow_mod d (P256_FIELD - 2) P256_FIELD - 1"

lemma quotient_dvd:
  fixes p :: int
  assumes "p dvd d * i - 1"
  shows "p dvd (n * i mod p) * d - n"
proof -
  have "(n * i mod p) * d - n = (n * i mod p - n * i) * d + n * (d * i - 1)" by algebra
  with assms dvd_mod_diff [of p "n * i"] show ?thesis by (metis dvd_add dvd_mult dvd_mult2)
qed

lemma affine_add_closed:
  assumes "on_curve (Some (x1, y1))" and "on_curve (Some (x2, y2))" and "inverted (denominator (x1, y1) (x2, y2))"
  shows "on_curve (p256_affine_add (Some (x1, y1)) (Some (x2, y2)))"
proof -
  let ?p = P256_FIELD
  have on1: "?p dvd y1 * y1 - cubic P256_A P256_B x1" and on2: "?p dvd y2 * y2 - cubic P256_A P256_B x2"
    using assms(1,2) by (simp_all add: on_curve_def)
  let ?d = "denominator (x1, y1) (x2, y2)"
  let ?i = "pow_mod ?d (?p - 2) ?p"
  have inv: "?p dvd ?d * ?i - 1" using assms(3) by (simp add: inverted_def)
  define n where "n = (if x1 = x2 then 3 * x1 * x1 + P256_A else y2 - y1)"
  define lam where "lam = n * ?i mod ?p"
  define x3 where "x3 = lam * lam - x1 - x2"
  define y3 where "y3 = lam * (x1 - x3) - y1"
  define X where "X = x3 mod ?p"
  define Y where "Y = (lam * (x1 - X) - y1) mod ?p"
  have lam: "?p dvd lam * ?d - n" unfolding lam_def by (rule quotient_dvd [OF inv])
  show ?thesis
  proof (cases "x1 = x2 \<and> y1 \<noteq> y2")
    case True
    then show ?thesis by (simp add: Let_def on_curve_def)
  next
    case False
    have sum: "p256_affine_add (Some (x1, y1)) (Some (x2, y2)) = Some (X, Y)"
      using False by (simp add: Let_def denominator_def X_def Y_def x3_def lam_def n_def)
    have c: "?p dvd y3 * y3 - cubic P256_A P256_B x3"
    proof (cases "x1 = x2")
      case True
      show ?thesis
        by (rule tangent_closed [OF on1 _ _ y3_def])
           (use lam True in \<open>simp_all add: denominator_def n_def x3_def\<close>)
    next
      case False
      show ?thesis
        by (rule chord_closed [OF on1 on2 _ _ x3_def y3_def, of ?i])
           (use lam inv False in \<open>simp_all add: denominator_def n_def\<close>)
    qed
    have X: "?p dvd X - x3" unfolding X_def by (rule dvd_mod_diff)
    have "?p dvd Y - (lam * (x1 - X) - y1)" unfolding Y_def by (rule dvd_mod_diff)
    moreover have "Y - y3 = (Y - (lam * (x1 - X) - y1)) - lam * (X - x3)" unfolding y3_def by algebra
    ultimately have "?p dvd Y - y3" using X by (metis dvd_diff dvd_mult)
    then have "?p dvd Y * Y - cubic P256_A P256_B X" by (rule closed_mod [OF c X])
    then show ?thesis unfolding sum on_curve_def by simp
  qed
qed

lemma inverted_1 [simp]: "inverted 1"
  by (simp add: inverted_def pow_mod_eq P256_FIELD_def)

section \<open>Properties\<close>

text \<open>
  \<open>pow\<close> by square and multiply computes the power: for every base, exponent and positive modulus.
\<close>

theorem pow_mod_correct: "0 < m \<Longrightarrow> pow_mod b e m = b ^ nat e mod m"
  by (rule pow_mod_eq)

theorem pow_mod_correct_witness: "pow_mod 3 5 7 = 5"
  using pow_mod_correct [of 7 3 5] by simp

text \<open>
  C30: affine addition stays on the curve: chord, tangent and vertical case, for all points of the
  curve whose denominator the code's Fermat inversion really inverts.
\<close>

theorem p256_add_closed:
  assumes "on_curve P" and "on_curve Q"
    and "\<forall>p q. P = Some p \<longrightarrow> Q = Some q \<longrightarrow> inverted (denominator p q)"
  shows "on_curve (p256_affine_add P Q)"
  using assms affine_add_closed by (cases "(P, Q)" rule: p256_affine_add.cases) auto

lemma sample_points:
  "on_curve (Some (5, 31468013646237722594854082025316614106172411895747863909393730389177298123724))"
  "on_curve (Some (6, 24739918328848417526480033809572464882617473122143770809273908485596236620747))"
  unfolding on_curve_def cubic_def P256_FIELD_def P256_A_def P256_B_def option.case prod.case
  by (rule dvdI [of _ _ 8551843995498429138253737279425323387534507233058307853289950121593724778020], simp,
      rule dvdI [of _ _ 5285884062478319511392287661014471364448788078168491229213617046946205482514], simp)

theorem p256_add_closed_witness:
  "on_curve (p256_affine_add
     (Some (5, 31468013646237722594854082025316614106172411895747863909393730389177298123724))
     (Some (6, 24739918328848417526480033809572464882617473122143770809273908485596236620747)))"
  by (rule p256_add_closed [OF sample_points]) (simp add: denominator_def)

text \<open>
  Scalar multiplication of a compressed point: the scalar 1 gives back every well-formed
  encoding, so decompression recovers the encoded parity; and every scalar yields either a
  well-formed compressed point or the \<open>ValueError\<close> for the point at infinity, no other error.
\<close>

theorem scalar_mult_shape:
  "(compressed_ok c \<longrightarrow> p256_scalar_mult 1 c = Inr c) \<and>
   (c \<noteq> [] \<longrightarrow> (\<exists>z. p256_scalar_mult k c = Inr z \<and> compressed_ok z) \<or>
      p256_scalar_mult k c = raise ValueError ''Scalar multiplication yielded point at infinity'')"
proof (intro conjI impI)
  show "compressed_ok c \<Longrightarrow> p256_scalar_mult 1 c = Inr c" by (rule scalar_mult_1)
  show "c \<noteq> [] \<Longrightarrow> (\<exists>z. p256_scalar_mult k c = Inr z \<and> compressed_ok z) \<or>
      p256_scalar_mult k c = raise ValueError ''Scalar multiplication yielded point at infinity''"
    using scalar_mult_cases [of c k] by (fastforce simp: compressed_ok_def)
qed

theorem scalar_mult_shape_witness:
  "p256_scalar_mult 1 (2 # replicate 32 7) = Inr (2 # replicate 32 7)"
  using scalar_mult_shape [of "2 # replicate 32 7" 1] by (simp add: compressed_ok_def)

end
