(* ===== verification/Opaque_Core.thy ===== *)
theory Opaque_Core
  imports Prelude Primitives Sample_Primitives Sha512 P256
begin

text \<open>
  The building blocks of \<open>opaque_adapter.py\<close>: hashing to the curve and the blinded OPRF, key
  stretching, the sealed envelope, the 3DH key derivation and the fixed-offset packing of KE1 and
  KE2.  Random values are arguments, named as the code's variables.  The lemmas show the envelope
  opened to what was sealed and the two packings inverted.
\<close>

section \<open>OPRF\<close>

fun hash_to_curve_loop :: "prims \<Rightarrow> bytes \<Rightarrow> nat list \<Rightarrow> bytes res" where
  "hash_to_curve_loop P data [] =
     raise RuntimeError ''hash_to_curve: no valid point found in 256 iterations''"
| "hash_to_curve_loop P data (counter # counters) =
     (let candidate = take 32 (sha512 (data @ blit ''h2c'' @ be_enc 4 counter));
          x = int (be_dec candidate) mod P256_FIELD;
          good = (\<lambda>prefix. case ec_from_encoded_point P (prefix # be_enc 32 (nat x)) of Inl e \<Rightarrow> False | Inr p \<Rightarrow> True) in
      if good 2 then Inr (2 # be_enc 32 (nat x))
      else if good 3 then Inr (3 # be_enc 32 (nat x))
      else hash_to_curve_loop P data counters)"

definition hash_to_curve :: "prims \<Rightarrow> bytes \<Rightarrow> bytes res" where
  "hash_to_curve P data = hash_to_curve_loop P data [0..<256]"

text \<open>\<open>r\<close> is the private value of the generated key, a positive integer.\<close>

definition oprf_blind :: "prims \<Rightarrow> nat \<Rightarrow> bytes \<Rightarrow> (nat \<times> bytes) res" where
  "oprf_blind P r password =
     bindE (hash_to_curve P password) (\<lambda>P_bytes.
     bindE (p256_scalar_mult r P_bytes) (\<lambda>M. Inr (r, M)))"

definition oprf_evaluate :: "nat \<Rightarrow> bytes \<Rightarrow> bytes res" where
  "oprf_evaluate k_int M = p256_scalar_mult k_int M"

definition oprf_finalize :: "prims \<Rightarrow> bytes \<Rightarrow> nat \<Rightarrow> bytes \<Rightarrow> bytes res" where
  "oprf_finalize P password blind Z =
     (let r_inv = pow_mod (int blind) (P256_ORDER - 2) P256_ORDER in
      bindE (p256_scalar_mult (nat r_inv) Z) (\<lambda>N.
        Inr (c_hkdf P 64 (blit ''VAULTTLS-OPRF-finalise'') (blit ''OPRF output v1'') (N @ sha512 password))))"

section \<open>Key stretching\<close>

definition ksf :: "prims \<Rightarrow> bytes \<Rightarrow> bytes \<Rightarrow> bytes res" where
  "ksf P oprf_output salt =
     (if has_argon2 P then argon2id P oprf_output salt
      else Inr (c_hkdf P 64 salt (blit ''pbkdf2-fallback'') oprf_output))"

section \<open>Keys\<close>

definition priv_bytes :: "int \<Rightarrow> bytes res" where
  "priv_bytes k = int_to_bytes 32 k"

definition load_priv :: "prims \<Rightarrow> bytes \<Rightarrow> int res" where
  "load_priv P b = ec_derive_private_key P (int (be_dec b))"

definition load_pub :: "prims \<Rightarrow> bytes \<Rightarrow> bytes res" where
  "load_pub P b = ec_from_encoded_point P b"

section \<open>Envelope\<close>

definition ENV_VERSION :: bytes where [simp]: "ENV_VERSION = [1]"
definition ARGON_SALT_LEN :: nat where [simp]: "ARGON_SALT_LEN = 16"
definition GCM_NONCE_LEN :: nat where [simp]: "GCM_NONCE_LEN = 12"

definition derive_env_key :: "prims \<Rightarrow> bytes \<Rightarrow> bytes res" where
  "derive_env_key P rw_stretched = c_hkdf_expand P 32 (blit ''envelope-enc-key'') rw_stretched"

definition envelope_seal :: "prims \<Rightarrow> bytes \<Rightarrow> int \<Rightarrow> bytes \<Rightarrow> bytes \<Rightarrow> bytes \<Rightarrow> bytes res" where
  "envelope_seal P rw_raw c_priv s_pub salt nonce =
     bindE (ksf P rw_raw salt) (\<lambda>rw_s.
     bindE (derive_env_key P rw_s) (\<lambda>enc_key.
     bindE (priv_bytes c_priv) (\<lambda>cp.
     let plaintext = cp @ s_pub in
     bindE (aesgcm_new P enc_key) (\<lambda>aead.
     bindE (aesgcm_encrypt P aead nonce plaintext ENV_VERSION) (\<lambda>ct.
       Inr (ENV_VERSION @ salt @ nonce @ ct))))))"

text \<open>\<open>repr\<close> of a \<open>bytes\<close> object.\<close>

definition repr_byte :: "nat \<Rightarrow> nat \<Rightarrow> pystr" where
  "repr_byte q b =
     (if b = q \<or> b = 92 then [92, b]
      else if b = 9 then [92, 116] else if b = 10 then [92, 110] else if b = 13 then [92, 114]
      else if 32 \<le> b \<and> b < 127 then [b]
      else let d = (\<lambda>n. if n < 10 then 48 + n else 87 + n) in [92, 120, d (b div 16), d (b mod 16)])"

definition bytes_repr :: "bytes \<Rightarrow> pystr" where
  "bytes_repr bs =
     (let q = (if 39 \<in> set bs \<and> 34 \<notin> set bs then 34 else 39) in
      lit ''b'' @ [q] @ concat (map (\<lambda>b. repr_byte q (unat b)) bs) @ [q])"

definition env_version_msg :: "bytes \<Rightarrow> pystr" where
  "env_version_msg v = lit ''Unknown envelope version '' @ bytes_repr v"

definition env_failed_msg :: pystr where
  "env_failed_msg = lit ''Envelope decryption failed '' @ [8212] @ lit '' wrong password''"

definition envelope_open :: "prims \<Rightarrow> bytes \<Rightarrow> bytes \<Rightarrow> (int \<times> bytes) res" where
  "envelope_open P rw_raw envelope =
     (let version = slice envelope 0 1 in
      if version \<noteq> ENV_VERSION then Inl (PyError ValueError (env_version_msg version)) else
      let salt = slice envelope 1 (1 + ARGON_SALT_LEN);
          nonce = slice envelope (1 + ARGON_SALT_LEN) (1 + ARGON_SALT_LEN + GCM_NONCE_LEN);
          ct = drop (1 + ARGON_SALT_LEN + GCM_NONCE_LEN) envelope in
      bindE (ksf P rw_raw salt) (\<lambda>rw_s.
      bindE (derive_env_key P rw_s) (\<lambda>enc_key.
      bindE (case bindE (aesgcm_new P enc_key) (\<lambda>aead. aesgcm_decrypt P aead nonce ct version) of
               Inl e \<Rightarrow> Inl (PyError ValueError env_failed_msg) | Inr pt \<Rightarrow> Inr pt) (\<lambda>pt.
      bindE (load_priv P (slice pt 0 32)) (\<lambda>c_priv.
      bindE (load_pub P (slice pt 32 97)) (\<lambda>s_pub. Inr (c_priv, s_pub)))))))"

section \<open>3DH\<close>

record dh_keys =
  dk_session_key :: bytes
  dk_mac_key :: bytes

definition derive_3dh :: "prims \<Rightarrow> bytes \<Rightarrow> bytes \<Rightarrow> bytes \<Rightarrow> bytes \<Rightarrow> dh_keys" where
  "derive_3dh P dh1 dh2 dh3 transcript_hash =
     (let ikm = dh1 @ dh2 @ dh3 in
      \<lparr>dk_session_key = c_hkdf P 64 transcript_hash (blit ''3DH-session-key'') ikm,
       dk_mac_key = c_hkdf P 64 transcript_hash (blit ''3DH-mac-key'') ikm\<rparr>)"

section \<open>Wire blobs\<close>

definition OPAQUE_NONCE_LEN :: nat where [simp]: "OPAQUE_NONCE_LEN = 32"
definition MAC_LEN :: nat where [simp]: "MAC_LEN = 64"
definition S_EPH_LEN :: nat where [simp]: "S_EPH_LEN = 65"

definition pack_ke1 :: "bytes \<Rightarrow> bytes \<Rightarrow> bytes \<Rightarrow> bytes" where
  "pack_ke1 M nonce_c c_eph_pub = M @ nonce_c @ c_eph_pub"

definition unpack_ke1 :: "bytes \<Rightarrow> bytes \<times> bytes \<times> bytes" where
  "unpack_ke1 ke1 =
     (slice ke1 0 POINT_LEN, slice ke1 POINT_LEN (POINT_LEN + OPAQUE_NONCE_LEN),
      drop (POINT_LEN + OPAQUE_NONCE_LEN) ke1)"

definition pack_ke2 :: "bytes \<Rightarrow> bytes \<Rightarrow> bytes \<Rightarrow> bytes \<Rightarrow> bytes \<Rightarrow> bytes res" where
  "pack_ke2 Z envelope nonce_s s_eph_pub server_mac =
     bindE (int_to_bytes 3 (int (length envelope))) (\<lambda>env_len.
       Inr (Z @ env_len @ envelope @ nonce_s @ s_eph_pub @ server_mac))"

definition unpack_ke2 :: "bytes \<Rightarrow> bytes \<times> bytes \<times> bytes \<times> bytes \<times> bytes" where
  "unpack_ke2 ke2 =
     (let pos = 0;
          Z = slice ke2 pos (pos + POINT_LEN); pos = pos + POINT_LEN;
          env_len = be_dec (slice ke2 pos (pos + 3)); pos = pos + 3;
          envelope = slice ke2 pos (pos + env_len); pos = pos + env_len;
          nonce_s = slice ke2 pos (pos + OPAQUE_NONCE_LEN); pos = pos + OPAQUE_NONCE_LEN;
          s_eph_pub = slice ke2 pos (pos + S_EPH_LEN); pos = pos + S_EPH_LEN;
          server_mac = slice ke2 pos (pos + MAC_LEN) in
      (Z, envelope, nonce_s, s_eph_pub, server_mac))"

section \<open>Lemmas on the wire blobs\<close>

lemma unpack_pack_ke1:
  "length M = 33 \<Longrightarrow> length n = 32 \<Longrightarrow> unpack_ke1 (pack_ke1 M n e) = (M, n, e)"
  by (simp add: unpack_ke1_def pack_ke1_def slice_def)

lemma pack_ke2_Inr: "pack_ke2 Z e n s m = Inr b \<longleftrightarrow>
    length e < 2 ^ 24 \<and> b = Z @ be_enc 3 (length e) @ e @ n @ s @ m"
  by (auto simp: pack_ke2_def bindE_eq_Inr int_to_bytes_Inr)

lemma unpack_pack_ke2:
  assumes "pack_ke2 Z e n s m = Inr b" and "length Z = 33" and "length n = 32" and "length s = 65"
    and "length m = 64"
  shows "unpack_ke2 (b @ rest) = (Z, e, n, s, m)"
proof -
  have e: "length e < 2 ^ 24" and b: "b = Z @ be_enc 3 (length e) @ e @ n @ s @ m"
    using assms(1) by (auto simp: pack_ke2_Inr)
  have 1: "slice (b @ rest) 0 33 = Z"
    using slice_append_mid [of "[]" 0 Z 33] assms(2) by (simp add: b)
  have "slice (b @ rest) 33 36 = be_enc 3 (length e)"
    using slice_append_mid [of Z 33 "be_enc 3 (length e)" 3] assms(2) by (simp add: b)
  then have 2: "be_dec (slice (b @ rest) 33 36) = length e" using e by simp
  have 3: "slice (b @ rest) 36 (36 + length e) = e"
    using slice_append_mid [of "Z @ be_enc 3 (length e)" 36 e "length e"] assms(2) by (simp add: b)
  have 4: "slice (b @ rest) (36 + length e) (36 + length e + 32) = n"
    using slice_append_mid [of "Z @ be_enc 3 (length e) @ e" "36 + length e" n 32] assms(2,3) by (simp add: b)
  have 5: "slice (b @ rest) (68 + length e) (68 + length e + 65) = s"
    using slice_append_mid [of "Z @ be_enc 3 (length e) @ e @ n" "68 + length e" s 65] assms(2-4) by (simp add: b)
  have 6: "slice (b @ rest) (133 + length e) (133 + length e + 64) = m"
    using slice_append_mid [of "Z @ be_enc 3 (length e) @ e @ n @ s" "133 + length e" m 64] assms(2-5) by (simp add: b)
  show ?thesis
    using 1 2 3 4 5 6 unfolding unpack_ke2_def Let_def by (simp add: algebra_simps)
qed

section \<open>Lemmas on the envelope\<close>

text \<open>A private value that the library accepts: one it could have generated.\<close>

definition valid_priv :: "prims \<Rightarrow> int \<Rightarrow> bool" where
  "valid_priv P k \<longleftrightarrow> 0 \<le> k \<and> k < 2 ^ 256 \<and> ec_derive_private_key P k = Inr k"

lemma priv_bytes_valid:
  "valid_priv P k \<Longrightarrow> \<exists>b. priv_bytes k = Inr b \<and> length b = 32 \<and> load_priv P b = Inr k"
  by (auto simp: valid_priv_def priv_bytes_def load_priv_def int_to_bytes_def nat_le_eq_zle not_le nat_less_iff)

text \<open>The key-stretching function works for salts of the envelope's length.\<close>

lemma ksf_ok:
  "argon2_ok P \<Longrightarrow> 8 \<le> length salt \<Longrightarrow> \<exists>k. ksf P rw salt = Inr k"
  using argon2_okD by (fastforce simp: ksf_def)

lemma env_key_ok:
  assumes "hkdf_expand_ok P" and "aesgcm_ok P"
  shows "\<exists>k. derive_env_key P rw = Inr k \<and> aesgcm_new P k = Inr k"
  using hkdf_expand_okD [OF assms(1), of 32 "blit ''envelope-enc-key''" rw] aesgcm_okD(1) [OF assms(2)]
  by (auto simp: derive_env_key_def)

lemma envelope_seal_open:
  assumes "argon2_ok P" and "hkdf_expand_ok P" and "aesgcm_ok P"
    and "valid_priv P c_priv" and "load_pub P s_pub = Inr s_key" and "length s_pub = 65"
    and "length salt = 16" and "length nonce = 12"
  shows "\<exists>env. envelope_seal P rw c_priv s_pub salt nonce = Inr env \<and> length env = 142 \<and>
    envelope_open P rw env = Inr (c_priv, s_key)"
proof -
  obtain ks where ks: "ksf P rw salt = Inr ks" using ksf_ok [OF assms(1)] assms(7) by force
  obtain k where k: "derive_env_key P ks = Inr k" "aesgcm_new P k = Inr k"
    using env_key_ok [OF assms(2,3)] by blast
  obtain cp where cp: "priv_bytes c_priv = Inr cp" "length cp = 32" "load_priv P cp = Inr c_priv"
    using priv_bytes_valid [OF assms(4)] by blast
  obtain ct where ct: "aesgcm_encrypt P k nonce (cp @ s_pub) [1] = Inr ct"
    "length ct = 113" "aesgcm_decrypt P k nonce ct [1] = Inr (cp @ s_pub)"
    using aesgcm_okD(2) [OF assms(3), of "cp @ s_pub" "[1]" k nonce] cp(2) assms(6) by auto
  let ?env = "[1] @ salt @ nonce @ ct"
  have s: "slice ?env 0 1 = [1]" "slice ?env 1 17 = salt" "slice ?env 17 29 = nonce" "drop 29 ?env = ct"
    using assms(7,8) by (simp_all add: slice_def)
  have p: "slice (cp @ s_pub) 0 32 = cp" "slice (cp @ s_pub) 32 97 = s_pub"
    using cp(2) assms(6) by (simp_all add: slice_def)
  have "envelope_seal P rw c_priv s_pub salt nonce = Inr ?env"
    using ks k cp ct by (simp add: envelope_seal_def Let_def)
  moreover have "length ?env = 142" using ct(2) assms(7,8) by simp
  moreover have "envelope_open P rw ?env = Inr (c_priv, s_key)"
    unfolding envelope_open_def Let_def ENV_VERSION_def ARGON_SALT_LEN_def GCM_NONCE_LEN_def
    using s ks k ct p cp assms(5) by simp
  ultimately show ?thesis by blast
qed

section \<open>Lemmas on hashing to the curve\<close>

lemma hash_to_curve_loop_ok: "hash_to_curve_loop P d cs = Inr c \<Longrightarrow> compressed_ok c"
  by (induction cs) (auto simp: compressed_ok_def Let_def split: if_splits)

lemma hash_to_curve_ok: "hash_to_curve P d = Inr c \<Longrightarrow> compressed_ok c"
  unfolding hash_to_curve_def by (rule hash_to_curve_loop_ok)

lemma hash_to_curve_loop_valid:
  "hash_to_curve_loop P d cs = Inr c \<Longrightarrow> \<exists>p. ec_from_encoded_point P c = Inr p"
  by (induction cs) (auto simp: Let_def split: if_splits sum.splits)

section \<open>Properties\<close>

text \<open>
  C28: the envelope returns the client's key: sealed under the stretched password secret it has
  142 bytes, and opening it with the same secret gives back the private key and the server's
  public key; a first byte other than the version, or a ciphertext that does not authenticate
  under the secret, ends in the corresponding \<open>ValueError\<close>.
\<close>

theorem envelope_round_trip:
  assumes "argon2_ok P" and "hkdf_expand_ok P" and "aesgcm_ok P"
    and "valid_priv P c_priv" and "load_pub P s_pub = Inr s_key" and "length s_pub = 65"
    and "length salt = 16" and "length nonce = 12"
  shows "(\<exists>env. envelope_seal P rw c_priv s_pub salt nonce = Inr env \<and> length env = 142 \<and>
      envelope_open P rw env = Inr (c_priv, s_key)) \<and>
    (\<forall>env. take 1 env \<noteq> [1] \<longrightarrow> envelope_open P rw env = Inl (PyError ValueError (env_version_msg (take 1 env)))) \<and>
    (\<forall>ct ks k e. ksf P rw salt = Inr ks \<longrightarrow> derive_env_key P ks = Inr k \<longrightarrow> aesgcm_decrypt P k nonce ct [1] = Inl e \<longrightarrow>
       envelope_open P rw ([1] @ salt @ nonce @ ct) = Inl (PyError ValueError env_failed_msg))"
proof (intro conjI allI impI)
  show "\<exists>env. envelope_seal P rw c_priv s_pub salt nonce = Inr env \<and> length env = 142 \<and>
      envelope_open P rw env = Inr (c_priv, s_key)"
    by (rule envelope_seal_open [OF assms])
  show "envelope_open P rw env = Inl (PyError ValueError (env_version_msg (take 1 env)))"
    if "take 1 env \<noteq> [1]" for env
    using that by (simp add: envelope_open_def Let_def slice_def)
  fix ct ks k e
  assume k: "ksf P rw salt = Inr ks" "derive_env_key P ks = Inr k" "aesgcm_decrypt P k nonce ct [1] = Inl e"
  have "length k = 32"
    using k(2) hkdf_expand_okD [OF assms(2), of 32 "blit ''envelope-enc-key''" ks] by (auto simp: derive_env_key_def)
  then have "aesgcm_new P k = Inr k" by (rule aesgcm_okD(1) [OF assms(3)])
  then show "envelope_open P rw ([1] @ salt @ nonce @ ct) = Inl (PyError ValueError env_failed_msg)"
    using k assms(7,8) by (simp add: envelope_open_def Let_def slice_def)
qed

theorem envelope_round_trip_witness:
  "\<exists>env. envelope_seal sample [5] 7 (sample_public 5) (replicate 16 1) (replicate 12 2) = Inr env \<and>
     envelope_open sample [5] env = Inr (7, sample_public 5)"
proof -
  have "valid_priv sample 7" "load_pub sample (sample_public 5) = Inr (sample_public 5)"
    by (simp_all add: valid_priv_def load_pub_def)
  from envelope_round_trip [OF _ _ _ this, of "replicate 16 1" "replicate 12 2" "[5]"] show ?thesis
    by auto
qed

text \<open>
  The OPAQUE messages are parsed at the right offsets: unpacking a packed KE1 or KE2 returns its
  parts, whatever the envelope's length is and whatever follows.
\<close>

theorem ke_round_trip:
  assumes "length M = 33" and "length nonce_c = 32" and "length Z = 33" and "length nonce_s = 32"
    and "length s_eph = 65" and "length mac = 64" and "length env < 2 ^ 24"
  shows "unpack_ke1 (pack_ke1 M nonce_c c_eph) = (M, nonce_c, c_eph) \<and>
    (\<exists>ke2. pack_ke2 Z env nonce_s s_eph mac = Inr ke2 \<and>
       unpack_ke2 (ke2 @ rest) = (Z, env, nonce_s, s_eph, mac))"
  using assms unpack_pack_ke1 [OF assms(1,2)] unpack_pack_ke2 [OF _ assms(3-6)] by (simp add: pack_ke2_Inr)

theorem ke_round_trip_witness:
  "unpack_ke1 (pack_ke1 (replicate 33 1) (replicate 32 2) [3]) = (replicate 33 1, replicate 32 2, [3])"
  using ke_round_trip [of "replicate 33 1" "replicate 32 2" "replicate 33 0" "replicate 32 0"
      "replicate 65 0" "replicate 64 0" "[]"] by simp

text \<open>
  Hashing to the curve returns a well-formed compressed encoding that the EC library accepts, or
  raises \<open>RuntimeError\<close>; the OPRF then works on it: blinding with scalar 1 is the identity.
\<close>

theorem hash_to_curve_result:
  "fails_only {RuntimeError} (hash_to_curve P pw) \<and>
   (\<forall>c. hash_to_curve P pw = Inr c \<longrightarrow> compressed_ok c \<and> (\<exists>p. ec_from_encoded_point P c = Inr p) \<and>
      oprf_blind P 1 pw = Inr (1, c))"
proof -
  have "fails_only {RuntimeError} (hash_to_curve_loop P pw cs)" for cs
    by (induction cs) (simp_all add: Let_def)
  then show ?thesis
    using hash_to_curve_ok scalar_mult_1 hash_to_curve_loop_valid
    unfolding hash_to_curve_def oprf_blind_def by (auto simp: fails_only_def)
qed

theorem hash_to_curve_result_witness:
  "\<exists>c. hash_to_curve sample [1] = Inr c \<and> compressed_ok c \<and> oprf_blind sample 1 [1] = Inr (1, c)"
proof -
  have "\<exists>c. hash_to_curve sample [1] = Inr c"
    by (simp add: hash_to_curve_def Let_def upt_conv_Cons)
  with hash_to_curve_result [of sample "[1]"] show ?thesis by auto
qed

end
