(* ===== verification/Opaque.thy ===== *)
theory Opaque
  imports Prelude Hex Storage Primitives Sample_Primitives Sha512 P256 Opaque_Core
begin

text \<open>
  The OPAQUE-3DH client and server of \<open>opaque_adapter.py\<close>.  Their dictionaries are records; the
  server object holds its private key and, once a registration was answered, the pending OPRF keys.
  The lemmas show that an honest login agrees on both keys, which MACs each side accepts, and what
  the path for unknown users does and does not hide.
\<close>

section \<open>Client\<close>

record reg_state =
  rs_blind :: nat
  rs_password :: bytes

definition registration_start :: "prims \<Rightarrow> nat \<Rightarrow> bytes \<Rightarrow> (bytes \<times> reg_state) res" where
  "registration_start P r password =
     bindE (oprf_blind P r password) (\<lambda>(blind, M).
       Inr (M, \<lparr>rs_blind = blind, rs_password = password\<rparr>))"

text \<open>\<open>c_priv\<close> is the generated key, \<open>salt\<close> and \<open>nonce\<close> the envelope's randomness.\<close>

definition registration_finish ::
  "prims \<Rightarrow> reg_state \<Rightarrow> int \<Rightarrow> bytes \<Rightarrow> bytes \<Rightarrow> bytes \<Rightarrow> bytes res" where
  "registration_finish P state c_priv salt nonce reg_response =
     (let Z = slice reg_response 0 POINT_LEN;
          s_pub_b = drop POINT_LEN reg_response in
      bindE (load_pub P s_pub_b) (\<lambda>s_pub.
      bindE (oprf_finalize P (rs_password state) (rs_blind state) Z) (\<lambda>rw_raw.
      let c_pub = ec_public_bytes P c_priv in
      bindE (envelope_seal P rw_raw c_priv s_pub salt nonce) (\<lambda>envelope.
      let c_pub_b = c_pub in
        Inr (c_pub_b @ envelope)))))"

record login_state =
  ls_blind :: nat
  ls_password :: bytes
  ls_c_eph_priv :: bytes
  ls_c_eph_pub :: bytes
  ls_nonce_c :: bytes
  ls_M :: bytes

definition client_login_start ::
  "prims \<Rightarrow> nat \<Rightarrow> int \<Rightarrow> bytes \<Rightarrow> bytes \<Rightarrow> (bytes \<times> login_state) res" where
  "client_login_start P r c_eph_priv nonce_c password =
     bindE (oprf_blind P r password) (\<lambda>(blind, M).
     let ke1 = pack_ke1 M nonce_c (ec_public_bytes P c_eph_priv) in
     bindE (priv_bytes c_eph_priv) (\<lambda>eph.
       Inr (ke1, \<lparr>ls_blind = blind, ls_password = password, ls_c_eph_priv = eph,
         ls_c_eph_pub = ec_public_bytes P c_eph_priv, ls_nonce_c = nonce_c, ls_M = M\<rparr>)))"

definition mitm_msg :: pystr where
  "mitm_msg = lit ''Server MAC verification failed '' @ [8212] @ lit '' possible MITM''"

text \<open>
  The part of \<open>login_finish\<close> after the Diffie-Hellman values: transcript, keys, the server MAC check
  and the results (session key, export key, KE3).
\<close>

definition client_mac_check ::
  "prims \<Rightarrow> login_state \<Rightarrow> bytes \<Rightarrow> bytes \<Rightarrow> bytes \<Rightarrow> bytes \<Rightarrow> bytes \<Rightarrow> bytes \<Rightarrow> bytes \<Rightarrow> bytes \<Rightarrow>
   (bytes \<times> bytes \<times> bytes) res" where
  "client_mac_check P state Z envelope nonce_s s_eph_pub_b server_mac dh1 dh2 dh3 =
     (let c_eph_pub = ls_c_eph_pub state; nonce_c = ls_nonce_c state; M = ls_M state in
      bindE (int_to_bytes 3 (int (length envelope))) (\<lambda>env_len.
      let transcript = M @ nonce_c @ c_eph_pub @ Z @ env_len @ envelope @ nonce_s @ s_eph_pub_b;
          keys = derive_3dh P dh1 dh2 dh3 transcript;
          expected_server_mac = hmac_sha512 (dk_mac_key keys) (blit ''server'' @ transcript) in
      if server_mac \<noteq> expected_server_mac then Inl (PyError ValueError mitm_msg) else
      let client_mac = hmac_sha512 (dk_mac_key keys) (blit ''client'' @ transcript @ server_mac);
          session_key = dk_session_key keys;
          export_key = c_hkdf P 64 transcript (blit ''export-key'') session_key in
        Inr (session_key, export_key, client_mac)))"

definition client_login_finish ::
  "prims \<Rightarrow> login_state \<Rightarrow> bytes \<Rightarrow> (bytes \<times> bytes \<times> bytes) res" where
  "client_login_finish P state ke2 =
     (let (Z, envelope, nonce_s, s_eph_pub_b, server_mac) = unpack_ke2 ke2;
          password = ls_password state; blind = ls_blind state in
      bindE (load_priv P (ls_c_eph_priv state)) (\<lambda>c_eph_priv.
      bindE (oprf_finalize P password blind Z) (\<lambda>rw_raw.
      bindE (case envelope_open P rw_raw envelope of
               Inl e \<Rightarrow> if err_kind e = ValueError
                 then Inl (PyError ValueError (lit ''Login failed: '' @ err_msg e)) else Inl e
             | Inr r \<Rightarrow> Inr r) (\<lambda>(c_priv, s_pub).
      bindE (load_pub P s_eph_pub_b) (\<lambda>s_eph_pub.
      let dh1 = ec_exchange P c_eph_priv s_pub;
          dh2 = ec_exchange P c_priv s_eph_pub;
          dh3 = ec_exchange P c_eph_priv s_eph_pub in
      client_mac_check P state Z envelope nonce_s s_eph_pub_b server_mac dh1 dh2 dh3)))))"

section \<open>Server\<close>

record opaque_server =
  os_s_priv :: int
  os_pending :: "(pystr \<Rightarrow> bytes option) option"

definition opaque_server_new :: "int \<Rightarrow> opaque_server" where
  "opaque_server_new k = \<lparr>os_s_priv = k, os_pending = None\<rparr>"

text \<open>\<open>oprf_key\<close> is the private value of the generated key.\<close>

definition registration_respond ::
  "prims \<Rightarrow> nat \<Rightarrow> bytes \<Rightarrow> bytes \<Rightarrow> opaque_server \<Rightarrow> bytes res \<times> opaque_server" where
  "registration_respond P oprf_key credential_id reg_request os =
     (let M = reg_request in
      case oprf_evaluate oprf_key M of
        Inl e \<Rightarrow> (Inl e, os)
      | Inr Z \<Rightarrow>
          (let s_pub_b = ec_public_bytes P (os_s_priv os);
               pending = (case os_pending os of None \<Rightarrow> Map.empty | Some m \<Rightarrow> m) in
           case int_to_bytes 32 (int oprf_key) of
             Inl e \<Rightarrow> (Inl e, os\<lparr>os_pending := Some pending\<rparr>)
           | Inr kb \<Rightarrow> (Inr (Z @ s_pub_b), os\<lparr>os_pending := Some (pending(hex_str credential_id \<mapsto> kb))\<rparr>)))"

definition no_pending_msg :: pystr where
  "no_pending_msg = [39] @ lit ''ConcreteOpaqueServer'' @ [39] @ lit '' object has no attribute '' @ [39] @
     lit ''_pending_oprf_keys'' @ [39]"

definition registration_store ::
  "bytes \<Rightarrow> bytes \<Rightarrow> opaque_server \<Rightarrow> storage \<Rightarrow> unit res \<times> storage" where
  "registration_store credential_id reg_upload os sg =
     (let c_pub_b = slice reg_upload 0 65;
          envelope = drop 65 reg_upload in
      case os_pending os of
        None \<Rightarrow> (Inl (PyError AttributeError no_pending_msg), sg)
      | Some pending \<Rightarrow>
          (case pending (hex_str credential_id) of
             None \<Rightarrow> (raise ValueError ''No pending OPRF key for this credential_id'', sg)
           | Some oprf_key_b \<Rightarrow> store_opaque_record credential_id oprf_key_b c_pub_b envelope sg))"

text \<open>The random values of \<open>login_start\<close>: those of the fake path, then the ephemeral ones.\<close>

record login_random =
  lr_fake_oprf :: nat
  lr_fake_c_priv :: int
  lr_fake_salt :: bytes
  lr_fake_nonce :: bytes
  lr_fake_ct :: bytes
  lr_s_eph_priv :: int
  lr_nonce_s :: bytes

record server_state =
  ss_keys :: dh_keys
  ss_transcript :: bytes
  ss_server_mac :: bytes
  ss_is_fake :: bool

text \<open>The OPRF key, client key and envelope that \<open>login_start\<close> works with.\<close>

definition login_inputs ::
  "prims \<Rightarrow> login_random \<Rightarrow> opaque_record option \<Rightarrow> nat \<times> bytes \<times> bytes" where
  "login_inputs P rnd record_opt = (case record_opt of
     None \<Rightarrow>
       (lr_fake_oprf rnd, ec_public_bytes P (lr_fake_c_priv rnd),
        ENV_VERSION @ lr_fake_salt rnd @ lr_fake_nonce rnd @ lr_fake_ct rnd)
   | Some rec \<Rightarrow> (be_dec (or_oprf_key rec), or_client_pub rec, or_envelope rec))"

definition server_login_reply ::
  "prims \<Rightarrow> login_random \<Rightarrow> int \<Rightarrow> opaque_record option \<Rightarrow> bytes \<Rightarrow> (bytes \<times> server_state) res" where
  "server_login_reply P rnd s_priv record_opt ke1 =
     (let (M, nonce_c, c_eph_pub_b) = unpack_ke1 ke1;
          (oprf_key_int, c_pub_b, envelope) = login_inputs P rnd record_opt in
      bindE (oprf_evaluate oprf_key_int M) (\<lambda>Z.
      let s_eph_priv = lr_s_eph_priv rnd; s_eph_pub = ec_public_bytes P s_eph_priv;
          nonce_s = lr_nonce_s rnd in
      bindE (load_pub P c_eph_pub_b) (\<lambda>c_eph_pub.
      bindE (load_pub P c_pub_b) (\<lambda>c_pub.
      let dh1 = ec_exchange P s_priv c_eph_pub;
          dh2 = ec_exchange P s_eph_priv c_pub;
          dh3 = ec_exchange P s_eph_priv c_eph_pub in
      bindE (int_to_bytes 3 (int (length envelope))) (\<lambda>env_len.
      let transcript = M @ nonce_c @ c_eph_pub_b @ Z @ env_len @ envelope @ nonce_s @ s_eph_pub;
          keys = derive_3dh P dh1 dh2 dh3 transcript;
          server_mac = hmac_sha512 (dk_mac_key keys) (blit ''server'' @ transcript) in
      bindE (pack_ke2 Z envelope nonce_s s_eph_pub server_mac) (\<lambda>ke2.
        Inr (ke2, \<lparr>ss_keys = keys, ss_transcript = transcript, ss_server_mac = server_mac,
          ss_is_fake = (record_opt = None)\<rparr>)))))))"

definition server_login_start ::
  "prims \<Rightarrow> login_random \<Rightarrow> bytes \<Rightarrow> bytes \<Rightarrow> opaque_server \<Rightarrow> storage \<Rightarrow> (bytes \<times> server_state) res \<times> storage" where
  "server_login_start P rnd credential_id ke1 os sg =
     (case load_opaque_record credential_id sg of
        (Inl e, sg') \<Rightarrow> (Inl e, sg')
      | (Inr record_opt, sg') \<Rightarrow> (server_login_reply P rnd (os_s_priv os) record_opt ke1, sg'))"

definition server_login_finish :: "prims \<Rightarrow> server_state \<Rightarrow> bytes \<Rightarrow> (bytes \<times> bytes) res" where
  "server_login_finish P st ke3 =
     (if ss_is_fake st then raise ValueError ''Authentication failed''
      else
        let keys = ss_keys st; transcript = ss_transcript st; server_mac = ss_server_mac st;
            client_mac = ke3;
            expected = hmac_sha512 (dk_mac_key keys) (blit ''client'' @ transcript @ server_mac) in
        if client_mac \<noteq> expected then raise ValueError ''Client MAC verification failed''
        else
          let session_key = dk_session_key keys;
              export_key = c_hkdf P 64 transcript (blit ''export-key'') session_key in
          Inr (session_key, export_key))"

section \<open>An honest login\<close>

lemma oprf_blind_Inr: "oprf_blind P r pw = Inr (b, M) \<longleftrightarrow> b = r \<and>
    (\<exists>h. hash_to_curve P pw = Inr h \<and> p256_scalar_mult r h = Inr M)"
  by (auto simp: oprf_blind_def bindE_eq_Inr)

lemma oprf_blind_length: "oprf_blind P r pw = Inr (b, M) \<Longrightarrow> length M = 33"
  by (auto simp: oprf_blind_Inr scalar_mult_length)

lemma client_login_start_Inr:
  "client_login_start P r e n pw = Inr (ke1, st) \<longleftrightarrow> (\<exists>M eph. oprf_blind P r pw = Inr (r, M) \<and>
     priv_bytes e = Inr eph \<and> ke1 = pack_ke1 M n (ec_public_bytes P e) \<and>
     st = \<lparr>ls_blind = r, ls_password = pw, ls_c_eph_priv = eph, ls_c_eph_pub = ec_public_bytes P e,
       ls_nonce_c = n, ls_M = M\<rparr>)"
  by (auto simp: client_login_start_def bindE_eq_Inr oprf_blind_Inr Let_def)

text \<open>What both sides compute from the messages and the shared Diffie-Hellman values.\<close>

definition login_transcript :: "bytes \<Rightarrow> bytes \<Rightarrow> bytes \<Rightarrow> bytes \<Rightarrow> bytes \<Rightarrow> bytes \<Rightarrow> bytes \<Rightarrow> bytes" where
  "login_transcript M n epub Z env ns spub =
     M @ n @ epub @ Z @ be_enc 3 (length env) @ env @ ns @ spub"

lemma server_login_reply_ok:
  assumes "ec_keys_ok P" and "length M = 33" and "length n = 32"
    and "login_inputs P rnd rec = (k, ec_public_bytes P c, env)" and "length env < 2 ^ 24"
    and "p256_scalar_mult k M = Inr Z"
    and "T = login_transcript M n (ec_public_bytes P e) Z env (lr_nonce_s rnd) (ec_public_bytes P (lr_s_eph_priv rnd))"
    and "keys = derive_3dh P (ec_exchange P s (ec_public_bytes P e)) (ec_exchange P (lr_s_eph_priv rnd) (ec_public_bytes P c))
      (ec_exchange P (lr_s_eph_priv rnd) (ec_public_bytes P e)) T"
    and "mac = hmac_sha512 (dk_mac_key keys) (blit ''server'' @ T)"
  shows "\<exists>ke2. server_login_reply P rnd s rec (pack_ke1 M n (ec_public_bytes P e)) =
      Inr (ke2, \<lparr>ss_keys = keys, ss_transcript = T, ss_server_mac = mac, ss_is_fake = (rec = None)\<rparr>) \<and>
    pack_ke2 Z env (lr_nonce_s rnd) (ec_public_bytes P (lr_s_eph_priv rnd)) mac = Inr ke2"
proof -
  have l: "load_pub P (ec_public_bytes P x) = Inr (ec_public_bytes P x)" for x
    using ec_keys_okD(1) [OF assms(1)] by (simp add: load_pub_def)
  have env: "int_to_bytes 3 (int (length env)) = Inr (be_enc 3 (length env))"
    using assms(5) by simp
  obtain ke2 where ke2: "pack_ke2 Z env (lr_nonce_s rnd) (ec_public_bytes P (lr_s_eph_priv rnd)) mac = Inr ke2"
    using assms(5) by (simp add: pack_ke2_Inr)
  have "server_login_reply P rnd s rec (pack_ke1 M n (ec_public_bytes P e)) =
      Inr (ke2, \<lparr>ss_keys = keys, ss_transcript = T, ss_server_mac = mac, ss_is_fake = (rec = None)\<rparr>)"
    unfolding server_login_reply_def unpack_pack_ke1 [OF assms(2,3)] assms(4) prod.case Let_def oprf_evaluate_def
      assms(6) bindE_simps l env assms(7) [unfolded login_transcript_def, symmetric] assms(8) [symmetric]
      assms(9) [symmetric] ke2 ..
  with ke2 show ?thesis by blast
qed

lemma server_login_reply_exists:
  assumes "ec_keys_ok P" and "length M = 33" and "length n = 32"
    and "login_inputs P rnd rec = (k, ec_public_bytes P c, env)" and "length env < 2 ^ 24"
    and "p256_scalar_mult k M = Inr Z"
  shows "\<exists>ke2 ss. server_login_reply P rnd s rec (pack_ke1 M n (ec_public_bytes P e)) = Inr (ke2, ss)"
  using server_login_reply_ok [OF assms refl refl refl] by blast

lemma client_login_finish_ok:
  assumes "ec_keys_ok P" and "length M = 33" and "length Z = 33" and "length ns = 32" and "valid_priv P e"
    and "priv_bytes e = Inr eph"
    and "st = \<lparr>ls_blind = r, ls_password = pw, ls_c_eph_priv = eph, ls_c_eph_pub = ec_public_bytes P e,
       ls_nonce_c = n, ls_M = M\<rparr>"
    and "oprf_finalize P pw r Z = Inr rw" and "envelope_open P rw env = Inr (c, s_pub)"
    and "T = login_transcript M n (ec_public_bytes P e) Z env ns (ec_public_bytes P se)"
    and "keys = derive_3dh P (ec_exchange P e s_pub) (ec_exchange P c (ec_public_bytes P se))
      (ec_exchange P e (ec_public_bytes P se)) T"
    and "mac = hmac_sha512 (dk_mac_key keys) (blit ''server'' @ T)"
    and "pack_ke2 Z env ns (ec_public_bytes P se) mac = Inr ke2"
  shows "client_login_finish P st ke2 = Inr (dk_session_key keys,
    c_hkdf P 64 T (blit ''export-key'') (dk_session_key keys),
    hmac_sha512 (dk_mac_key keys) (blit ''client'' @ T @ mac))"
proof -
  have u: "unpack_ke2 ke2 = (Z, env, ns, ec_public_bytes P se, mac)"
    using unpack_pack_ke2 [OF assms(13,3,4) ec_keys_okD(2) [OF assms(1)], of "[]"] assms(12) by simp
  have l: "load_pub P (ec_public_bytes P se) = Inr (ec_public_bytes P se)"
    using ec_keys_okD(1) [OF assms(1)] by (simp add: load_pub_def)
  have e: "load_priv P eph = Inr e"
    using priv_bytes_valid [OF assms(5)] assms(6) by auto
  have env: "int_to_bytes 3 (int (length env)) = Inr (be_enc 3 (length env))"
    using assms(13) by (simp add: pack_ke2_Inr)
  have st: "ls_blind st = r" "ls_password st = pw" "ls_c_eph_priv st = eph" "ls_c_eph_pub st = ec_public_bytes P e"
    "ls_nonce_c st = n" "ls_M st = M" by (simp_all add: assms(7))
  show ?thesis
    unfolding client_login_finish_def client_mac_check_def u prod.case Let_def st e bindE_simps assms(8,9) sum.case l env
      assms(10) [unfolded login_transcript_def, symmetric] assms(11) [symmetric] assms(12) [symmetric]
    by simp
qed

lemma client_mac_check_Inr:
  assumes "client_mac_check P st Z env ns spub mac dh1 dh2 dh3 = Inr (sk, ek, ke3)"
  shows "\<exists>(keys :: dh_keys) T. T = ls_M st @ ls_nonce_c st @ ls_c_eph_pub st @ Z @ be_enc 3 (length env) @ env @ ns @ spub \<and>
      mac = hmac_sha512 (dk_mac_key keys) (blit ''server'' @ T) \<and>
      ke3 = hmac_sha512 (dk_mac_key keys) (blit ''client'' @ T @ mac) \<and> sk = dk_session_key keys \<and>
      ek = c_hkdf P 64 T (blit ''export-key'') sk"
proof -
  define T where "T = ls_M st @ ls_nonce_c st @ ls_c_eph_pub st @ Z @ be_enc 3 (length env) @ env @ ns @ spub"
  define keys where "keys = derive_3dh P dh1 dh2 dh3 T"
  from assms have "mac = hmac_sha512 (dk_mac_key keys) (blit ''server'' @ T)"
    "ke3 = hmac_sha512 (dk_mac_key keys) (blit ''client'' @ T @ mac)" "sk = dk_session_key keys"
    "ek = c_hkdf P 64 T (blit ''export-key'') sk"
    unfolding keys_def T_def client_mac_check_def Let_def
    by (auto simp: bindE_eq_Inr int_to_bytes_Inr split: if_splits)
  then show ?thesis by - (rule exI [of _ keys], rule exI [of _ T], intro conjI, rule T_def)
qed

lemma login_agrees:
  assumes "ecdh_ok P" and "ec_keys_ok P" and "valid_priv P e" and "length n = 32" and "length (lr_nonce_s rnd) = 32"
    and "client_login_start P r e n pw = Inr (ke1, lst)"
    and "login_inputs P rnd (Some rec) = (k, ec_public_bytes P c, env)" and "length env < 2 ^ 24"
    and "p256_scalar_mult k (ls_M lst) = Inr Z"
    and "oprf_finalize P pw r Z = Inr rw" and "envelope_open P rw env = Inr (c, ec_public_bytes P s)"
  shows "\<exists>ke2 ss sk ek ke3. server_login_reply P rnd s (Some rec) ke1 = Inr (ke2, ss) \<and>
    client_login_finish P lst ke2 = Inr (sk, ek, ke3) \<and> server_login_finish P ss ke3 = Inr (sk, ek)"
proof -
  obtain M eph where M: "oprf_blind P r pw = Inr (r, M)" "priv_bytes e = Inr eph"
      "ke1 = pack_ke1 M n (ec_public_bytes P e)"
    and lst: "lst = \<lparr>ls_blind = r, ls_password = pw, ls_c_eph_priv = eph, ls_c_eph_pub = ec_public_bytes P e,
       ls_nonce_c = n, ls_M = M\<rparr>"
    using assms(6) unfolding client_login_start_Inr by blast
  have Z: "p256_scalar_mult k M = Inr Z" using assms(9) lst by simp
  have lens: "length M = 33" "length Z = 33"
    using oprf_blind_length [OF M(1)] scalar_mult_length [OF Z] by simp_all
  define se where "se = lr_s_eph_priv rnd"
  define T where "T = login_transcript M n (ec_public_bytes P e) Z env (lr_nonce_s rnd) (ec_public_bytes P se)"
  define keys where "keys = derive_3dh P (ec_exchange P s (ec_public_bytes P e))
    (ec_exchange P se (ec_public_bytes P c)) (ec_exchange P se (ec_public_bytes P e)) T"
  define mac where "mac = hmac_sha512 (dk_mac_key keys) (blit ''server'' @ T)"
  from server_login_reply_ok [OF assms(2) lens(1) assms(4,7,8) Z T_def [unfolded se_def] keys_def [unfolded se_def] mac_def]
  obtain ke2 where ke2: "server_login_reply P rnd s (Some rec) ke1 =
      Inr (ke2, \<lparr>ss_keys = keys, ss_transcript = T, ss_server_mac = mac, ss_is_fake = False\<rparr>)"
    "pack_ke2 Z env (lr_nonce_s rnd) (ec_public_bytes P se) mac = Inr ke2"
    unfolding M(3) se_def by auto
  have "keys = derive_3dh P (ec_exchange P e (ec_public_bytes P s)) (ec_exchange P c (ec_public_bytes P se))
      (ec_exchange P e (ec_public_bytes P se)) T"
    unfolding keys_def ecdh_okD [OF assms(1), of s e] ecdh_okD [OF assms(1), of se c] ecdh_okD [OF assms(1), of se e] ..
  from client_login_finish_ok [OF assms(2) lens assms(5,3) M(2) lst assms(10,11) T_def this mac_def ke2(2)]
  show ?thesis using ke2(1) by (auto simp: server_login_finish_def Let_def)
qed

section \<open>Registration\<close>

lemma registration_start_Inr: "registration_start P r pw = Inr (M, st) \<longleftrightarrow>
    oprf_blind P r pw = Inr (r, M) \<and> st = \<lparr>rs_blind = r, rs_password = pw\<rparr>"
  by (auto simp: registration_start_def bindE_eq_Inr oprf_blind_Inr)

lemma registration_respond_Inr:
  "registration_respond P k cid M os = (Inr resp, os') \<Longrightarrow> (\<exists>Z. p256_scalar_mult k M = Inr Z \<and>
     resp = Z @ ec_public_bytes P (os_s_priv os)) \<and> os_s_priv os' = os_s_priv os \<and> k < 2 ^ 256 \<and>
     (\<exists>m. os_pending os' = Some m \<and> m (hex_str cid) = Some (be_enc 32 k))"
  by (auto simp: registration_respond_def oprf_evaluate_def Let_def int_to_bytes_Inr split: sum.splits)

lemma registration_upload:
  assumes "ec_keys_ok P" and "hkdf_expand_ok P" and "aesgcm_ok P" and "argon2_ok P" and "valid_priv P c"
    and "length salt = 16" and "length nonce = 12" and "length Z = 33" and "oprf_finalize P pw r Z = Inr rw"
  shows "\<exists>env. registration_finish P \<lparr>rs_blind = r, rs_password = pw\<rparr> c salt nonce (Z @ ec_public_bytes P s) =
      Inr (ec_public_bytes P c @ env) \<and> length env = 142 \<and> envelope_open P rw env = Inr (c, ec_public_bytes P s)"
proof -
  have l: "load_pub P (ec_public_bytes P s) = Inr (ec_public_bytes P s)"
    using ec_keys_okD(1) [OF assms(1)] by (simp add: load_pub_def)
  from envelope_seal_open [OF assms(4,2,3,5) l ec_keys_okD(2) [OF assms(1)] assms(6,7), of rw]
  obtain env where env: "envelope_seal P rw c (ec_public_bytes P s) salt nonce = Inr env" "length env = 142"
    "envelope_open P rw env = Inr (c, ec_public_bytes P s)" by blast
  have "slice (Z @ ec_public_bytes P s) 0 33 = Z" "drop 33 (Z @ ec_public_bytes P s) = ec_public_bytes P s"
    using assms(8) by (simp_all add: slice_def)
  with l env assms(9) show ?thesis
    by (simp add: registration_finish_def Let_def)
qed

lemma registration_store_ok:
  assumes "users_ready sg" and "os_pending os = Some m" and "m (hex_str cid) = Some kb" and "length pub = 65"
  shows "\<exists>sg'. registration_store cid (pub @ env) os sg = (Inr (), sg') \<and> users_open sg' \<and>
    load_opaque_record cid sg' = (Inr (Some \<lparr>or_oprf_key = kb, or_client_pub = pub, or_envelope = env,
      or_credential_id = cid\<rparr>), sg')"
proof -
  from store_opaque_record_ok [OF users_db_open [OF assms(1)], of cid kb pub env]
  obtain sg' where sg': "store_opaque_record cid kb pub env sg = (Inr (), sg')" "users_open sg'"
    "users_dict sg' (hex_str cid) = Some (record_json \<lparr>or_oprf_key = kb, or_client_pub = pub, or_envelope = env,
      or_credential_id = cid\<rparr>)"
    unfolding store_after_open by auto
  with load_opaque_record_found [OF sg'(2,3)] assms(2-4) show ?thesis
    by (simp add: registration_store_def slice_def)
qed

section \<open>Replies for known and unknown users\<close>

lemma server_login_reply_Inr:
  assumes "server_login_reply P rnd s rec ke1 = Inr (ke2, ss)"
  shows "ss_is_fake ss = (rec = None) \<and> (\<exists>M (n :: bytes) (epub :: bytes) k cpub env Z. unpack_ke1 ke1 = (M, n, epub) \<and>
    login_inputs P rnd rec = (k, cpub, env) \<and> p256_scalar_mult k M = Inr Z \<and>
    pack_ke2 Z env (lr_nonce_s rnd) (ec_public_bytes P (lr_s_eph_priv rnd)) (ss_server_mac ss) = Inr ke2 \<and>
    length (ss_server_mac ss) = 64)"
proof -
  obtain M n epub where u: "unpack_ke1 ke1 = (M, n, epub)" by (cases "unpack_ke1 ke1")
  obtain k cpub env where i: "login_inputs P rnd rec = (k, cpub, env)" by (cases "login_inputs P rnd rec")
  from assms show ?thesis
    unfolding server_login_reply_def u i prod.case Let_def bindE_eq_Inr oprf_evaluate_def by auto
qed

lemma pack_ke2_length:
  "pack_ke2 Z env ns spub mac = Inr ke2 \<Longrightarrow> length ke2 = length Z + 3 + length env + length ns + length spub + length mac"
  by (auto simp: pack_ke2_Inr)

text \<open>The randomness of the fake envelope has the code's lengths.\<close>

definition fake_random_ok :: "login_random \<Rightarrow> bool" where
  "fake_random_ok rnd \<longleftrightarrow> length (lr_fake_salt rnd) = 16 \<and> length (lr_fake_nonce rnd) = 12 \<and>
     length (lr_fake_ct rnd) = 113 \<and> length (lr_nonce_s rnd) = 32"

lemma login_reply_length:
  assumes "ec_keys_ok P" and "server_login_reply P rnd s rec ke1 = Inr (ke2, ss)" and "fake_random_ok rnd"
    and "\<forall>r. rec = Some r \<longrightarrow> length (or_envelope r) = 142"
  shows "length ke2 = 339"
proof -
  from server_login_reply_Inr [OF assms(2)] obtain M k cpub env Z where
    i: "login_inputs P rnd rec = (k, cpub, env)" and Z: "p256_scalar_mult k M = Inr Z"
    and p: "pack_ke2 Z env (lr_nonce_s rnd) (ec_public_bytes P (lr_s_eph_priv rnd)) (ss_server_mac ss) = Inr ke2"
    "length (ss_server_mac ss) = 64" by blast
  have "length env = 142"
    using i assms(3,4) by (auto simp: login_inputs_def fake_random_ok_def split: option.splits)
  with pack_ke2_length [OF p(1)] p(2) scalar_mult_length [OF Z] ec_keys_okD(2) [OF assms(1)] assms(3)
  show ?thesis by (simp add: fake_random_ok_def)
qed

text \<open>The visible parts of a KE2: the OPRF answer and the envelope.\<close>

definition ke2_answer :: "bytes \<Rightarrow> bytes \<times> bytes" where
  "ke2_answer ke2 = (case unpack_ke2 ke2 of (Z, env, _, _, _) \<Rightarrow> (Z, env))"

lemma ke2_answer_eq:
  assumes "ec_keys_ok P" and "server_login_reply P rnd s rec ke1 = Inr (ke2, ss)" and "length (lr_nonce_s rnd) = 32"
    and "login_inputs P rnd rec = (k, cpub, env)" and "unpack_ke1 ke1 = (M, n, epub)"
  shows "\<exists>Z. p256_scalar_mult k M = Inr Z \<and> ke2_answer ke2 = (Z, env)"
proof -
  from server_login_reply_Inr [OF assms(2)] obtain Z where
    Z: "p256_scalar_mult k M = Inr Z"
    and p: "pack_ke2 Z env (lr_nonce_s rnd) (ec_public_bytes P (lr_s_eph_priv rnd)) (ss_server_mac ss) = Inr ke2"
    "length (ss_server_mac ss) = 64" using assms(4,5) by auto
  from unpack_pack_ke2 [OF p(1) scalar_mult_length [OF Z] assms(3) ec_keys_okD(2) [OF assms(1)] p(2), of "[]"] Z
  show ?thesis by (simp add: ke2_answer_def)
qed

section \<open>A sample run\<close>

text \<open>An execution of registration and login on the sample primitives with all blinds equal to 1.\<close>

definition sample_random :: "nat \<Rightarrow> login_random" where
  "sample_random x = \<lparr>lr_fake_oprf = 1, lr_fake_c_priv = 11, lr_fake_salt = replicate 16 1,
     lr_fake_nonce = replicate 12 2, lr_fake_ct = replicate 113 (word_of_nat x), lr_s_eph_priv = 13,
     lr_nonce_s = replicate 32 4\<rparr>"

lemma sample_random_ok [simp]: "fake_random_ok (sample_random x)" "length (lr_nonce_s (sample_random x)) = 32"
  by (simp_all add: fake_random_ok_def sample_random_def)

lemma sample_valid_priv: "0 < k \<Longrightarrow> k < 2 ^ 255 \<Longrightarrow> valid_priv sample k"
  by (simp add: valid_priv_def)

definition sample_point :: bytes where
  "sample_point = projr (hash_to_curve sample [112, 119])"

lemma sample_point_hash: "hash_to_curve sample [112, 119] = Inr sample_point"
proof -
  have "\<exists>c. hash_to_curve sample [112, 119] = Inr c"
    by (simp add: hash_to_curve_def Let_def upt_conv_Cons)
  then show ?thesis by (auto simp: sample_point_def)
qed

lemma sample_point_mult: "p256_scalar_mult 1 sample_point = Inr sample_point"
  by (rule scalar_mult_1 [OF hash_to_curve_ok [OF sample_point_hash]])

lemma sample_point_length: "length sample_point = 33"
  using scalar_mult_length [OF sample_point_mult] .

lemma sample_blind: "oprf_blind sample 1 [112, 119] = Inr (1, sample_point)"
  unfolding oprf_blind_Inr using sample_point_hash sample_point_mult by blast

lemma sample_finalize: "\<exists>rw. oprf_finalize sample [112, 119] 1 sample_point = Inr rw"
proof -
  have "pow_mod 1 (P256_ORDER - 2) P256_ORDER = 1" by (simp add: pow_mod_eq P256_ORDER_def)
  then show ?thesis using sample_point_mult by (simp add: oprf_finalize_def)
qed

definition sample_os :: opaque_server where
  "sample_os = snd (registration_respond sample 1 [9] sample_point (opaque_server_new 5))"

lemma sample_respond:
  "registration_respond sample 1 [9] sample_point (opaque_server_new 5) = (Inr (sample_point @ sample_public 5), sample_os)"
  using sample_point_mult
  by (simp add: sample_os_def registration_respond_def oprf_evaluate_def opaque_server_new_def Let_def int_to_bytes_def)

definition sample_ke1 :: bytes where
  "sample_ke1 = pack_ke1 sample_point (replicate 32 9) (sample_public 3)"

lemma sample_login_start:
  "\<exists>lst. client_login_start sample 1 3 (replicate 32 9) [112, 119] = Inr (sample_ke1, lst) \<and> ls_M lst = sample_point"
  using sample_blind priv_bytes_valid [OF sample_valid_priv, of 3]
  by (auto simp: client_login_start_Inr sample_ke1_def)

lemma sample_fake_reply: "\<exists>ke2 ss. server_login_reply sample (sample_random x) 5 None sample_ke1 = Inr (ke2, ss)"
proof -
  have "login_inputs sample (sample_random x) None =
      (1, ec_public_bytes sample 11, [1] @ replicate 16 1 @ replicate 12 2 @ replicate 113 (word_of_nat x))"
    by (simp add: login_inputs_def sample_random_def)
  from server_login_reply_exists [OF _ _ _ this _ sample_point_mult, of "replicate 32 9" 5 3]
  show ?thesis by (simp add: sample_point_length sample_ke1_def)
qed

definition sample_record :: opaque_record where
  "sample_record = \<lparr>or_oprf_key = be_enc 32 1, or_client_pub = sample_public 7, or_envelope = replicate 142 1,
     or_credential_id = [9]\<rparr>"

lemma sample_real_reply:
  "\<exists>ke2 ss. server_login_reply sample (sample_random x) 5 (Some sample_record) sample_ke1 = Inr (ke2, ss)"
proof -
  have "login_inputs sample (sample_random x) (Some sample_record) = (1, ec_public_bytes sample 7, replicate 142 1)"
    by (simp add: login_inputs_def sample_record_def)
  from server_login_reply_exists [OF _ _ _ this _ sample_point_mult, of "replicate 32 9" 5 3]
  show ?thesis by (simp add: sample_point_length sample_ke1_def)
qed

section \<open>Properties\<close>

text \<open>
  C11: register, then log in with the same password: the record is stored, the login is answered, the
  client accepts the server and the server accepts the client, and both hold the same session and
  export key.  The OPRF is assumed to unblind: for the two blinds used it finalises to one secret.
\<close>

theorem opaque_register_login_agree:
  assumes "ecdh_ok P" and "ec_keys_ok P" and "hkdf_expand_ok P" and "aesgcm_ok P" and "argon2_ok P"
    and "valid_priv P c" and "valid_priv P e" and "length salt = 16" and "length nonce = 12"
    and "length n = 32" and "length (lr_nonce_s rnd) = 32" and "users_ready sg"
    and "registration_start P r0 pw = Inr (M0, rst)"
    and "registration_respond P k cid M0 os = (Inr resp, os')"
    and "client_login_start P r1 e n pw = Inr (ke1, lst)"
    and "p256_scalar_mult k M0 = Inr Z0" and "p256_scalar_mult k (ls_M lst) = Inr Z1"
    and "oprf_finalize P pw r0 Z0 = Inr rw" and "oprf_finalize P pw r1 Z1 = Inr rw"
  shows "\<exists>upload sg' ke2 ss sk ek ke3. registration_finish P rst c salt nonce resp = Inr upload \<and>
    registration_store cid upload os' sg = (Inr (), sg') \<and>
    server_login_start P rnd cid ke1 (opaque_server_new (os_s_priv os)) sg' = (Inr (ke2, ss), sg') \<and>
    client_login_finish P lst ke2 = Inr (sk, ek, ke3) \<and> server_login_finish P ss ke3 = Inr (sk, ek)"
proof -
  let ?s = "os_s_priv os"
  have rst: "rst = \<lparr>rs_blind = r0, rs_password = pw\<rparr>"
    using assms(13) by (simp add: registration_start_Inr)
  from registration_respond_Inr [OF assms(14)] assms(16) obtain m where resp: "resp = Z0 @ ec_public_bytes P ?s"
    and m: "os_pending os' = Some m" "m (hex_str cid) = Some (be_enc 32 k)" and k: "k < 2 ^ 256" by auto
  from registration_upload [OF assms(2-6,8,9) scalar_mult_length [OF assms(16)] assms(18), of ?s]
  obtain env where env: "registration_finish P rst c salt nonce resp = Inr (ec_public_bytes P c @ env)"
    "length env = 142" "envelope_open P rw env = Inr (c, ec_public_bytes P ?s)"
    unfolding rst resp by blast
  let ?rec = "\<lparr>or_oprf_key = be_enc 32 k, or_client_pub = ec_public_bytes P c, or_envelope = env,
    or_credential_id = cid\<rparr>"
  from registration_store_ok [OF assms(12) m ec_keys_okD(2) [OF assms(2)], of c env] obtain sg' where
    sg': "registration_store cid (ec_public_bytes P c @ env) os' sg = (Inr (), sg')"
    "load_opaque_record cid sg' = (Inr (Some ?rec), sg')" by blast
  have i: "login_inputs P rnd (Some ?rec) = (k, ec_public_bytes P c, env)"
    using k by (simp add: login_inputs_def)
  have "length env < 2 ^ 24" using env(2) by simp
  from login_agrees [OF assms(1,2,7,10,11,15) i this assms(17,19) env(3)] env(1) sg' show ?thesis
    by (auto simp: server_login_start_def opaque_server_new_def)
qed

theorem opaque_register_login_agree_witness:
  "\<exists>rst lst upload sg' ke2 ss sk ek ke3. registration_finish sample rst 7 (replicate 16 1) (replicate 12 2)
       (sample_point @ sample_public 5) = Inr upload \<and>
     registration_store [9] upload sample_os sample_storage = (Inr (), sg') \<and>
     server_login_start sample (sample_random 1) [9] sample_ke1 (opaque_server_new 5) sg' = (Inr (ke2, ss), sg') \<and>
     client_login_finish sample lst ke2 = Inr (sk, ek, ke3) \<and> server_login_finish sample ss ke3 = Inr (sk, ek)"
proof -
  obtain lst where lst: "client_login_start sample 1 3 (replicate 32 9) [112, 119] = Inr (sample_ke1, lst)"
    "ls_M lst = sample_point" using sample_login_start by blast
  obtain rw where rw: "oprf_finalize sample [112, 119] 1 sample_point = Inr rw" using sample_finalize by blast
  have st: "registration_start sample 1 [112, 119] = Inr (sample_point, \<lparr>rs_blind = 1, rs_password = [112, 119]\<rparr>)"
    unfolding registration_start_Inr using sample_blind by blast
  have sg: "users_ready sample_storage" by (simp add: users_ready_def sample_storage_def)
  have m: "p256_scalar_mult 1 (ls_M lst) = Inr sample_point" unfolding lst(2) by (rule sample_point_mult)
  from opaque_register_login_agree [OF _ _ _ _ _ sample_valid_priv sample_valid_priv _ _ _ _ sg st sample_respond
      lst(1) sample_point_mult m rw rw, of 7 "replicate 16 1" "replicate 12 2" "sample_random 1"]
  show ?thesis by (simp add: opaque_server_new_def) blast
qed





text \<open>
  Known and unknown users are told apart all the same: the final error for an unknown user is
  another one than for a wrong KE3 of a known user, and asking twice with the same KE1 shows a
  known user, whose OPRF answer and envelope are always the stored ones, and an unknown one, whose
  envelope is drawn anew each time.
\<close>

theorem unknown_user_oracle:
  assumes "ec_keys_ok P" and "fake_random_ok r1" and "fake_random_ok r2" and "lr_fake_ct r1 \<noteq> lr_fake_ct r2"
    and "server_login_reply P r1 s rec ke1 = Inr (k1, ss1)" and "server_login_reply P r2 s rec ke1 = Inr (k2, ss2)"
  shows "(ke2_answer k1 = ke2_answer k2 \<longleftrightarrow> rec \<noteq> None) \<and>
    (\<forall>ke3 e. server_login_finish P ss1 ke3 = Inl e \<longrightarrow>
      (err_msg e = lit ''Authentication failed'' \<longleftrightarrow> rec = None))"
proof -
  obtain M n epub where u: "unpack_ke1 ke1 = (M, n, epub)" by (cases "unpack_ke1 ke1")
  obtain a1 b1 e1 where i1: "login_inputs P r1 rec = (a1, b1, e1)" by (cases "login_inputs P r1 rec")
  obtain a2 b2 e2 where i2: "login_inputs P r2 rec = (a2, b2, e2)" by (cases "login_inputs P r2 rec")
  have n: "length (lr_nonce_s r1) = 32" "length (lr_nonce_s r2) = 32"
    using assms(2,3) by (simp_all add: fake_random_ok_def)
  from ke2_answer_eq [OF assms(1,5) n(1) i1 u] ke2_answer_eq [OF assms(1,6) n(2) i2 u]
  have a: "ke2_answer k1 = ke2_answer k2 \<longleftrightarrow> rec \<noteq> None"
    using i1 i2 assms(2-4) by (cases rec) (auto simp: login_inputs_def fake_random_ok_def)
  have f: "ss_is_fake ss1 = (rec = None)" using server_login_reply_Inr [OF assms(5)] by blast
  have "\<forall>ke3 e. server_login_finish P ss1 ke3 = Inl e \<longrightarrow>
      (err_msg e = lit ''Authentication failed'' \<longleftrightarrow> rec = None)"
    using f by (auto simp: server_login_finish_def Let_def raise_def split: if_splits)
  with a show ?thesis by blast
qed

theorem unknown_user_oracle_witness:
  "\<exists>k1 k2 ss1 ss2. server_login_reply sample (sample_random 1) 5 None sample_ke1 = Inr (k1, ss1) \<and>
     server_login_reply sample (sample_random 2) 5 None sample_ke1 = Inr (k2, ss2) \<and> ke2_answer k1 \<noteq> ke2_answer k2"
proof -
  obtain k1 ss1 k2 ss2 where r: "server_login_reply sample (sample_random 1) 5 None sample_ke1 = Inr (k1, ss1)"
    "server_login_reply sample (sample_random 2) 5 None sample_ke1 = Inr (k2, ss2)"
    using sample_fake_reply by metis
  have "lr_fake_ct (sample_random 1) \<noteq> lr_fake_ct (sample_random 2)" by (simp add: sample_random_def)
  from unknown_user_oracle [OF _ _ _ this r] r show ?thesis by auto
qed

text \<open>
  Registration never checks for an existing record: whoever completes a registration for a
  credential identifier replaces the stored record of its user, and later logins use the new one.
\<close>

theorem registration_overwrites:
  assumes "users_ready sg" and "load_opaque_record cid sg = (Inr (Some old), sg0)"
    and "registration_respond P k cid M os = (Inr resp, os')" and "length pub = 65"
  shows "\<exists>sg'. registration_store cid (pub @ env) os' sg = (Inr (), sg') \<and>
    load_opaque_record cid sg' = (Inr (Some \<lparr>or_oprf_key = be_enc 32 k, or_client_pub = pub, or_envelope = env,
      or_credential_id = cid\<rparr>), sg')"
  using registration_respond_Inr [OF assms(3)] registration_store_ok [OF assms(1) _ _ assms(4)] by blast

theorem registration_overwrites_witness:
  "\<exists>sg sg0 old sg'. load_opaque_record [9] sg = (Inr (Some old), sg0) \<and>
     registration_store [9] (sample_public 7 @ [1]) sample_os sg = (Inr (), sg') \<and>
     fst (load_opaque_record [9] sg') = Inr (Some \<lparr>or_oprf_key = be_enc 32 1, or_client_pub = sample_public 7,
       or_envelope = [1], or_credential_id = [9]\<rparr>)"
proof -
  have "users_ready sample_storage" by (simp add: users_ready_def sample_storage_def)
  from store_opaque_record_ok [OF users_db_open [OF this], of "[9]" "[]" "[]" "[]"] obtain sg where
    sg: "users_open sg" "users_dict sg (hex_str [9]) = Some (record_json \<lparr>or_oprf_key = [], or_client_pub = [],
      or_envelope = [], or_credential_id = [9]\<rparr>)" by auto
  note old = load_opaque_record_found [OF sg]
  from registration_overwrites [OF users_open_ready [OF sg(1)] old sample_respond, of "sample_public 7" "[1]"] old
  show ?thesis by fastforce
qed

end
