(* ===== verification/Server.thy ===== *)
theory Server
  imports Prelude Hex Utf8 Codec Framing Connection Primitives Kdf Record_Layer Ratelimit
    Server_Config Storage Pki Opaque
begin

text \<open>
  A server session (\<open>server.py\<close>): one TCP connection that runs the registration or the login flow
  and, after a login, the encrypted echo loop.  The state is the connection, the process-wide rate
  limiter and record store, and the OPAQUE object of the session.  Console output is left out.
\<close>

section \<open>State\<close>

definition REG_VERSION :: int where [simp]: "REG_VERSION = 2"

text \<open>What a session is constructed with: the peer's address, the server's key and the two certificates.\<close>

record server_session =
  se_ip :: pystr
  se_server_key :: int
  se_server_cert :: x509_cert
  se_ca_cert :: x509_cert

text \<open>What a session changes; the limiter is the module's singleton, \<open>None\<close> before its first use.\<close>

record world =
  w_conn :: conn
  w_limiter :: "rate_limiter option"
  w_storage :: storage
  w_opaque :: opaque_server
  w_closed :: bool

text \<open>The random values and clock readings a session draws, each at its own place.\<close>

record session_random =
  sr_now_limiter :: int
  sr_now_config :: int
  sr_server_nonce :: bytes
  sr_sig_config :: bytes
  sr_sig_verify :: bytes
  sr_oprf_key :: nat
  sr_login :: login_random

section \<open>Operations on parts of the state\<close>

definition on_conn :: "(conn, 'a) st_res \<Rightarrow> (world, 'a) st_res" where
  "on_conn m w = (case m (w_conn w) of (r, c) \<Rightarrow> (r, w\<lparr>w_conn := c\<rparr>))"

lemma on_conn_eq: "on_conn m w = (r, w') \<longleftrightarrow> (\<exists>c. m (w_conn w) = (r, c) \<and> w' = w\<lparr>w_conn := c\<rparr>)"
  by (cases "m (w_conn w)") (auto simp: on_conn_def)

definition on_opaque :: "(opaque_server, 'a) st_res \<Rightarrow> (world, 'a) st_res" where
  "on_opaque m w = (case m (w_opaque w) of (r, os) \<Rightarrow> (r, w\<lparr>w_opaque := os\<rparr>))"

text \<open>An operation that reads the OPAQUE object and works on the store.\<close>

definition on_storage :: "(opaque_server \<Rightarrow> (storage, 'a) st_res) \<Rightarrow> (world, 'a) st_res" where
  "on_storage m w = (case m (w_opaque w) (w_storage w) of (r, sg) \<Rightarrow> (r, w\<lparr>w_storage := sg\<rparr>))"

lemma on_opaque_eq: "on_opaque m w = (r, w') \<longleftrightarrow> (\<exists>os. m (w_opaque w) = (r, os) \<and> w' = w\<lparr>w_opaque := os\<rparr>)"
  by (cases "m (w_opaque w)") (auto simp: on_opaque_def)

lemma on_storage_eq: "on_storage m w = (r, w') \<longleftrightarrow>
    (\<exists>sg. m (w_opaque w) (w_storage w) = (r, sg) \<and> w' = w\<lparr>w_storage := sg\<rparr>)"
  by (cases "m (w_opaque w) (w_storage w)") (auto simp: on_storage_def)

definition limiter_allow :: "int \<Rightarrow> pystr \<Rightarrow> bytes \<Rightarrow> (world, bool) st_res" where
  "limiter_allow now ip cid w =
     (case allow now ip cid (get_limiter (w_limiter w)) of (b, rl) \<Rightarrow> (Inr b, w\<lparr>w_limiter := Some rl\<rparr>))"

definition limiter_reset :: "pystr \<Rightarrow> bytes \<Rightarrow> (world, unit) st_res" where
  "limiter_reset ip cid w =
     (Inr (), w\<lparr>w_limiter := Some (reset_limiter ip cid (get_limiter (w_limiter w)))\<rparr>)"

text \<open>\<open>_alert\<close>: every exception of encoding or sending is swallowed.\<close>

definition send_alert :: "pystr \<Rightarrow> (world, unit) st_res" where
  "send_alert msg w =
     (case on_conn (bindS (liftS (encode_alert ALERT_FATAL msg)) conn_send) w of (_, w') \<Rightarrow> (Inr (), w'))"

section \<open>ServerHello\<close>

definition build_signed_server_hello ::
  "prims \<Rightarrow> server_session \<Rightarrow> session_random \<Rightarrow> transcript \<Rightarrow> bytes \<Rightarrow> bytes res" where
  "build_signed_server_hello P se rnd transcript_before_sh opaque_ke2 =
     bindE (encode_server_config SERVER_ID (sr_now_config rnd)) (\<lambda>server_config.
     let server_config_sig = sign_server_config P (se_server_key se) (sr_sig_config rnd) server_config in
     bindE (encode_cert_chain (se_ca_cert se) (se_server_cert se)) (\<lambda>cert_chain.
     bindE (encode_server_hello_core 1 (sr_server_nonce rnd) cert_chain server_config opaque_ke2) (\<lambda>core.
     let cert_verify_sig = sign_cert_verify P (se_server_key se) (sr_sig_verify rnd)
           (transcript_digest P transcript_before_sh) core in
     encode_server_hello core server_config_sig cert_verify_sig)))"

section \<open>Registration\<close>

definition handle_registration ::
  "prims \<Rightarrow> server_session \<Rightarrow> session_random \<Rightarrow> parsed_client_hello \<Rightarrow> bytes \<Rightarrow> (world, unit) st_res" where
  "handle_registration P se rnd ch raw_client_hello =
     bindS (liftS (transcript_add (lit ''client_hello'') raw_client_hello transcript_new)) (\<lambda>transcript.
     bindS (on_opaque (registration_respond P (sr_oprf_key rnd) (ch_credential_id ch) (ch_opaque_ke1 ch))) (\<lambda>reg_response.
     bindS (liftS (build_signed_server_hello P se rnd transcript reg_response)) (\<lambda>server_hello.
     bindS (on_conn (conn_send server_hello)) (\<lambda>_.
     bindS (on_conn conn_recv) (\<lambda>cf_raw.
     bindS (liftS (decode_client_finish cf_raw)) (\<lambda>cf.
     bindS (on_storage (registration_store (ch_credential_id ch) (cf_opaque_ke3 cf))) (\<lambda>_.
     bindS (liftS encode_close) (\<lambda>close.
       on_conn (conn_send close)))))))))"

section \<open>The echo loop\<close>

text \<open>One iteration: the loop breaks, an exception leaves it, or it goes on with new record states.\<close>

datatype loop_step = Break | Raise py_error | Next direction_state direction_state

definition echo_reply :: "bytes \<Rightarrow> bytes res" where
  "echo_reply plaintext = utf8_encode (lit ''echo:'' @ utf8_replace plaintext)"

definition app_step ::
  "prims \<Rightarrow> direction_state \<Rightarrow> direction_state \<Rightarrow> world \<Rightarrow> loop_step \<times> world" where
  "app_step P send_enc recv_enc w =
     (case on_conn conn_recv w of
        (Inl e, w) \<Rightarrow> if err_kind e = ConnectionError then (Break, w) else (Raise e, w)
      | (Inr frame, w) \<Rightarrow>
          (case py_index frame 0 of
             Inl e \<Rightarrow> (Raise e, w)
           | Inr tag \<Rightarrow>
               if uint tag = TAG_CLOSE then (Break, w)
               else if uint tag \<noteq> 4 then (Break, w)
               else (case decode_app_data frame of
                  Inl e \<Rightarrow> (Raise e, w)
                | Inr ad \<Rightarrow>
                    (case record_decrypt P CT_APP_DATA (ad_seq ad) (ad_ciphertext ad) recv_enc of
                       (Inl e, recv_enc) \<Rightarrow>
                         (Break, snd (send_alert (lit ''Decryption failed: '' @ err_msg e) w))
                     | (Inr plaintext, recv_enc) \<Rightarrow>
                         (case echo_reply plaintext of
                            Inl e \<Rightarrow> (Raise e, w)
                          | Inr reply \<Rightarrow>
                              (case record_encrypt P CT_APP_DATA reply send_enc of
                                 (Inl e, send_enc) \<Rightarrow> (Raise e, w)
                               | (Inr (seq, ct), send_enc) \<Rightarrow>
                                   (case bindS (liftS (encode_app_data seq ct)) (\<lambda>m. on_conn (conn_send m)) w of
                                      (Inl e, w) \<Rightarrow> (Raise e, w)
                                    | (Inr _, w) \<Rightarrow> (Next send_enc recv_enc, w))))))))"

text \<open>Every iteration that goes on has consumed input, so the loop ends with the input.\<close>

lemma on_conn_send_input:
  "bindS (liftS r) (\<lambda>m. on_conn (conn_send m)) w = (Inr u, w') \<Longrightarrow> cn_in (w_conn w') = cn_in (w_conn w)"
  by (auto simp: st_res_Inr on_conn_eq dest: conn_send_Inr)

lemma app_step_next:
  assumes "app_step P s r w = (Next s' r', w')"
  shows "\<exists>frame tag ad pt reply seq ct c. conn_recv (w_conn w) = (Inr frame, c) \<and>
    py_index frame 0 = Inr tag \<and> uint tag = 4 \<and> decode_app_data frame = Inr ad \<and>
    record_decrypt P CT_APP_DATA (ad_seq ad) (ad_ciphertext ad) r = (Inr pt, r') \<and>
    echo_reply pt = Inr reply \<and> record_encrypt P CT_APP_DATA reply s = (Inr (seq, ct), s') \<and>
    bindS (liftS (encode_app_data seq ct)) (\<lambda>m. on_conn (conn_send m)) (w\<lparr>w_conn := c\<rparr>) = (Inr (), w')"
  using assms unfolding app_step_def
  by (auto simp: on_conn_eq split: prod.splits sum.splits if_splits)

lemma app_step_consumes:
  "app_step P s r w = (Next s' r', w') \<Longrightarrow>
    length (stream (cn_in (w_conn w'))) < length (stream (cn_in (w_conn w)))"
  by (drule app_step_next) (auto dest!: conn_recv_consumes on_conn_send_input)

function app_loop :: "prims \<Rightarrow> direction_state \<Rightarrow> direction_state \<Rightarrow> (world, unit) st_res" where
  "app_loop P send_enc recv_enc w = (case app_step P send_enc recv_enc w of
     (Break, w) \<Rightarrow> (Inr (), w)
   | (Raise e, w) \<Rightarrow> (Inl e, w)
   | (Next send_enc recv_enc, w) \<Rightarrow> app_loop P send_enc recv_enc w)"
  by pat_completeness auto
termination
  by (relation "measure (\<lambda>(P, s, r, w). length (stream (cn_in (w_conn w))))")
     (auto dest!: sym [where s = "(Next _ _, _)"] app_step_consumes)

declare app_loop.simps [simp del]

section \<open>Login\<close>

text \<open>The end of the handshake, once ServerHello is sent; \<open>None\<close> after an alert ended it.\<close>

definition login_complete ::
  "prims \<Rightarrow> server_state \<Rightarrow> transcript \<Rightarrow> (world, (direction_state \<times> direction_state) option) st_res" where
  "login_complete P server_state transcript =
     bindS (on_conn conn_recv) (\<lambda>cf_raw.
     bindS (liftS (decode_client_finish cf_raw)) (\<lambda>cf.
     bindS (liftS (transcript_add (lit ''client_finish'') cf_raw transcript)) (\<lambda>transcript.
     tryS (liftS (server_login_finish P server_state (cf_opaque_ke3 cf))) (\<lambda>exc. err_kind exc = ValueError)
       (\<lambda>exc. bindS (send_alert (err_msg exc)) (\<lambda>_. retS None))
       (\<lambda>(session_key, export_key).
     bindS (liftS (derive_traffic_secrets P session_key (transcript_digest P transcript))) (\<lambda>secrets.
     bindS (liftS (direction_new P (ts_server_app secrets))) (\<lambda>send_enc.
     bindS (liftS (direction_new P (ts_client_app secrets))) (\<lambda>recv_enc.
       retS (Some (send_enc, recv_enc)))))))))"

text \<open>The handshake of an admitted attempt.\<close>

definition login_exchange ::
  "prims \<Rightarrow> server_session \<Rightarrow> session_random \<Rightarrow> parsed_client_hello \<Rightarrow> bytes \<Rightarrow>
   (world, (direction_state \<times> direction_state) option) st_res" where
  "login_exchange P se rnd ch raw_client_hello =
     bindS (liftS (transcript_add (lit ''client_hello'') raw_client_hello transcript_new)) (\<lambda>transcript.
     tryS (on_storage (server_login_start P (sr_login rnd) (ch_credential_id ch) (ch_opaque_ke1 ch))) (\<lambda>_. True)
       (\<lambda>exc. bindS (send_alert (lit ''Internal error: '' @ err_msg exc)) (\<lambda>_. retS None))
       (\<lambda>(ke2, server_state).
     bindS (liftS (build_signed_server_hello P se rnd transcript ke2)) (\<lambda>server_hello.
     bindS (liftS (transcript_add (lit ''server_hello'') server_hello transcript)) (\<lambda>transcript.
     bindS (on_conn (conn_send server_hello)) (\<lambda>_.
       login_complete P server_state transcript)))))"

definition login_handshake ::
  "prims \<Rightarrow> server_session \<Rightarrow> session_random \<Rightarrow> parsed_client_hello \<Rightarrow> bytes \<Rightarrow>
   (world, (direction_state \<times> direction_state) option) st_res" where
  "login_handshake P se rnd ch raw_client_hello =
     bindS (limiter_allow (sr_now_limiter rnd) (se_ip se) (ch_credential_id ch)) (\<lambda>allowed.
     if \<not> allowed then bindS (send_alert (lit ''Rate limit exceeded '' @ [8212] @ lit '' retry later'')) (\<lambda>_. retS None)
     else login_exchange P se rnd ch raw_client_hello)"

definition handle_login ::
  "prims \<Rightarrow> server_session \<Rightarrow> session_random \<Rightarrow> parsed_client_hello \<Rightarrow> bytes \<Rightarrow> (world, unit) st_res" where
  "handle_login P se rnd ch raw_client_hello =
     bindS (login_handshake P se rnd ch raw_client_hello) (\<lambda>r. case r of
       None \<Rightarrow> retS ()
     | Some (send_enc, recv_enc) \<Rightarrow>
         bindS (limiter_reset (se_ip se) (ch_credential_id ch)) (\<lambda>_.
           app_loop P send_enc recv_enc))"

section \<open>The session\<close>

definition expected_hello_msg :: "byte \<Rightarrow> pystr" where
  "expected_hello_msg tag = lit ''Expected ClientHello, got tag 0x'' @ hex_str [tag]"

text \<open>The body of the \<open>try\<close> block of \<open>run\<close>.\<close>

definition session_body :: "prims \<Rightarrow> server_session \<Rightarrow> session_random \<Rightarrow> (world, unit) st_res" where
  "session_body P se rnd =
     bindS (on_conn conn_recv) (\<lambda>raw.
     bindS (liftS (py_index raw 0)) (\<lambda>tag.
     if uint tag \<noteq> TAG_CLIENT_HELLO then send_alert (expected_hello_msg tag)
     else
       bindS (liftS (decode_client_hello raw)) (\<lambda>ch.
       if ch_version ch = REG_VERSION then handle_registration P se rnd ch raw
       else handle_login P se rnd ch raw)))"

text \<open>How \<open>run\<close> ended: each exception class is reported in its own way, none leaves \<open>run\<close>.\<close>

datatype run_end = Completed | Connection_error py_error | Unhandled py_error

definition run :: "prims \<Rightarrow> server_session \<Rightarrow> session_random \<Rightarrow> world \<Rightarrow> run_end \<times> world" where
  "run P se rnd w = (case session_body P se rnd w of (r, w') \<Rightarrow>
     ((case r of
         Inr _ \<Rightarrow> Completed
       | Inl e \<Rightarrow> if err_kind e = ConnectionError \<or> err_kind e = TimeoutError
           then Connection_error e else Unhandled e),
      w'\<lparr>w_closed := True\<rparr>))"

text \<open>\<open>ServerSession(conn, addr, \<dots>)\<close>: a session gets an OPAQUE object of its own.\<close>

definition session_new :: "server_session \<Rightarrow> conn \<Rightarrow> rate_limiter option \<Rightarrow> storage \<Rightarrow> world" where
  "session_new se c limiter sg = \<lparr>w_conn = c, w_limiter = limiter, w_storage = sg,
     w_opaque = opaque_server_new (se_server_key se), w_closed = False\<rparr>"

end
