(* ===== verification/Client.thy ===== *)
theory Client
  imports Prelude Hex Utf8 Codec Framing Connection Primitives Kdf Record_Layer
    Server_Config Storage Pki Opaque
begin

text \<open>
  The client's login and its message exchange (\<open>client.py\<close>) and the registration
  (\<open>register_user.py\<close>), on a connected socket.  The pinned CA certificate is what
  \<open>load_certificate(CA_CERT_PATH)\<close> returns; console output is left out.
\<close>

section \<open>Identities\<close>

definition CONTEXT_STRING :: bytes where
  "CONTEXT_STRING = blit ''CSE539-TLS-OPAQUE13-v1''"

definition make_login_credential_id :: "prims \<Rightarrow> pystr \<Rightarrow> bytes res" where
  "make_login_credential_id P username =
     bindE (utf8_encode username) (\<lambda>u. Inr (hash_bytes P [CONTEXT_STRING @ u]))"

definition make_cred_id :: "prims \<Rightarrow> pystr \<Rightarrow> bytes res" where
  "make_cred_id P username =
     bindE (utf8_encode username) (\<lambda>u. Inr (hash_bytes P [CONTEXT_STRING @ u]))"

text \<open>Another key class has no X9.62 encoding, so \<open>public_bytes\<close> raises for it.\<close>

definition cert_public_key_bytes :: "x509_cert \<Rightarrow> bytes res" where
  "cert_public_key_bytes cert = (case crt_public_key cert of
     EcKey pub \<Rightarrow> Inr pub | _ \<Rightarrow> raise LibraryError ''unsupported encoding'')"

section \<open>Authenticating the server\<close>

text \<open>The clock readings of the two checks that look at the time.\<close>

record check_times =
  ct_now_chain :: int
  ct_now_config :: int

text \<open>The checks between the receipt of ServerHello and the use of its KE2; the same in both programs.\<close>

definition authenticate_server ::
  "prims \<Rightarrow> check_times \<Rightarrow> x509_cert res \<Rightarrow> bytes \<Rightarrow> parsed_server_hello \<Rightarrow> x509_cert res" where
  "authenticate_server P now ca client_hello parsed =
     bindE (verify_certificate_chain P (sh_certificate_chain parsed) (lit ''localhost'') None ca (ct_now_chain now))
       (\<lambda>server_cert.
     bindE (verify_server_config_signature P (sh_server_config parsed) (sh_server_config_sig parsed) server_cert) (\<lambda>_.
     bindE (validate_server_config (sh_server_config parsed) SERVER_ID SERVER_CONFIG_MAX_AGE_S (ct_now_config now)) (\<lambda>_.
     bindE (transcript_add (lit ''client_hello'') client_hello transcript_new) (\<lambda>pre_server_hello.
     let transcript_hash_before_sh = transcript_digest P pre_server_hello in
     bindE (encode_server_hello_core (sh_version parsed) (sh_server_nonce parsed) (sh_certificate_chain parsed)
              (sh_server_config parsed) (sh_opaque_ke2 parsed)) (\<lambda>core.
     bindE (verify_certificate_verify_signature P (sh_cert_verify_sig parsed) transcript_hash_before_sh core server_cert)
       (\<lambda>_. Inr server_cert))))))"

text \<open>The exception a received alert is turned into.\<close>

definition alert_error :: "string \<Rightarrow> bytes \<Rightarrow> 'a res" where
  "alert_error txt raw = bindE (decode_alert raw) (\<lambda>al. Inl (PyError RuntimeError (lit txt @ al_message al)))"

section \<open>Login\<close>

text \<open>The random values of a login.\<close>

record client_random =
  cr_blind :: nat
  cr_eph_priv :: int
  cr_nonce :: bytes

definition client_login ::
  "prims \<Rightarrow> client_random \<Rightarrow> check_times \<Rightarrow> x509_cert res \<Rightarrow> pystr \<Rightarrow> pystr \<Rightarrow>
   (conn, traffic_secrets \<times> bytes) st_res" where
  "client_login P rnd now ca username password =
     bindS (liftS (make_login_credential_id P username)) (\<lambda>credential_id.
     bindS (liftS (utf8_encode password)) (\<lambda>pw.
     bindS (liftS (utf8_encode username)) (\<lambda>_.
     bindS (liftS (client_login_start P (cr_blind rnd) (cr_eph_priv rnd) (cr_nonce rnd) pw)) (\<lambda>(ke1, client_state).
     bindS (liftS (encode_client_hello 1 credential_id (ls_nonce_c client_state) ke1)) (\<lambda>client_hello.
     bindS (liftS (transcript_add (lit ''client_hello'') client_hello transcript_new)) (\<lambda>transcript.
     bindS (conn_send client_hello) (\<lambda>_.
     bindS conn_recv (\<lambda>server_hello_raw.
     bindS (liftS (py_index server_hello_raw 0)) (\<lambda>tag.
     if uint tag = TAG_ALERT then liftS (alert_error ''Server alert: '' server_hello_raw)
     else
     bindS (liftS (transcript_add (lit ''server_hello'') server_hello_raw transcript)) (\<lambda>transcript.
     bindS (liftS (decode_server_hello server_hello_raw)) (\<lambda>parsed.
     bindS (liftS (authenticate_server P now ca client_hello parsed)) (\<lambda>server_cert.
     bindS (liftS (client_login_finish P client_state (sh_opaque_ke2 parsed))) (\<lambda>(session_key, export_key, ke3).
     bindS (liftS (encode_client_finish ke3)) (\<lambda>client_finish.
     bindS (liftS (transcript_add (lit ''client_finish'') client_finish transcript)) (\<lambda>transcript.
     bindS (conn_send client_finish) (\<lambda>_.
     bindS (liftS (derive_traffic_secrets P session_key (transcript_digest P transcript))) (\<lambda>secrets.
       retS (secrets, export_key))))))))))))))))))"

text \<open>The message exchange of \<open>main\<close>; the result is the printed reply, if there is one.\<close>

definition client_exchange ::
  "prims \<Rightarrow> traffic_secrets \<Rightarrow> pystr \<Rightarrow> (conn, pystr option) st_res" where
  "client_exchange P secrets message =
     bindS (liftS (direction_new P (ts_client_app secrets))) (\<lambda>send_enc.
     bindS (liftS (direction_new P (ts_server_app secrets))) (\<lambda>recv_enc.
     bindS (liftS (utf8_encode message)) (\<lambda>msg.
     bindS (liftS (fst (record_encrypt P CT_APP_DATA msg send_enc))) (\<lambda>(seq, ct).
     bindS (liftS (encode_app_data seq ct)) (\<lambda>m.
     bindS (conn_send m) (\<lambda>_.
     bindS conn_recv (\<lambda>resp.
     bindS (liftS (py_index resp 0)) (\<lambda>tag.
     bindS (if uint tag = 4 then
              bindS (liftS (decode_app_data resp)) (\<lambda>ad.
              bindS (liftS (fst (record_decrypt P CT_APP_DATA (ad_seq ad) (ad_ciphertext ad) recv_enc))) (\<lambda>pt.
              bindS (liftS (utf8_decode pt)) (\<lambda>s. retS (Some s))))
            else retS None) (\<lambda>shown.
     bindS (liftS encode_close) (\<lambda>cl.
     bindS (conn_send cl) (\<lambda>_. retS shown)))))))))))"

text \<open>\<open>main\<close> on the connected socket.\<close>

definition client_main ::
  "prims \<Rightarrow> client_random \<Rightarrow> check_times \<Rightarrow> x509_cert res \<Rightarrow> pystr \<Rightarrow> pystr \<Rightarrow> pystr \<Rightarrow> (conn, pystr option) st_res" where
  "client_main P rnd now ca username password message =
     bindS (client_login P rnd now ca username password) (\<lambda>(secrets, export_key).
       client_exchange P secrets message)"

section \<open>Registration\<close>

record register_random =
  rr_blind :: nat
  rr_nonce :: bytes
  rr_c_priv :: int
  rr_salt :: bytes
  rr_env_nonce :: bytes

definition key_mismatch_msg :: string where
  "key_mismatch_msg = ''Registration response OPAQUE static key does not match the certified server key''"

definition ack_msg :: "byte \<Rightarrow> pystr" where
  "ack_msg tag = lit ''Unexpected ack tag 0x'' @ hex_str [tag]"

text \<open>\<open>register\<close> after \<open>bootstrap_pki\<close> has made sure that the CA file exists.\<close>

definition register ::
  "prims \<Rightarrow> register_random \<Rightarrow> check_times \<Rightarrow> x509_cert res \<Rightarrow> pystr \<Rightarrow> pystr \<Rightarrow> (conn, unit) st_res" where
  "register P rnd now ca username password =
     bindS (liftS (make_cred_id P username)) (\<lambda>cred_id.
     bindS (liftS (utf8_encode password)) (\<lambda>pw.
     bindS (liftS (utf8_encode username)) (\<lambda>_.
     bindS (liftS (registration_start P (rr_blind rnd) pw)) (\<lambda>(reg_request, reg_state).
     bindS (liftS (encode_client_hello 2 cred_id (rr_nonce rnd) reg_request)) (\<lambda>client_hello.
     bindS (liftS (transcript_add (lit ''client_hello'') client_hello transcript_new)) (\<lambda>transcript.
     bindS (conn_send client_hello) (\<lambda>_.
     bindS conn_recv (\<lambda>server_hello_raw.
     bindS (liftS (py_index server_hello_raw 0)) (\<lambda>tag.
     if uint tag = TAG_ALERT then liftS (alert_error ''Server: '' server_hello_raw)
     else
     bindS (liftS (transcript_add (lit ''server_hello'') server_hello_raw transcript)) (\<lambda>transcript.
     bindS (liftS (decode_server_hello server_hello_raw)) (\<lambda>parsed.
     bindS (liftS (authenticate_server P now ca client_hello parsed)) (\<lambda>server_cert.
     let opaque_static_pub = drop POINT_LEN (sh_opaque_ke2 parsed) in
     bindS (liftS (cert_public_key_bytes server_cert)) (\<lambda>cert_pub.
     bindS (liftS (guardE (opaque_static_pub = cert_pub) ValueError key_mismatch_msg)) (\<lambda>_.
     bindS (liftS (registration_finish P reg_state (rr_c_priv rnd) (rr_salt rnd) (rr_env_nonce rnd)
                     (sh_opaque_ke2 parsed))) (\<lambda>record.
     bindS (liftS (encode_client_finish record)) (\<lambda>cf.
     bindS (conn_send cf) (\<lambda>_.
     bindS conn_recv (\<lambda>ack.
     bindS (liftS (py_index ack 0)) (\<lambda>ack_tag.
       if uint ack_tag \<noteq> TAG_CLOSE then liftS (Inl (PyError RuntimeError (ack_msg ack_tag)))
       else retS ())))))))))))))))))))"

section \<open>What acceptance means\<close>

lemma authenticate_server_Inr:
  "authenticate_server P now ca ch parsed = Inr c \<longleftrightarrow> (\<exists>pre core cfg.
     verify_certificate_chain P (sh_certificate_chain parsed) (lit ''localhost'') None ca (ct_now_chain now) = Inr c \<and>
     verify_server_config_signature P (sh_server_config parsed) (sh_server_config_sig parsed) c = Inr () \<and>
     validate_server_config (sh_server_config parsed) SERVER_ID SERVER_CONFIG_MAX_AGE_S (ct_now_config now) = Inr cfg \<and>
     transcript_add (lit ''client_hello'') ch transcript_new = Inr pre \<and>
     encode_server_hello_core (sh_version parsed) (sh_server_nonce parsed) (sh_certificate_chain parsed)
       (sh_server_config parsed) (sh_opaque_ke2 parsed) = Inr core \<and>
     verify_certificate_verify_signature P (sh_cert_verify_sig parsed) (transcript_digest P pre) core c = Inr ())"
  by (auto simp: authenticate_server_def bindE_eq_Inr Let_def)

end
