(* ===== verification/Echo_Loop.thy ===== *)
theory Echo_Loop
  imports Prelude Utf8 Codec Framing Connection Primitives Sample_Primitives Kdf Record_Layer Server
begin

text \<open>
  The echo loop of a server session (\<open>_app_loop\<close> of \<open>server.py\<close>): it answers a sending sequence of the
  client record by record, in order, and ends with the input.
\<close>

section \<open>Replies\<close>

lemma echo_prefix: "utf8_encode (lit ''echo:'') = Inr (blit ''echo:'')"
  by (simp add: lit_def blit_def utf8_char_def)

lemma echo_reply_ok: "\<exists>reply. echo_reply pt = Inr reply \<and> length reply \<le> 5 + 3 * length pt"
proof -
  obtain out where "utf8_encode (utf8_replace pt) = Inr out" "length out \<le> 3 * length pt"
    using utf8_encode_replace by blast
  then show ?thesis by (simp add: echo_reply_def utf8_encode_append echo_prefix)
qed

lemma echo_reply_text: "utf8_encode s = Inr pt \<Longrightarrow> echo_reply pt = Inr (blit ''echo:'' @ pt)"
  by (simp add: echo_reply_def utf8_encode_append echo_prefix utf8_replace_encode)

definition echo :: "bytes \<Rightarrow> bytes" where
  "echo pt = projr (echo_reply pt)"

lemma echo_reply_echo: "echo_reply pt = Inr (echo pt)"
  using echo_reply_ok [of pt] by (auto simp: echo_def)

lemma echo_length: "length (echo pt) \<le> 5 + 3 * length pt"
  using echo_reply_ok [of pt] by (auto simp: echo_def)

section \<open>Records on the wire\<close>

definition app_message :: "int \<times> bytes \<Rightarrow> bytes" where
  "app_message rc = (case rc of (q, c) \<Rightarrow> 4 # be_enc 8 (nat q) @ be_enc 4 (length c) @ c)"

lemma length_app_message [simp]: "length (app_message (q, c)) = 13 + length c"
  by (simp add: app_message_def)

definition record_frame :: "int \<times> bytes \<Rightarrow> bytes" where
  "record_frame rc = frame_of (app_message rc)"

lemma encode_app_message: "0 \<le> q \<Longrightarrow> q < 2 ^ 64 \<Longrightarrow> length c < 2 ^ 32 \<Longrightarrow> encode_app_data q c = Inr (app_message (q, c))"
  by (simp add: encode_app_data_Inr app_message_def)

lemma decode_app_message: "0 \<le> q \<Longrightarrow> q < 2 ^ 64 \<Longrightarrow> length c < 2 ^ 32 \<Longrightarrow>
    decode_app_data (app_message (q, c)) = Inr \<lparr>ad_seq = q, ad_ciphertext = c\<rparr>"
  using dec_enc_app_data [of "\<lparr>ad_seq = q, ad_ciphertext = c\<rparr>" "app_message (q, c)" "[]"]
  by (simp add: enc_app_data_def encode_app_message)

lemma record_encrypt_bounds:
  assumes "chacha_ok P" and "length p < 2 ^ 31" and "record_encrypt P ct p st = (Inr (q, c), st')"
  shows "q = ds_seq st \<and> 0 \<le> q \<and> q < 2 ^ 64 \<and> length c = length p + 16"
proof -
  from assms(3) obtain a n where q: "q = ds_seq st" and a: "record_aad ct q (int (length p) + 16) = Inr a"
    and c: "chacha_encrypt P (ds_aead st) n p a = Inr c" unfolding record_encrypt_Inr by blast
  have "length a < 2 ^ 31" using record_aad_length [OF a] by simp
  from chacha_okD(2) [OF assms(1,2) this, of "ds_aead st" n] c have "length c = length p + 16" by auto
  with q a show ?thesis by (auto simp: record_aad_Inr nat_less_iff)
qed

section \<open>One record\<close>

lemma app_step_echo:
  assumes "chacha_ok P" and "length pt \<le> MAX_FRAME - 29"
    and "record_encrypt P CT_APP_DATA pt r = (Inr (q, c), r')"
    and "0 \<le> ds_seq s" and "ds_seq s < 2 ^ 64"
    and conn: "cn_faults (w_conn w) = []" "live (cn_in (w_conn w))"
      "stream (cn_in (w_conn w)) = record_frame (q, c) @ t"
  shows "\<exists>i c'. record_encrypt P CT_APP_DATA (echo pt) s = (Inr (ds_seq s, c'), s\<lparr>ds_seq := ds_seq s + 1\<rparr>) \<and>
    app_step P s r w = (Next (s\<lparr>ds_seq := ds_seq s + 1\<rparr>) r', w\<lparr>w_conn := (w_conn w)\<lparr>
      cn_in := i, cn_out := cn_out (w_conn w) @ [record_frame (ds_seq s, c')]\<rparr>\<rparr>) \<and> stream i = t \<and> live i"
proof -
  have p: "length pt < 2 ^ 31" using assms(2) by (simp add: MAX_FRAME_def)
  note b = record_encrypt_bounds [OF assms(1) p assms(3)]
  have e: "length (echo pt) < 2 ^ 31" using echo_length [of pt] assms(2) by (simp add: MAX_FRAME_def)
  obtain c' where c': "record_encrypt P CT_APP_DATA (echo pt) s = (Inr (ds_seq s, c'), s\<lparr>ds_seq := ds_seq s + 1\<rparr>)"
    using encrypt_total [OF assms(1) _ _ assms(4,5) e, of CT_APP_DATA] by auto
  note b' = record_encrypt_bounds [OF assms(1) e c']
  have m: "length (app_message (q, c)) \<le> MAX_FRAME" using b assms(2) by (simp add: MAX_FRAME_def)
  from conn_recv_frame [OF conn(2) conn(3) [unfolded record_frame_def] m] obtain i where i: "conn_recv (w_conn w) = (Inr (app_message (q, c)), (w_conn w)\<lparr>cn_in := i\<rparr>)"
    "stream i = t" "live i" by blast
  define w1 where "w1 = w\<lparr>w_conn := (w_conn w)\<lparr>cn_in := i\<rparr>\<rparr>"
  have 1: "on_conn conn_recv w = (Inr (app_message (q, c)), w1)" by (simp add: on_conn_def i(1) w1_def)
  have 2: "py_index (app_message (q, c)) 0 = Inr 4" by (simp add: py_index_def app_message_def)
  have 3: "decode_app_data (app_message (q, c)) = Inr \<lparr>ad_seq = q, ad_ciphertext = c\<rparr>"
    using b p by (intro decode_app_message) simp_all
  note 4 = decrypt_encrypt [OF assms(1) p assms(3)]
  have l: "length c' < 2 ^ 32" using b' e by simp
  have 5: "encode_app_data (ds_seq s) c' = Inr (app_message (ds_seq s, c'))"
    using l assms(4,5) by (intro encode_app_message) simp_all
  have l2: "length (app_message (ds_seq s, c')) < 2 ^ 32"
    using b' echo_length [of pt] assms(2) by (simp add: MAX_FRAME_def)
  have 6: "on_conn (conn_send (app_message (ds_seq s, c'))) w1 = (Inr (), w1\<lparr>w_conn := (w_conn w1)\<lparr>
      cn_out := cn_out (w_conn w1) @ [record_frame (ds_seq s, c')]\<rparr>\<rparr>)"
    using conn_send_ok [OF l2, of "w_conn w1"] conn(1) by (simp add: on_conn_def w1_def record_frame_def)
  have "app_step P s r w = (Next (s\<lparr>ds_seq := ds_seq s + 1\<rparr>) r', w1\<lparr>w_conn := (w_conn w1)\<lparr>
      cn_out := cn_out (w_conn w1) @ [record_frame (ds_seq s, c')]\<rparr>\<rparr>)"
    unfolding app_step_def by (simp add: 1 2 3 4 [unfolded CT_APP_DATA_def] echo_reply_echo c' [unfolded CT_APP_DATA_def]
        bindS_def liftS_def 5 6)
  with c' i(2,3) show ?thesis by (auto simp: w1_def record_frame_def)
qed

section \<open>A sequence of records\<close>

lemma echo_loop_run:
  assumes "chacha_ok P"
  shows "send_records P CT_APP_DATA ps r = Some (rs, r') \<Longrightarrow> \<forall>p \<in> set ps. length p \<le> MAX_FRAME - 29 \<Longrightarrow>
    0 \<le> ds_seq s \<Longrightarrow> ds_seq s + int (length ps) \<le> 2 ^ 64 \<Longrightarrow> cn_faults (w_conn w) = [] \<Longrightarrow> live (cn_in (w_conn w)) \<Longrightarrow>
    stream (cn_in (w_conn w)) = concat (map record_frame rs) @ t \<Longrightarrow>
    \<exists>i rs' s'. send_records P CT_APP_DATA (map echo ps) s = Some (rs', s') \<and>
      app_loop P s r w = app_loop P s' r' (w\<lparr>w_conn := (w_conn w)\<lparr>
        cn_in := i, cn_out := cn_out (w_conn w) @ map record_frame rs'\<rparr>\<rparr>) \<and> stream i = t \<and> live i"
proof (induction ps arbitrary: r rs s w)
  case Nil
  then show ?case
    by (intro exI [of _ "cn_in (w_conn w)"] exI [of _ "[]"] exI [of _ s]) simp
next
  case (Cons p ps)
  from Cons.prems(1) obtain c rs1 where c: "record_encrypt P CT_APP_DATA p r = (Inr (ds_seq r, c), r\<lparr>ds_seq := ds_seq r + 1\<rparr>)"
    and rs1: "send_records P CT_APP_DATA ps (r\<lparr>ds_seq := ds_seq r + 1\<rparr>) = Some (rs1, r')"
    and rs: "rs = (ds_seq r, c) # rs1" unfolding send_records_Cons by blast
  have s: "ds_seq s < 2 ^ 64" using Cons.prems(4) by simp
  have p: "length p \<le> MAX_FRAME - 29" using Cons.prems(2) by simp
  have st: "stream (cn_in (w_conn w)) = record_frame (ds_seq r, c) @ concat (map record_frame rs1) @ t"
    using Cons.prems(7) rs by simp
  from app_step_echo [OF assms p c Cons.prems(3) s Cons.prems(5,6) st] obtain i c' where
    i: "record_encrypt P CT_APP_DATA (echo p) s = (Inr (ds_seq s, c'), s\<lparr>ds_seq := ds_seq s + 1\<rparr>)"
    "app_step P s r w = (Next (s\<lparr>ds_seq := ds_seq s + 1\<rparr>) (r\<lparr>ds_seq := ds_seq r + 1\<rparr>), w\<lparr>w_conn := (w_conn w)\<lparr>
      cn_in := i, cn_out := cn_out (w_conn w) @ [record_frame (ds_seq s, c')]\<rparr>\<rparr>)"
    "stream i = concat (map record_frame rs1) @ t" "live i" by blast
  let ?w = "w\<lparr>w_conn := (w_conn w)\<lparr>cn_in := i, cn_out := cn_out (w_conn w) @ [record_frame (ds_seq s, c')]\<rparr>\<rparr>"
  from Cons.IH [OF rs1, of "s\<lparr>ds_seq := ds_seq s + 1\<rparr>" ?w] Cons.prems i(3,4) obtain j rs' s' where
    j: "send_records P CT_APP_DATA (map echo ps) (s\<lparr>ds_seq := ds_seq s + 1\<rparr>) = Some (rs', s')"
    "app_loop P (s\<lparr>ds_seq := ds_seq s + 1\<rparr>) (r\<lparr>ds_seq := ds_seq r + 1\<rparr>) ?w = app_loop P s' r' (?w\<lparr>w_conn := (w_conn ?w)\<lparr>
        cn_in := j, cn_out := cn_out (w_conn ?w) @ map record_frame rs'\<rparr>\<rparr>)"
    "stream j = t" "live j" by auto
  have "app_loop P s r w = app_loop P (s\<lparr>ds_seq := ds_seq s + 1\<rparr>) (r\<lparr>ds_seq := ds_seq r + 1\<rparr>) ?w"
    by (subst app_loop.simps) (simp add: i(2))
  with j i(1) show ?case
    by (intro exI [of _ j] exI [of _ "(ds_seq s, c') # rs'"] exI [of _ s']) simp
qed

text \<open>A Close frame ends the loop.\<close>

lemma app_loop_close:
  assumes "live (cn_in (w_conn w))" and "stream (cn_in (w_conn w)) = frame_of [6] @ t"
  shows "\<exists>i. app_loop P s r w = (Inr (), w\<lparr>w_conn := (w_conn w)\<lparr>cn_in := i\<rparr>\<rparr>) \<and> stream i = t \<and> live i"
proof -
  from conn_recv_frame [OF assms] obtain i where i: "conn_recv (w_conn w) = (Inr [6], (w_conn w)\<lparr>cn_in := i\<rparr>)"
    "stream i = t" "live i" by (auto simp: MAX_FRAME_def)
  have "app_step P s r w = (Break, w\<lparr>w_conn := (w_conn w)\<lparr>cn_in := i\<rparr>\<rparr>)"
    unfolding app_step_def by (simp add: on_conn_def i(1) py_index_def)
  with i(2,3) show ?thesis by (subst app_loop.simps) auto
qed

section \<open>Arbitrary input\<close>

text \<open>The frames of one alert, or none.\<close>

definition alert_or_nothing :: "bytes list \<Rightarrow> bool" where
  "alert_or_nothing fs \<longleftrightarrow> fs = [] \<or> (\<exists>m. fs = [frame_of m] \<and> m \<noteq> [] \<and> hd m = 5)"

lemma encode_alert_Inr: "encode_alert 2 msg = Inr m \<Longrightarrow> m \<noteq> [] \<and> hd m = 5"
  by (auto simp: encode_alert_def bindE_eq_Inr byte_of_int_Inr)

lemma send_alert_out:
  "\<exists>fs. cn_out (w_conn (snd (send_alert msg w))) = cn_out (w_conn w) @ fs \<and> alert_or_nothing fs"
proof -
  obtain r w' where a: "on_conn (bindS (liftS (encode_alert ALERT_FATAL msg)) conn_send) w = (r, w')" by fastforce
  then have s: "snd (send_alert msg w) = w'" by (simp add: send_alert_def)
  from a obtain c where c: "bindS (liftS (encode_alert ALERT_FATAL msg)) conn_send (w_conn w) = (r, c)" "w' = w\<lparr>w_conn := c\<rparr>"
    unfolding on_conn_eq by blast
  show ?thesis
  proof (cases r)
    case (Inl e)
    with c(1) have "cn_out c = cn_out (w_conn w)" by (auto simp: bindS_Inl liftS_eq dest: conn_send_Inl)
    with s c(2) show ?thesis by (simp add: alert_or_nothing_def)
  next
    case (Inr u)
    with c(1) obtain m where m: "encode_alert 2 msg = Inr m" "conn_send m (w_conn w) = (Inr u, c)"
      by (auto simp: bindS_Inr liftS_eq)
    from conn_send_Inr [OF m(2)] encode_alert_Inr [OF m(1)] s c(2) show ?thesis
      by (auto simp: alert_or_nothing_def)
  qed
qed

lemma app_step_stop:
  assumes "app_step P s r w = (st, w')" and "\<And>s' r'. st \<noteq> Next s' r'"
  shows "\<exists>fs. cn_out (w_conn w') = cn_out (w_conn w) @ fs \<and> alert_or_nothing fs"
proof -
  obtain x v where x: "on_conn conn_recv w = (x, v)" by fastforce
  then have v: "cn_out (w_conn v) = cn_out (w_conn w)"
    by (cases x) (auto simp: on_conn_eq conn_recv_Inl conn_recv_Inr)
  have sd: "bindS (liftS m) (\<lambda>m. on_conn (conn_send m)) v = (Inl e, v') \<Longrightarrow> cn_out (w_conn v') = cn_out (w_conn v)" for m e v'
    by (auto simp: bindS_Inl liftS_eq on_conn_eq dest: conn_send_Inl)
  have "cn_out (w_conn w') = cn_out (w_conn v) \<or> (\<exists>msg. w' = snd (send_alert msg v))"
    using assms unfolding app_step_def x
    by (auto split: sum.splits if_splits prod.splits dest: sd)
  then show ?thesis
  proof
    assume "cn_out (w_conn w') = cn_out (w_conn v)"
    with v show ?thesis by (simp add: alert_or_nothing_def)
  next
    assume "\<exists>msg. w' = snd (send_alert msg v)"
    with send_alert_out [of _ v] v show ?thesis by auto
  qed
qed

text \<open>
  Whatever the network delivers, the records the loop answers were opened in order by the receiving
  state: they are among those an in-order receiver accepts.
\<close>

lemma app_step_out:
  assumes "app_step P s r w = (Next s' r', w')"
  shows "\<exists>q c pt q' c'. record_decrypt P CT_APP_DATA q c r = (Inr pt, r') \<and>
    record_encrypt P CT_APP_DATA (echo pt) s = (Inr (q', c'), s') \<and>
    cn_out (w_conn w') = cn_out (w_conn w) @ [record_frame (q', c')]"
proof -
  from app_step_next [OF assms] obtain frame pt reply q' c' c and ad :: parsed_app_data where
    n: "conn_recv (w_conn w) = (Inr frame, c)" "record_decrypt P CT_APP_DATA (ad_seq ad) (ad_ciphertext ad) r = (Inr pt, r')"
    "echo_reply pt = Inr reply" "record_encrypt P CT_APP_DATA reply s = (Inr (q', c'), s')"
    "bindS (liftS (encode_app_data q' c')) (\<lambda>m. on_conn (conn_send m)) (w\<lparr>w_conn := c\<rparr>) = (Inr (), w')"
    by blast
  have e: "reply = echo pt" using n(3) echo_reply_echo [of pt] by simp
  from n(5) obtain m d where m: "encode_app_data q' c' = Inr m" "conn_send m c = (Inr (), d)" "w' = w\<lparr>w_conn := d\<rparr>"
    by (auto simp: bindS_Inr liftS_eq on_conn_eq)
  have "m = app_message (q', c')" using m(1) by (simp add: encode_app_data_Inr app_message_def)
  moreover have "cn_out c = cn_out (w_conn w)" using n(1) by (auto simp: conn_recv_Inr)
  ultimately have "cn_out (w_conn w') = cn_out (w_conn w) @ [record_frame (q', c')]"
    using conn_send_Inr [OF m(2)] m(3) by (simp add: record_frame_def)
  with n(2,4) e show ?thesis by blast
qed

lemma app_loop_outputs:
  "\<exists>ds pts rs s' fs. fst (accepted (record_decrypt P CT_APP_DATA) ds r) = zip ds pts \<and> length ds = length pts \<and>
     send_records P CT_APP_DATA (map echo pts) s = Some (rs, s') \<and> alert_or_nothing fs \<and>
     cn_out (w_conn (snd (app_loop P s r w))) = cn_out (w_conn w) @ map record_frame rs @ fs"
proof (induction P s r w rule: app_loop.induct)
  case (1 P s r w)
  obtain st v where st: "app_step P s r w = (st, v)" by fastforce
  show ?case
  proof (cases "\<exists>s' r'. st = Next s' r'")
    case False
    then have "snd (app_loop P s r w) = v"
      using st by (cases st) (auto simp: app_loop.simps [of P s r w])
    with app_step_stop [OF st] False show ?thesis
      by (intro exI [of _ "[]"]) auto
  next
    case True
    then obtain s1 r1 where n: "st = Next s1 r1" by blast
    have l: "app_loop P s r w = app_loop P s1 r1 v" using st n by (simp add: app_loop.simps [of P s r w])
    from app_step_out [OF st [unfolded n]] obtain q c pt q' c' where
      o1: "record_decrypt P CT_APP_DATA q c r = (Inr pt, r1)" "record_encrypt P CT_APP_DATA (echo pt) s = (Inr (q', c'), s1)"
      "cn_out (w_conn v) = cn_out (w_conn w) @ [record_frame (q', c')]" by blast
    from "1.IH" [OF st [symmetric] n] obtain ds pts rs s' fs where
      ih: "fst (accepted (record_decrypt P CT_APP_DATA) ds r1) = zip ds pts" "length ds = length pts"
      "send_records P CT_APP_DATA (map echo pts) s1 = Some (rs, s')" "alert_or_nothing fs"
      "cn_out (w_conn (snd (app_loop P s1 r1 v))) = cn_out (w_conn v) @ map record_frame rs @ fs" by blast
    show ?thesis
      using ih o1 l
      by (intro exI [of _ "(q, c) # ds"] exI [of _ "pt # pts"] exI [of _ "(q', c') # rs"] exI [of _ s'] exI [of _ fs])
        (auto split: prod.splits)
  qed
qed

section \<open>Properties\<close>

text \<open>
  C20: the echo loop serves a client: when the client seals any payloads, sends them as frames and
  then closes, the loop answers each with \<open>echo:\<close> and the payload decoded with replacement, in order,
  and returns; the client, in step with the server's sending state, opens exactly these replies.
\<close>

theorem echo_loop_serves:
  assumes "chacha_ok P" and "send_records P CT_APP_DATA ps r = Some (rs, r')"
    and "\<forall>p \<in> set ps. length p \<le> MAX_FRAME - 29" and "0 \<le> ds_seq s" and "ds_seq s + int (length ps) \<le> 2 ^ 64"
    and "cn_faults (w_conn w) = []" and "live (cn_in (w_conn w))"
    and "stream (cn_in (w_conn w)) = concat (map record_frame rs) @ frame_of [6] @ t"
  shows "\<exists>w' rs' s'. app_loop P s r w = (Inr (), w') \<and> stream (cn_in (w_conn w')) = t \<and>
    cn_out (w_conn w') = cn_out (w_conn w) @ map record_frame rs' \<and>
    accepted (record_decrypt P CT_APP_DATA) rs' s = (zip rs' (map echo ps), s') \<and> length rs' = length ps"
proof -
  from echo_loop_run [OF assms(1,2,3,4,5,6,7,8)] obtain i rs' s' where
    r: "send_records P CT_APP_DATA (map echo ps) s = Some (rs', s')"
    "app_loop P s r w = app_loop P s' r' (w\<lparr>w_conn := (w_conn w)\<lparr>cn_in := i,
       cn_out := cn_out (w_conn w) @ map record_frame rs'\<rparr>\<rparr>)"
    "stream i = frame_of [6] @ t" "live i" by blast
  let ?w = "w\<lparr>w_conn := (w_conn w)\<lparr>cn_in := i, cn_out := cn_out (w_conn w) @ map record_frame rs'\<rparr>\<rparr>"
  from app_loop_close [of ?w t P s' r'] r(3,4) obtain j where
    j: "app_loop P s' r' ?w = (Inr (), ?w\<lparr>w_conn := (w_conn ?w)\<lparr>cn_in := j\<rparr>\<rparr>)" "stream j = t" by auto
  have "length p < 2 ^ 31" if "p \<in> set (map echo ps)" for p
  proof -
    from that obtain q where "q \<in> set ps" "p = echo q" by auto
    then show ?thesis using assms(3) echo_length [of q] by (fastforce simp: MAX_FRAME_def)
  qed
  then have "accepted (record_decrypt P CT_APP_DATA) rs' s = (zip rs' (map echo ps), s')"
    by (intro accepted_sent [OF assms(1) r(1)]) blast
  moreover have "length rs' = length ps" using send_records_numbers [OF r(1)] by simp
  ultimately show ?thesis
    using r(2) j by (intro exI [of _ "?w\<lparr>w_conn := (w_conn ?w)\<lparr>cn_in := j\<rparr>\<rparr>"] exI [of _ rs'] exI [of _ s']) simp
qed

text \<open>The loop cut off after a number of iterations; \<open>None\<close> when it has not ended by then.\<close>

fun app_loop_upto ::
  "nat \<Rightarrow> prims \<Rightarrow> direction_state \<Rightarrow> direction_state \<Rightarrow> world \<Rightarrow> (unit res \<times> world) option" where
  "app_loop_upto 0 P s r w = None"
| "app_loop_upto (Suc n) P s r w = (case app_step P s r w of
     (Break, w) \<Rightarrow> Some (Inr (), w)
   | (Raise e, w) \<Rightarrow> Some (Inl e, w)
   | (Next s r, w) \<Rightarrow> app_loop_upto n P s r w)"

lemma app_step_record_bytes:
  assumes "app_step P s r w = (Next s' r', w')"
  shows "length (stream (cn_in (w_conn w'))) + 5 \<le> length (stream (cn_in (w_conn w)))"
proof -
  from app_step_next [OF assms] obtain frame tag m c where c: "conn_recv (w_conn w) = (Inr frame, c)" "py_index frame 0 = Inr tag"
    "bindS (liftS m) (\<lambda>m. on_conn (conn_send m)) (w\<lparr>w_conn := c\<rparr>) = (Inr (), w')" by blast
  from c(2) have "frame \<noteq> []" by (auto simp: py_index_def raise_def split: if_splits)
  then have "1 \<le> length frame" by (cases frame) simp_all
  moreover from c(1) obtain j where "recv_frame (cn_in (w_conn w)) = Inr (frame, j)" "cn_in c = j"
    by (auto simp: conn_recv_Inr)
  moreover have "cn_in (w_conn w') = cn_in c" using on_conn_send_input [OF c(3)] by simp
  ultimately show ?thesis using recv_frame_bytes by fastforce
qed

text \<open>
  C21: the echo loop ends: every iteration that goes on consumes at least five bytes of input, so it
  has ended after one iteration more than the bytes the peer will deliver have groups of five,
  whatever these bytes are and whichever sends fail.
\<close>

theorem echo_loop_terminates:
  "app_loop_upto (Suc (length (stream (cn_in (w_conn w))) div 5)) P s r w = Some (app_loop P s r w)"
proof -
  have "length (stream (cn_in (w_conn w))) < 5 * n \<Longrightarrow> app_loop_upto n P s r w = Some (app_loop P s r w)" for n
  proof (induction n arbitrary: s r w)
    case 0
    then show ?case by simp
  next
    case (Suc n)
    obtain st v where st: "app_step P s r w = (st, v)" by fastforce
    show ?case
    proof (cases st)
      case (Next s' r')
      with app_step_record_bytes [of P s r w] st have "length (stream (cn_in (w_conn v))) + 5 \<le> length (stream (cn_in (w_conn w)))"
        by blast
      with Suc.prems have "length (stream (cn_in (w_conn v))) < 5 * n" by simp
      from Suc.IH [OF this] Next st show ?thesis by (simp add: app_loop.simps [of P s r w])
    qed (simp_all add: st app_loop.simps [of P s r w])
  qed
  from this [of "Suc (length (stream (cn_in (w_conn w))) div 5)"] show ?thesis by (simp add: dividend_less_times_div)
qed

text \<open>
  C22: whatever the network delivers and whichever sends fail, the loop sends nothing but sealed
  replies to records that an in-order receiver accepts, one per record and in order, and after them
  at most one alert; so if only records of the client's own sending sequence open, the payloads it
  answers are a prefix of those the client sent.
\<close>

theorem echo_loop_safe:
  "\<exists>ds pts rs s' fs. fst (accepted (record_decrypt P CT_APP_DATA) ds r) = zip ds pts \<and> length ds = length pts \<and>
     send_records P CT_APP_DATA (map echo pts) s = Some (rs, s') \<and> alert_or_nothing fs \<and>
     cn_out (w_conn (snd (app_loop P s r w))) = cn_out (w_conn w) @ map record_frame rs @ fs \<and>
     (\<forall>ps crs cst. chacha_ok P \<longrightarrow> list_all (\<lambda>p. length p < 2 ^ 31) ps \<longrightarrow>
        send_records P CT_APP_DATA ps r = Some (crs, cst) \<longrightarrow> only_genuine P CT_APP_DATA r crs ds \<longrightarrow>
        pts = take (length pts) ps)"
proof -
  from app_loop_outputs [of P r s w] obtain ds pts rs s' fs where
    o1: "fst (accepted (record_decrypt P CT_APP_DATA) ds r) = zip ds pts" "length ds = length pts"
    "send_records P CT_APP_DATA (map echo pts) s = Some (rs, s')" "alert_or_nothing fs"
    "cn_out (w_conn (snd (app_loop P s r w))) = cn_out (w_conn w) @ map record_frame rs @ fs" by blast
  have "pts = take (length pts) ps"
    if c: "chacha_ok P" "list_all (\<lambda>p. length p < 2 ^ 31) ps" "send_records P CT_APP_DATA ps r = Some (crs, cst)"
      "only_genuine P CT_APP_DATA r crs ds" for ps crs cst
  proof -
    from accepted_prefix_from [OF c(1) _ c(3,4), of 0] c(2) obtain m where
      "zip ds pts = take m (zip crs ps)" using o1(1) by (auto simp: list_all_iff)
    then have "map snd (zip ds pts) = map snd (take m (zip crs ps))" by simp
    moreover have "map snd (zip ds pts) = pts" using o1(2) by simp
    moreover have "map snd (zip crs ps) = ps" using send_records_numbers [OF c(3)] by simp
    ultimately have "pts = take m ps" by (metis take_map)
    then have "ps = pts @ drop m ps" by simp
    then show ?thesis by (metis append_eq_conv_conj)
  qed
  with o1 show ?thesis by blast
qed

section \<open>Witnesses\<close>

definition sample_world :: "sock_in \<Rightarrow> world" where
  "sample_world i = \<lparr>w_conn = \<lparr>cn_in = i, cn_out = [], cn_faults = []\<rparr>, w_limiter = None,
     w_storage = sample_storage, w_opaque = opaque_server_new 5, w_closed = False\<rparr>"

theorem echo_loop_serves_witness:
  "\<exists>rs r' w' rs' s'. send_records sample CT_APP_DATA [[104, 105], [255]] sample_state = Some (rs, r') \<and>
     app_loop sample sample_state sample_state (sample_world [Data (concat (map record_frame rs) @ frame_of [6])]) = (Inr (), w') \<and>
     accepted (record_decrypt sample CT_APP_DATA) rs' sample_state =
       (zip rs' [blit ''echo:hi'', blit ''echo:'' @ [239, 191, 189]], s') \<and> cn_out (w_conn w') = map record_frame rs'"
proof -
  have q: "0 \<le> ds_seq sample_state" "ds_seq sample_state + int 2 \<le> 2 ^ 64" by (simp_all add: sample_state_def)
  obtain rs r' where rs: "send_records sample CT_APP_DATA [[104, 105], [255]] sample_state = Some (rs, r')"
    using send_records_total [of sample CT_APP_DATA sample_state "[[104, 105], [255]]"] q by auto
  have e: "echo [104, 105] = blit ''echo:hi''" "echo [255] = blit ''echo:'' @ [239, 191, 189]"
    by (simp_all add: echo_def echo_reply_def utf8_encode_append echo_prefix utf8_step_def utf8_lead_def utf8_char_def blit_def)
  define w where "w = sample_world [Data (concat (map record_frame rs) @ frame_of [6])]"
  have w: "cn_faults (w_conn w) = []" "live (cn_in (w_conn w))" "cn_out (w_conn w) = []"
    "stream (cn_in (w_conn w)) = concat (map record_frame rs) @ frame_of [6] @ []"
    by (simp_all add: w_def sample_world_def frame_of_def)
  have l: "\<forall>p \<in> set [[104, 105], [255 :: byte]]. length p \<le> MAX_FRAME - 29" by (simp add: MAX_FRAME_def)
  from echo_loop_serves [OF _ rs l q(1) _ w(1,2,4)] q(2) obtain w' rs' s' where
    "app_loop sample sample_state sample_state w = (Inr (), w')" "cn_out (w_conn w') = map record_frame rs'"
    "accepted (record_decrypt sample CT_APP_DATA) rs' sample_state = (zip rs' (map echo [[104, 105], [255]]), s')"
    unfolding w(3) by auto
  with rs e show ?thesis unfolding w_def by auto
qed

theorem echo_loop_safe_witness:
  "\<exists>ds pts rs s' fs. fst (accepted (record_decrypt sample CT_APP_DATA) ds sample_state) = zip ds pts \<and>
     send_records sample CT_APP_DATA (map echo pts) sample_state = Some (rs, s') \<and>
     cn_out (w_conn (snd (app_loop sample sample_state sample_state (sample_world [Data [0, 0, 0, 1, 9]])))) =
       map record_frame rs @ fs \<and> alert_or_nothing fs"
proof -
  have "cn_out (w_conn (sample_world [Data [0, 0, 0, 1, 9]])) = []" by (simp add: sample_world_def)
  with echo_loop_safe [of sample sample_state sample_state "sample_world [Data [0, 0, 0, 1, 9]]"]
  show ?thesis unfolding append_Nil by (elim exE conjE) (intro exI conjI; simp)
qed

end
