(* ===== verification/Handshake.thy ===== *)
theory Handshake
  imports Prelude Utf8 Codec Framing Connection Primitives Sample_Primitives Kdf Record_Layer Ratelimit
    Server_Config Storage Pki Opaque Server Client Echo_Loop
begin

text \<open>
  The server session and the client composed: an honest login between \<open>server.py\<close> and \<open>client.py\<close>
  succeeds on both sides with the same traffic keys, whatever segments the network cuts the frames
  into.
\<close>

section \<open>The signed ServerHello is accepted\<close>

text \<open>The certificates fit the message, load back, and certify the session's key to the pinned CA.\<close>

definition good_identity :: "prims \<Rightarrow> server_session \<Rightarrow> x509_cert \<Rightarrow> int \<Rightarrow> bool" where
  "good_identity P se ca now \<longleftrightarrow>
     x509_load_der P (crt_der (se_ca_cert se)) = Inr (se_ca_cert se) \<and>
     x509_load_der P (crt_der (se_server_cert se)) = Inr (se_server_cert se) \<and>
     length (crt_der (se_ca_cert se)) \<le> 2 ^ 20 \<and> length (crt_der (se_server_cert se)) \<le> 2 ^ 20 \<and>
     crt_der (se_ca_cert se) = crt_der ca \<and> good_server_cert P ca (lit ''localhost'') now (se_server_cert se) \<and>
     crt_public_key (se_server_cert se) = EcKey (ec_public_bytes P (se_server_key se))"

lemma transcript_add_label:
  assumes "length v < 2 ^ 32" and "l \<in> {''client_hello'', ''server_hello'', ''client_finish''}"
  shows "\<exists>t'. transcript_add (lit l) v t = Inr t'"
proof -
  have "\<exists>lb. utf8_encode (lit l) = Inr lb \<and> length lb < 65536"
    using assms(2) by (auto simp: lit_def utf8_char_def)
  with transcript_add_total [OF _ _ assms(1)] show ?thesis by blast
qed

lemma encode_server_hello_core_Inr:
  "encode_server_hello_core v n c g k = Inr core \<longleftrightarrow> length n = 32 \<and> 0 \<le> v \<and> v < 256 \<and> length k < 65536 \<and>
     length c < 16777216 \<and> length g < 65536 \<and> core = word_of_int v # n @ (be_enc 2 (length k) @ k) @
       (be_enc 3 (length c) @ c) @ be_enc 2 (length g) @ g"
  by (auto simp: encode_server_hello_core_def bindE_eq_Inr p16_Inr p24_Inr byte_of_int_Inr)

lemma encode_server_hello_Inr:
  "encode_server_hello core a b = Inr m \<longleftrightarrow> length a < 65536 \<and> length b < 65536 \<and>
     m = 2 # core @ (be_enc 2 (length a) @ a) @ be_enc 2 (length b) @ b"
  by (auto simp: encode_server_hello_def bindE_eq_Inr p16_Inr byte_of_int_Inr)

lemma server_hello_accepted:
  assumes "ecdsa_ok P" and id: "good_identity P se ca (ct_now_chain now)"
    and "0 \<le> sr_now_config rnd" and "sr_now_config rnd < 2 ^ 64"
    and "\<bar>ct_now_config now - sr_now_config rnd\<bar> \<le> SERVER_CONFIG_MAX_AGE_S"
    and "length (sr_server_nonce rnd) = 32" and "length ke2 < 65536"
    and t: "transcript_add (lit ''client_hello'') ch transcript_new = Inr t"
  shows "\<exists>sh m. build_signed_server_hello P se rnd t ke2 = Inr sh \<and> decode_server_hello sh = Inr m \<and>
    sh_opaque_ke2 m = ke2 \<and> authenticate_server P now (Inr ca) ch m = Inr (se_server_cert se) \<and>
    length sh \<le> MAX_FRAME \<and> sh \<noteq> [] \<and> hd sh = 2"
proof -
  define k where "k = se_server_key se"
  obtain cfg where cfg: "encode_server_config SERVER_ID (sr_now_config rnd) = Inr cfg" "length cfg = 14 + length SERVER_ID"
    using assms(3,4) by (simp add: encode_server_config_Inr SERVER_ID_def)
  have der: "length (crt_der (se_ca_cert se)) \<le> 2 ^ 20" "length (crt_der (se_server_cert se)) \<le> 2 ^ 20"
    using id unfolding good_identity_def by blast+
  then obtain chain where chain: "encode_cert_chain (se_ca_cert se) (se_server_cert se) = Inr chain"
    "length chain \<le> 2 ^ 21 + 6"
    by (simp add: encode_cert_chain_Inr)
  have cl: "length cfg < 65536" using cfg(2) by (simp add: SERVER_ID_def)
  obtain core where core: "encode_server_hello_core 1 (sr_server_nonce rnd) chain cfg ke2 = Inr core"
    "length core \<le> 2 ^ 21 + 6 + 65536 + 65536 + 40"
    using assms(6,7) cl chain(2) by (simp add: encode_server_hello_core_Inr)
  define csig where "csig = sign_server_config P k (sr_sig_config rnd) cfg"
  define vsig where "vsig = sign_cert_verify P k (sr_sig_verify rnd) (transcript_digest P t) core"
  have sl: "length csig \<le> 72" "length vsig \<le> 72"
    by (simp_all add: csig_def vsig_def sign_server_config_def sign_cert_verify_def ecdsa_okD(2) [OF assms(1)])
  obtain sh where sh: "encode_server_hello core csig vsig = Inr sh" "length sh = 5 + length core + length csig + length vsig"
    "sh \<noteq> []" "hd sh = 2"
    using sl by (simp add: encode_server_hello_Inr)
  define m where "m = \<lparr>sh_version = 1, sh_server_nonce = sr_server_nonce rnd, sh_opaque_ke2 = ke2,
    sh_certificate_chain = chain, sh_server_config = cfg, sh_server_config_sig = csig, sh_cert_verify_sig = vsig\<rparr>"
  have "enc_server_hello m = Inr sh" by (simp add: enc_server_hello_def m_def core sh)
  from dec_enc_server_hello [OF this, of "[]"] have d: "decode_server_hello sh = Inr m" by simp
  have lens: "length (crt_der (se_ca_cert se)) < 2 ^ 24" "length (crt_der (se_server_cert se)) < 2 ^ 24"
    using der by simp_all
  then have "decode_cert_chain P chain = Inr (se_ca_cert se, se_server_cert se)"
    using id chain(1) unfolding decode_cert_chain_Inr encode_cert_chain_Inr good_identity_def by blast
  then have v: "verify_certificate_chain P chain (lit ''localhost'') None (Inr ca) (ct_now_chain now) = Inr (se_server_cert se)"
    using id unfolding verify_certificate_chain_Inr good_identity_def by auto
  have pk: "crt_public_key (se_server_cert se) = EcKey (ec_public_bytes P k)"
    using id by (simp add: good_identity_def k_def)
  have sigs: "verify_server_config_signature P cfg csig (se_server_cert se) = Inr ()"
    "verify_certificate_verify_signature P vsig (transcript_digest P t) core (se_server_cert se) = Inr ()"
    by (simp_all add: csig_def vsig_def verify_certificate_verify_signature_def sign_cert_verify_def
        verify_server_config_signature_def sign_server_config_def ecdsa_verify_cert_Inr pk ecdsa_okD [OF assms(1)])
  have "config_bytes 1 1 2 3 SERVER_ID (nat (sr_now_config rnd)) = cfg"
    using cfg(1) by (simp add: encode_server_config_Inr)
  then obtain c where c: "validate_server_config cfg SERVER_ID SERVER_CONFIG_MAX_AGE_S (ct_now_config now) = Inr c"
    using decode_config_bytes [of SERVER_ID "nat (sr_now_config rnd)" 1 1 2 3 "[]"] assms(3-5)
    by (auto simp: validate_server_config_Inr SERVER_ID_def nat_less_iff)
  have "authenticate_server P now (Inr ca) ch m = Inr (se_server_cert se)"
    unfolding authenticate_server_Inr using v sigs c t core(1) by (simp add: m_def)
  moreover have "build_signed_server_hello P se rnd t ke2 = Inr sh"
    by (simp add: build_signed_server_hello_def cfg(1) chain(1) core(1) Let_def sh(1)
        flip: k_def csig_def vsig_def)
  moreover have "length sh \<le> MAX_FRAME" using sh(2) core(2) sl by (simp add: MAX_FRAME_def)
  ultimately show ?thesis using d sh(3,4) by (auto simp: m_def)
qed

section \<open>The two sides of a login\<close>

lemma on_conn_step: "m (w_conn w) = (Inr x, c) \<Longrightarrow> on_conn m w = (Inr x, w\<lparr>w_conn := c\<rparr>)"
  by (simp add: on_conn_def)

lemma on_conn_send_ok:
  "length p < 2 ^ 32 \<Longrightarrow> cn_faults (w_conn w) = [] \<Longrightarrow>
    on_conn (conn_send p) w = (Inr (), w\<lparr>w_conn := (w_conn w)\<lparr>cn_out := cn_out (w_conn w) @ [frame_of p]\<rparr>\<rparr>)"
  by (simp add: on_conn_def conn_send_ok)

text \<open>The server's side, once its OPAQUE answer, its ServerHello and the client's KE3 are known.\<close>

lemma login_handshake_ok:
  assumes al: "allow (sr_now_limiter rnd) (se_ip se) (ch_credential_id m) (get_limiter (w_limiter w)) = (True, rl)"
    and t1: "transcript_add (lit ''client_hello'') ch transcript_new = Inr t1"
    and start: "server_login_start P (sr_login rnd) (ch_credential_id m) (ch_opaque_ke1 m) (w_opaque w) (w_storage w) = (Inr (ke2, ss), sg)"
    and sh: "build_signed_server_hello P se rnd t1 ke2 = Inr sh" "length sh \<le> MAX_FRAME"
    and t2: "transcript_add (lit ''server_hello'') sh t1 = Inr t2"
    and conn: "cn_faults (w_conn w) = []" "live (cn_in (w_conn w))" "stream (cn_in (w_conn w)) = frame_of cf @ t"
    and cf: "length cf \<le> MAX_FRAME" "decode_client_finish cf = Inr f"
    and t3: "transcript_add (lit ''client_finish'') cf t2 = Inr t3"
    and fin: "server_login_finish P ss (cf_opaque_ke3 f) = Inr (sk, ek)"
    and sec: "derive_traffic_secrets P sk (transcript_digest P t3) = Inr secrets"
    and dirs: "direction_new P (ts_server_app secrets) = Inr s" "direction_new P (ts_client_app secrets) = Inr r"
  shows "\<exists>i. login_handshake P se rnd m ch w = (Inr (Some (s, r)), w\<lparr>w_limiter := Some rl, w_storage := sg, w_conn :=
      (w_conn w)\<lparr>cn_out := cn_out (w_conn w) @ [frame_of sh], cn_in := i\<rparr>\<rparr>) \<and> stream i = t \<and> live i"
proof -
  define w1 where "w1 = w\<lparr>w_limiter := Some rl\<rparr>"
  define w2 where "w2 = w1\<lparr>w_storage := sg\<rparr>"
  define w3 where "w3 = w2\<lparr>w_conn := (w_conn w)\<lparr>cn_out := cn_out (w_conn w) @ [frame_of sh]\<rparr>\<rparr>"
  have 1: "limiter_allow (sr_now_limiter rnd) (se_ip se) (ch_credential_id m) w = (Inr True, w1)"
    by (simp add: limiter_allow_def al w1_def)
  have 2: "on_storage (server_login_start P (sr_login rnd) (ch_credential_id m) (ch_opaque_ke1 m)) w1 = (Inr (ke2, ss), w2)"
    using start by (simp add: on_storage_eq w1_def w2_def)
  have 3: "on_conn (conn_send sh) w2 = (Inr (), w3)"
    using sh(2) conn(1) by (simp add: on_conn_send_ok MAX_FRAME_def w1_def w2_def w3_def)
  from conn_recv_frame [of "w_conn w3" cf t] conn cf(1) obtain i where i: "conn_recv (w_conn w3) = (Inr cf, (w_conn w3)\<lparr>cn_in := i\<rparr>)"
    "stream i = t" "live i" by (auto simp: w3_def)
  have 4: "on_conn conn_recv w3 = (Inr cf, w3\<lparr>w_conn := (w_conn w3)\<lparr>cn_in := i\<rparr>\<rparr>)"
    by (rule on_conn_step) (rule i(1))
  have "login_handshake P se rnd m ch w = (Inr (Some (s, r)), w3\<lparr>w_conn := (w_conn w3)\<lparr>cn_in := i\<rparr>\<rparr>)"
    unfolding login_handshake_def login_exchange_def login_complete_def
    by (simp add: bindS_def tryS_def liftS_def retS_def 1 2 3 4 t1 sh(1) t2 cf(2) t3 fin sec dirs)
  then show ?thesis using i(2,3) by (auto simp: w3_def w2_def w1_def)
qed

text \<open>The client's side, on a connection that delivers the ServerHello.\<close>

lemma client_login_ok:
  assumes names: "make_login_credential_id P username = Inr cid" "utf8_encode password = Inr pw" "utf8_encode username = Inr u"
    and start: "client_login_start P (cr_blind rnd) (cr_eph_priv rnd) (cr_nonce rnd) pw = Inr (ke1, st)"
    and ch: "encode_client_hello 1 cid (ls_nonce_c st) ke1 = Inr ch" "length ch < 2 ^ 32"
    and t1: "transcript_add (lit ''client_hello'') ch transcript_new = Inr t1"
    and conn: "cn_faults c = []" "live (cn_in c)" "stream (cn_in c) = frame_of sh @ t"
    and sh: "length sh \<le> MAX_FRAME" "sh \<noteq> []" "hd sh = 2" "decode_server_hello sh = Inr m"
    and t2: "transcript_add (lit ''server_hello'') sh t1 = Inr t2"
    and au: "authenticate_server P now ca ch m = Inr cert"
    and fin: "client_login_finish P st (sh_opaque_ke2 m) = Inr (sk, ek, ke3)"
    and cf: "encode_client_finish ke3 = Inr cf" "length cf < 2 ^ 32"
    and t3: "transcript_add (lit ''client_finish'') cf t2 = Inr t3"
    and sec: "derive_traffic_secrets P sk (transcript_digest P t3) = Inr secrets"
  shows "\<exists>i. client_login P rnd now ca username password c = (Inr (secrets, ek),
      c\<lparr>cn_out := cn_out c @ [frame_of ch, frame_of cf], cn_in := i\<rparr>) \<and> stream i = t \<and> live i"
proof -
  define c1 where "c1 = c\<lparr>cn_out := cn_out c @ [frame_of ch]\<rparr>"
  have 1: "conn_send ch c = (Inr (), c1)" using ch(2) conn(1) by (simp add: conn_send_ok c1_def)
  from conn_recv_frame [of c1 sh t] conn sh(1) obtain i where i: "conn_recv c1 = (Inr sh, c1\<lparr>cn_in := i\<rparr>)"
    "stream i = t" "live i" by (auto simp: c1_def)
  have 2: "py_index sh 0 = Inr 2" using sh(2,3) by (simp add: py_index_def hd_conv_nth)
  have 3: "conn_send cf (c1\<lparr>cn_in := i\<rparr>) = (Inr (), c\<lparr>cn_out := cn_out c @ [frame_of ch, frame_of cf], cn_in := i\<rparr>)"
    using cf(2) conn(1) by (simp add: conn_send_ok c1_def)
  have "client_login P rnd now ca username password c = (Inr (secrets, ek),
      c\<lparr>cn_out := cn_out c @ [frame_of ch, frame_of cf], cn_in := i\<rparr>)"
    unfolding client_login_def
    by (simp add: bindS_def liftS_def retS_def names start ch(1) t1 1 i(1) 2 t2 sh(4) au fin cf(1) t3 3 sec)
  with i(2,3) show ?thesis by blast
qed

section \<open>The message exchange\<close>

lemma echo_text: "utf8_encode s = Inr b \<Longrightarrow> echo b = blit ''echo:'' @ b \<and> utf8_decode (echo b) = Inr (lit ''echo:'' @ s)"
proof -
  assume b: "utf8_encode s = Inr b"
  then have e: "echo b = blit ''echo:'' @ b" by (simp add: echo_def echo_reply_text)
  have "utf8_encode (lit ''echo:'' @ s) = Inr (echo b)" by (simp add: utf8_encode_append echo_prefix b e)
  with e show ?thesis by (simp add: utf8_decode_encode)
qed

lemma client_exchange_ok:
  assumes "chacha_ok P" and dirs: "direction_new P (ts_client_app secrets) = Inr r" "direction_new P (ts_server_app secrets) = Inr s"
    and "utf8_encode message = Inr msg" and "length msg \<le> MAX_FRAME - 34"
    and c1: "record_encrypt P CT_APP_DATA msg r = (Inr (q1, c1), r')"
    and c2: "record_encrypt P CT_APP_DATA (echo msg) s = (Inr (q2, c2), s')"
    and conn: "cn_faults c = []" "live (cn_in c)" "stream (cn_in c) = record_frame (q2, c2) @ t"
  shows "\<exists>i. client_exchange P secrets message c = (Inr (Some (lit ''echo:'' @ message)),
      c\<lparr>cn_out := cn_out c @ [record_frame (q1, c1), frame_of [6]], cn_in := i\<rparr>) \<and> stream i = t \<and> live i"
proof -
  note e = echo_text [OF assms(4)]
  have l1: "length msg < 2 ^ 31" and l2: "length (echo msg) < 2 ^ 31"
    using assms(5) e by (simp_all add: MAX_FRAME_def)
  note b1 = record_encrypt_bounds [OF assms(1) l1 c1] and b2 = record_encrypt_bounds [OF assms(1) l2 c2]
  have m1: "encode_app_data q1 c1 = Inr (app_message (q1, c1))" using b1 l1 by (intro encode_app_message) simp_all
  define d where "d = c\<lparr>cn_out := cn_out c @ [record_frame (q1, c1)]\<rparr>"
  have 1: "conn_send (app_message (q1, c1)) c = (Inr (), d)"
    using b1 l1 conn(1) by (simp add: conn_send_ok d_def record_frame_def)
  have "length (app_message (q2, c2)) \<le> MAX_FRAME" using b2 e assms(5) by (simp add: MAX_FRAME_def)
  from conn_recv_frame [OF _ _ this, of d t] conn obtain i where i: "conn_recv d = (Inr (app_message (q2, c2)), d\<lparr>cn_in := i\<rparr>)"
    "stream i = t" "live i" by (auto simp: d_def record_frame_def)
  have 2: "py_index (app_message (q2, c2)) 0 = Inr 4" by (simp add: py_index_def app_message_def)
  have 3: "decode_app_data (app_message (q2, c2)) = Inr \<lparr>ad_seq = q2, ad_ciphertext = c2\<rparr>"
    using b2 l2 by (intro decode_app_message) simp_all
  note 4 = decrypt_encrypt [OF assms(1) l2 c2]
  have 5: "conn_send [6] (d\<lparr>cn_in := i\<rparr>) = (Inr (), c\<lparr>cn_out := cn_out c @ [record_frame (q1, c1), frame_of [6]], cn_in := i\<rparr>)"
    using conn(1) by (simp add: conn_send_ok d_def)
  have "client_exchange P secrets message c = (Inr (Some (lit ''echo:'' @ message)),
      c\<lparr>cn_out := cn_out c @ [record_frame (q1, c1), frame_of [6]], cn_in := i\<rparr>)"
    unfolding client_exchange_def
    by (simp add: bindS_def liftS_def retS_def dirs assms(4) c1 [unfolded CT_APP_DATA_def] m1 1 i(1) 2 3
        4 [unfolded CT_APP_DATA_def] e [THEN conjunct2] 5)
  with i(2,3) show ?thesis by blast
qed

section \<open>An honest run\<close>

text \<open>What the composition asks of the primitives, all documented behaviour.\<close>

definition primitives_ok :: "prims \<Rightarrow> bool" where
  "primitives_ok P \<longleftrightarrow> sha512_ok P \<and> ecdh_ok P \<and> ec_keys_ok P \<and> hkdf_expand_ok P \<and> chacha_ok P \<and> ecdsa_ok P"

text \<open>The random values of one run have the lengths the code gives them.\<close>

definition run_random_ok :: "prims \<Rightarrow> session_random \<Rightarrow> client_random \<Rightarrow> bool" where
  "run_random_ok P rnd crnd \<longleftrightarrow> length (sr_server_nonce rnd) = 32 \<and> length (lr_nonce_s (sr_login rnd)) = 32 \<and>
     length (cr_nonce crnd) = 32 \<and> valid_priv P (cr_eph_priv crnd)"

text \<open>The two clocks agree up to the age a configuration may have.\<close>

definition clocks_ok :: "session_random \<Rightarrow> check_times \<Rightarrow> bool" where
  "clocks_ok rnd now \<longleftrightarrow> 0 \<le> sr_now_config rnd \<and> sr_now_config rnd < 2 ^ 64 \<and>
     \<bar>ct_now_config now - sr_now_config rnd\<bar> \<le> SERVER_CONFIG_MAX_AGE_S"

text \<open>
  The store holds a record of the user that the password opens: the OPRF output for this login's
  blind unlocks the envelope, which holds the record's client key and the server's public key.
\<close>

definition registered :: "prims \<Rightarrow> int \<Rightarrow> client_random \<Rightarrow> pystr \<Rightarrow> pystr \<Rightarrow> storage \<Rightarrow> bool" where
  "registered P k crnd username password sg \<longleftrightarrow> (\<exists>u pw ke1 lst rec c Z rw.
     utf8_encode username = Inr u \<and> utf8_encode password = Inr pw \<and>
     client_login_start P (cr_blind crnd) (cr_eph_priv crnd) (cr_nonce crnd) pw = Inr (ke1, lst) \<and>
     fst (load_opaque_record (hash_bytes P [CONTEXT_STRING @ u]) sg) = Inr (Some rec) \<and>
     or_client_pub rec = ec_public_bytes P c \<and> length (or_envelope rec) \<le> 60000 \<and>
     p256_scalar_mult (be_dec (or_oprf_key rec)) (ls_M lst) = Inr Z \<and>
     oprf_finalize P pw (cr_blind crnd) Z = Inr rw \<and> envelope_open P rw (or_envelope rec) = Inr (c, ec_public_bytes P k))"

lemma length_hash_bytes: "sha512_ok P \<Longrightarrow> length (hash_bytes P xs) = 64"
  by (simp add: hash_bytes_def sha512_okD)

lemma client_hello_ok:
  assumes "length cid = 64" and "length n = 32" and "length ke1 < 65536" and "0 \<le> v" and "v < 256"
  shows "\<exists>ch. encode_client_hello v cid n ke1 = Inr ch \<and> length ch \<le> 100 + length ke1 \<and> ch \<noteq> [] \<and> hd ch = 1 \<and>
    decode_client_hello ch = Inr \<lparr>ch_version = v, ch_credential_id = cid, ch_client_nonce = n, ch_opaque_ke1 = ke1\<rparr>"
proof -
  define m where "m = \<lparr>ch_version = v, ch_credential_id = cid, ch_client_nonce = n, ch_opaque_ke1 = ke1\<rparr>"
  have e: "encode_client_hello v cid n ke1 = Inr (1 # word_of_int v # cid @ n @ be_enc 2 (length ke1) @ ke1)"
    using assms by (simp add: encode_client_hello_def p16_Inr bindE_eq_Inr byte_of_int_def p16_def)
  then have "enc_client_hello m = Inr (1 # word_of_int v # cid @ n @ be_enc 2 (length ke1) @ ke1)"
    by (simp add: enc_client_hello_def m_def)
  from dec_enc_client_hello [OF this, of "[]"] e assms show ?thesis by (simp add: m_def)
qed

lemma client_finish_ok:
  "length k \<le> 60000 \<Longrightarrow> \<exists>cf. encode_client_finish k = Inr cf \<and> length cf = 3 + length k \<and>
    decode_client_finish cf = Inr \<lparr>cf_opaque_ke3 = k\<rparr>"
  using dec_enc_client_finish [of "\<lparr>cf_opaque_ke3 = k\<rparr>" _ "[]"]
  by (simp add: enc_client_finish_def encode_client_finish_Inr)

text \<open>All messages, transcripts and keys of one login run.\<close>

record login_run =
  lx_password :: bytes
  lx_cid :: bytes
  lx_ke1 :: bytes
  lx_client :: login_state
  lx_ch :: bytes
  lx_t1 :: transcript
  lx_storage :: storage
  lx_ke2 :: bytes
  lx_server :: server_state
  lx_sh :: bytes
  lx_parsed_sh :: parsed_server_hello
  lx_t2 :: transcript
  lx_session_key :: bytes
  lx_export_key :: bytes
  lx_ke3 :: bytes
  lx_cf :: bytes
  lx_t3 :: transcript
  lx_secrets :: traffic_secrets
  lx_send :: direction_state
  lx_recv :: direction_state

text \<open>The OPAQUE part of a run: both sides compute the same keys.\<close>

definition opaque_run ::
  "prims \<Rightarrow> int \<Rightarrow> session_random \<Rightarrow> client_random \<Rightarrow> pystr \<Rightarrow> pystr \<Rightarrow> storage \<Rightarrow> login_run \<Rightarrow> bool" where
  "opaque_run P k rnd crnd username password sg L \<longleftrightarrow>
     (\<exists>u. utf8_encode username = Inr u) \<and> utf8_encode password = Inr (lx_password L) \<and>
     make_login_credential_id P username = Inr (lx_cid L) \<and> length (lx_cid L) = 64 \<and>
     client_login_start P (cr_blind crnd) (cr_eph_priv crnd) (cr_nonce crnd) (lx_password L) = Inr (lx_ke1 L, lx_client L) \<and>
     length (lx_ke1 L) = 130 \<and> ls_nonce_c (lx_client L) = cr_nonce crnd \<and>
     server_login_start P (sr_login rnd) (lx_cid L) (lx_ke1 L) (opaque_server_new k) sg =
       (Inr (lx_ke2 L, lx_server L), lx_storage L) \<and> length (lx_ke2 L) < 65536 \<and>
     client_login_finish P (lx_client L) (lx_ke2 L) = Inr (lx_session_key L, lx_export_key L, lx_ke3 L) \<and>
     server_login_finish P (lx_server L) (lx_ke3 L) = Inr (lx_session_key L, lx_export_key L) \<and> length (lx_ke3 L) = 64"

text \<open>The messages around it: each is encoded, accepted and added to the transcript by both sides.\<close>

definition messages_run ::
  "prims \<Rightarrow> server_session \<Rightarrow> session_random \<Rightarrow> check_times \<Rightarrow> x509_cert \<Rightarrow> login_run \<Rightarrow> bool" where
  "messages_run P se rnd now ca L \<longleftrightarrow>
     encode_client_hello 1 (lx_cid L) (ls_nonce_c (lx_client L)) (lx_ke1 L) = Inr (lx_ch L) \<and>
     length (lx_ch L) \<le> 300 \<and> lx_ch L \<noteq> [] \<and> hd (lx_ch L) = 1 \<and>
     decode_client_hello (lx_ch L) = Inr \<lparr>ch_version = 1, ch_credential_id = lx_cid L,
       ch_client_nonce = ls_nonce_c (lx_client L), ch_opaque_ke1 = lx_ke1 L\<rparr> \<and>
     transcript_add (lit ''client_hello'') (lx_ch L) transcript_new = Inr (lx_t1 L) \<and>
     build_signed_server_hello P se rnd (lx_t1 L) (lx_ke2 L) = Inr (lx_sh L) \<and>
     length (lx_sh L) \<le> MAX_FRAME \<and> lx_sh L \<noteq> [] \<and> hd (lx_sh L) = 2 \<and>
     decode_server_hello (lx_sh L) = Inr (lx_parsed_sh L) \<and> sh_opaque_ke2 (lx_parsed_sh L) = lx_ke2 L \<and>
     authenticate_server P now (Inr ca) (lx_ch L) (lx_parsed_sh L) = Inr (se_server_cert se) \<and>
     transcript_add (lit ''server_hello'') (lx_sh L) (lx_t1 L) = Inr (lx_t2 L) \<and>
     encode_client_finish (lx_ke3 L) = Inr (lx_cf L) \<and> length (lx_cf L) \<le> 300 \<and>
     decode_client_finish (lx_cf L) = Inr \<lparr>cf_opaque_ke3 = lx_ke3 L\<rparr> \<and>
     transcript_add (lit ''client_finish'') (lx_cf L) (lx_t2 L) = Inr (lx_t3 L) \<and>
     derive_traffic_secrets P (lx_session_key L) (transcript_digest P (lx_t3 L)) = Inr (lx_secrets L) \<and>
     direction_new P (ts_server_app (lx_secrets L)) = Inr (lx_send L) \<and> ds_seq (lx_send L) = 0 \<and>
     direction_new P (ts_client_app (lx_secrets L)) = Inr (lx_recv L) \<and> ds_seq (lx_recv L) = 0"

lemma messages_runD:
  assumes "messages_run P se rnd now ca L"
  shows "encode_client_hello 1 (lx_cid L) (ls_nonce_c (lx_client L)) (lx_ke1 L) = Inr (lx_ch L)"
    "length (lx_ch L) < 2 ^ 32" "length (lx_ch L) \<le> MAX_FRAME" "lx_ch L \<noteq> []" "hd (lx_ch L) = 1"
    "decode_client_hello (lx_ch L) = Inr \<lparr>ch_version = 1, ch_credential_id = lx_cid L,
       ch_client_nonce = ls_nonce_c (lx_client L), ch_opaque_ke1 = lx_ke1 L\<rparr>"
    "transcript_add (lit ''client_hello'') (lx_ch L) transcript_new = Inr (lx_t1 L)"
    "build_signed_server_hello P se rnd (lx_t1 L) (lx_ke2 L) = Inr (lx_sh L)"
    "length (lx_sh L) \<le> MAX_FRAME" "lx_sh L \<noteq> []" "hd (lx_sh L) = 2"
    "decode_server_hello (lx_sh L) = Inr (lx_parsed_sh L)" "sh_opaque_ke2 (lx_parsed_sh L) = lx_ke2 L"
    "authenticate_server P now (Inr ca) (lx_ch L) (lx_parsed_sh L) = Inr (se_server_cert se)"
    "transcript_add (lit ''server_hello'') (lx_sh L) (lx_t1 L) = Inr (lx_t2 L)"
    "encode_client_finish (lx_ke3 L) = Inr (lx_cf L)" "length (lx_cf L) < 2 ^ 32" "length (lx_cf L) \<le> MAX_FRAME"
    "decode_client_finish (lx_cf L) = Inr \<lparr>cf_opaque_ke3 = lx_ke3 L\<rparr>"
    "transcript_add (lit ''client_finish'') (lx_cf L) (lx_t2 L) = Inr (lx_t3 L)"
    "derive_traffic_secrets P (lx_session_key L) (transcript_digest P (lx_t3 L)) = Inr (lx_secrets L)"
    "direction_new P (ts_server_app (lx_secrets L)) = Inr (lx_send L)" "ds_seq (lx_send L) = 0"
    "direction_new P (ts_client_app (lx_secrets L)) = Inr (lx_recv L)" "ds_seq (lx_recv L) = 0"
  using assms by (auto simp: messages_run_def MAX_FRAME_def)

lemma opaque_run_exists:
  assumes P: "primitives_ok P" and rnd: "run_random_ok P rnd crnd" and reg: "registered P k crnd username password sg"
  shows "\<exists>L. opaque_run P k rnd crnd username password sg L"
proof -
  from P have prim: "sha512_ok P" "ecdh_ok P" "ec_keys_ok P" by (simp_all add: primitives_ok_def)
  from rnd have len: "length (lr_nonce_s (sr_login rnd)) = 32" "length (cr_nonce crnd) = 32" "valid_priv P (cr_eph_priv crnd)"
    by (simp_all add: run_random_ok_def)
  from reg obtain u pw ke1 lst rec c Z rw where names: "utf8_encode username = Inr u" "utf8_encode password = Inr pw"
    and start: "client_login_start P (cr_blind crnd) (cr_eph_priv crnd) (cr_nonce crnd) pw = Inr (ke1, lst)"
    and rec: "fst (load_opaque_record (hash_bytes P [CONTEXT_STRING @ u]) sg) = Inr (Some rec)"
      "or_client_pub rec = ec_public_bytes P c" "length (or_envelope rec) \<le> 60000"
    and Z: "p256_scalar_mult (be_dec (or_oprf_key rec)) (ls_M lst) = Inr Z"
    and rw: "oprf_finalize P pw (cr_blind crnd) Z = Inr rw" "envelope_open P rw (or_envelope rec) = Inr (c, ec_public_bytes P k)"
    unfolding registered_def by blast
  define cid where "cid = hash_bytes P [CONTEXT_STRING @ u]"
  have ke1: "length ke1 = 130" "ls_nonce_c lst = cr_nonce crnd"
    using start len(2) oprf_blind_length ec_keys_okD(2) [OF prim(3)] by (auto simp: client_login_start_Inr pack_ke1_def)
  obtain sg' where sg': "load_opaque_record cid sg = (Inr (Some rec), sg')"
    using rec(1) by (cases "load_opaque_record cid sg") (simp add: cid_def)
  have i: "login_inputs P (sr_login rnd) (Some rec) = (be_dec (or_oprf_key rec), ec_public_bytes P c, or_envelope rec)"
    by (simp add: login_inputs_def rec(2))
  have "length (or_envelope rec) < 2 ^ 24" using rec(3) by simp
  from login_agrees [OF prim(2,3) len(3,2,1) start i this Z rw] obtain ke2 ss sk ek ke3 where
    opq: "server_login_reply P (sr_login rnd) k (Some rec) ke1 = Inr (ke2, ss)"
    "client_login_finish P lst ke2 = Inr (sk, ek, ke3)" "server_login_finish P ss ke3 = Inr (sk, ek)" by blast
  from server_login_reply_Inr [OF opq(1)] i obtain M Z' where
    "p256_scalar_mult (be_dec (or_oprf_key rec)) M = Inr Z'" "length (ss_server_mac ss) = 64"
    "pack_ke2 Z' (or_envelope rec) (lr_nonce_s (sr_login rnd)) (ec_public_bytes P (lr_s_eph_priv (sr_login rnd))) (ss_server_mac ss) = Inr ke2"
    by auto
  then have ke2: "length ke2 < 65536"
    using pack_ke2_length scalar_mult_length rec(3) len(1) ec_keys_okD(2) [OF prim(3)] by fastforce
  have ke3: "length ke3 = 64"
    using opq(3) by (auto simp: server_login_finish_def Let_def split: if_splits)
  define L :: login_run where "L = undefined\<lparr>lx_password := pw, lx_cid := cid, lx_ke1 := ke1, lx_client := lst, lx_storage := sg',
    lx_ke2 := ke2, lx_server := ss, lx_session_key := sk, lx_export_key := ek, lx_ke3 := ke3\<rparr>"
  have "opaque_run P k rnd crnd username password sg L"
    using names ke1 ke2 ke3 opq start prim(1)
    by (simp add: opaque_run_def L_def make_login_credential_id_def cid_def length_hash_bytes server_login_start_def
        sg' [unfolded cid_def] opaque_server_new_def)
  then show ?thesis by blast
qed

lemma messages_run_exists:
  assumes P: "primitives_ok P" and id: "good_identity P se ca (ct_now_chain now)"
    and rnd: "run_random_ok P rnd crnd" and clk: "clocks_ok rnd now"
    and O: "opaque_run P k rnd crnd username password sg L"
  shows "\<exists>L. opaque_run P k rnd crnd username password sg L \<and> messages_run P se rnd now ca L"
proof -
  from P have prim: "sha512_ok P" "hkdf_expand_ok P" "chacha_ok P" "ecdsa_ok P" by (simp_all add: primitives_ok_def)
  from rnd have len: "length (sr_server_nonce rnd) = 32" "length (cr_nonce crnd) = 32" by (simp_all add: run_random_ok_def)
  from O have o1: "length (lx_cid L) = 64" "length (lx_ke1 L) = 130" "ls_nonce_c (lx_client L) = cr_nonce crnd"
    "length (lx_ke2 L) < 65536" "length (lx_ke3 L) = 64" by (simp_all add: opaque_run_def)
  from client_hello_ok [of "lx_cid L" "cr_nonce crnd" "lx_ke1 L" 1] o1 len(2) obtain ch where
    ch: "encode_client_hello 1 (lx_cid L) (cr_nonce crnd) (lx_ke1 L) = Inr ch" "length ch \<le> 300" "ch \<noteq> []" "hd ch = 1"
    "decode_client_hello ch = Inr \<lparr>ch_version = 1, ch_credential_id = lx_cid L, ch_client_nonce = cr_nonce crnd,
      ch_opaque_ke1 = lx_ke1 L\<rparr>" by auto
  obtain t1 where t1: "transcript_add (lit ''client_hello'') ch transcript_new = Inr t1"
    using transcript_add_label [of ch "''client_hello''"] ch(2) by auto
  from server_hello_accepted [OF prim(4) id _ _ _ len(1) o1(4) t1] clk obtain sh m where
    sh: "build_signed_server_hello P se rnd t1 (lx_ke2 L) = Inr sh" "decode_server_hello sh = Inr m" "sh_opaque_ke2 m = lx_ke2 L"
    "authenticate_server P now (Inr ca) ch m = Inr (se_server_cert se)" "length sh \<le> MAX_FRAME" "sh \<noteq> []" "hd sh = 2"
    unfolding clocks_ok_def by blast
  obtain t2 where t2: "transcript_add (lit ''server_hello'') sh t1 = Inr t2"
    using transcript_add_label [of sh "''server_hello''"] sh(5) by (auto simp: MAX_FRAME_def)
  obtain cf where cf: "encode_client_finish (lx_ke3 L) = Inr cf" "length cf \<le> 300"
    and dcf: "decode_client_finish cf = Inr \<lparr>cf_opaque_ke3 = lx_ke3 L\<rparr>"
    using client_finish_ok [of "lx_ke3 L"] o1(5) by auto
  obtain t3 where t3: "transcript_add (lit ''client_finish'') cf t2 = Inr t3"
    using transcript_add_label [of cf "''client_finish''"] cf(2) by auto
  obtain secrets where sec: "derive_traffic_secrets P (lx_session_key L) (transcript_digest P t3) = Inr secrets"
    using schedule_total [OF prim(2,1), of "transcript_digest P t3" "lx_session_key L"] length_hash_bytes [OF prim(1)]
    by (auto simp: transcript_digest_def)
  obtain s r where dirs: "direction_new P (ts_server_app secrets) = Inr s" "direction_new P (ts_client_app secrets) = Inr r"
    "ds_seq s = 0" "ds_seq r = 0"
    using direction_new_ok [OF prim(2,3)] by meson
  let ?L = "L\<lparr>lx_ch := ch, lx_t1 := t1, lx_sh := sh, lx_parsed_sh := m, lx_t2 := t2, lx_cf := cf, lx_t3 := t3,
    lx_secrets := secrets, lx_send := s, lx_recv := r\<rparr>"
  have "opaque_run P k rnd crnd username password sg ?L" using O by (simp add: opaque_run_def)
  moreover have "messages_run P se rnd now ca ?L"
    unfolding messages_run_def by (simp add: o1(3) ch t1 sh t2 cf dcf t3 sec dirs)
  ultimately show ?thesis by blast
qed

text \<open>One run serves both sides: the client's program and the server's session.\<close>

lemma client_login_run:
  assumes "opaque_run P k rnd crnd username password sg L" and M: "messages_run P se rnd now ca L"
    and "cn_faults c = []" and "live (cn_in c)" and "stream (cn_in c) = frame_of (lx_sh L) @ t"
  shows "\<exists>i. client_login P crnd now (Inr ca) username password c = (Inr (lx_secrets L, lx_export_key L),
      c\<lparr>cn_out := cn_out c @ [frame_of (lx_ch L), frame_of (lx_cf L)], cn_in := i\<rparr>) \<and> stream i = t \<and> live i"
proof -
  from assms(1) obtain u where O: "make_login_credential_id P username = Inr (lx_cid L)" "utf8_encode password = Inr (lx_password L)"
    "utf8_encode username = Inr u"
    "client_login_start P (cr_blind crnd) (cr_eph_priv crnd) (cr_nonce crnd) (lx_password L) = Inr (lx_ke1 L, lx_client L)"
    "client_login_finish P (lx_client L) (lx_ke2 L) = Inr (lx_session_key L, lx_export_key L, lx_ke3 L)"
    unfolding opaque_run_def by blast
  note m = messages_runD [OF M]
  from client_login_ok [OF O(1-4) m(1,2,7) assms(3-5) m(9-12,15,14) O(5) [folded m(13)] m(16,17,20,21)] show ?thesis by auto
qed

lemma client_run:
  assumes "opaque_run P k rnd crnd username password sg L" and M: "messages_run P se rnd now ca L"
    and "chacha_ok P" and "utf8_encode message = Inr msg" and "length msg \<le> MAX_FRAME - 34"
    and "record_encrypt P CT_APP_DATA msg (lx_recv L) = (Inr (q1, c1), r')"
    and "record_encrypt P CT_APP_DATA (echo msg) (lx_send L) = (Inr (q2, c2), s')"
    and "cn_faults c = []" and "live (cn_in c)" and "stream (cn_in c) = frame_of (lx_sh L) @ record_frame (q2, c2)"
  shows "\<exists>c'. client_main P crnd now (Inr ca) username password message c = (Inr (Some (lit ''echo:'' @ message)), c') \<and>
    cn_out c' = cn_out c @ [frame_of (lx_ch L), frame_of (lx_cf L), record_frame (q1, c1), frame_of [6]]"
proof -
  note m = messages_runD [OF M]
  obtain i where i: "client_login P crnd now (Inr ca) username password c = (Inr (lx_secrets L, lx_export_key L),
      c\<lparr>cn_out := cn_out c @ [frame_of (lx_ch L), frame_of (lx_cf L)], cn_in := i\<rparr>)"
    "stream i = record_frame (q2, c2) @ []" "live i"
    using client_login_run [OF assms(1) M assms(8-10)] by auto
  let ?c = "c\<lparr>cn_out := cn_out c @ [frame_of (lx_ch L), frame_of (lx_cf L)], cn_in := i\<rparr>"
  from client_exchange_ok [OF assms(3) _ _ assms(4-7), of "lx_secrets L" ?c "[]"] i(2,3) assms(8) m(22,24) obtain j where
    "client_exchange P (lx_secrets L) message ?c = (Inr (Some (lit ''echo:'' @ message)),
      ?c\<lparr>cn_out := cn_out ?c @ [record_frame (q1, c1), frame_of [6]], cn_in := j\<rparr>)" by auto
  with i(1) show ?thesis by (simp add: client_main_def bindS_def)
qed

lemma py_index_hd: "xs \<noteq> [] \<Longrightarrow> py_index xs 0 = Inr (hd xs)"
  by (simp add: py_index_def hd_conv_nth)

lemma session_hello:
  assumes "live (cn_in (w_conn w))" and "stream (cn_in (w_conn w)) = frame_of ch @ t" and "length ch \<le> MAX_FRAME"
    and "ch \<noteq> []" and "hd ch = 1" and "decode_client_hello ch = Inr pch"
  shows "\<exists>i. session_body P se rnd w = (if ch_version pch = 2 then handle_registration P se rnd pch ch
      (w\<lparr>w_conn := (w_conn w)\<lparr>cn_in := i\<rparr>\<rparr>) else handle_login P se rnd pch ch (w\<lparr>w_conn := (w_conn w)\<lparr>cn_in := i\<rparr>\<rparr>)) \<and>
    stream i = t \<and> live i"
proof -
  from conn_recv_frame [OF assms(1-3)] obtain i where i: "conn_recv (w_conn w) = (Inr ch, (w_conn w)\<lparr>cn_in := i\<rparr>)"
    "stream i = t" "live i" by blast
  have 1: "on_conn conn_recv w = (Inr ch, w\<lparr>w_conn := (w_conn w)\<lparr>cn_in := i\<rparr>\<rparr>)" by (rule on_conn_step) (rule i(1))
  show ?thesis
    using i(2,3) by (intro exI [of _ i])
      (simp add: session_body_def bindS_def liftS_def 1 py_index_hd [OF assms(4)] assms(5,6))
qed

text \<open>The ClientHello of the run, as the server parses it, and the server's handshake on it.\<close>

definition lx_parsed_ch :: "login_run \<Rightarrow> parsed_client_hello" where
  "lx_parsed_ch L = \<lparr>ch_version = 1, ch_credential_id = lx_cid L, ch_client_nonce = ls_nonce_c (lx_client L),
    ch_opaque_ke1 = lx_ke1 L\<rparr>"

lemma lx_parsed_ch_simps [simp]:
  "ch_version (lx_parsed_ch L) = 1" "ch_credential_id (lx_parsed_ch L) = lx_cid L" "ch_opaque_ke1 (lx_parsed_ch L) = lx_ke1 L"
  by (simp_all add: lx_parsed_ch_def)

lemma server_handshake:
  assumes O: "opaque_run P (se_server_key se) rnd crnd username password (w_storage w) L" and M: "messages_run P se rnd now ca L"
    and al: "allow (sr_now_limiter rnd) (se_ip se) (lx_cid L) (get_limiter (w_limiter w)) = (True, rl)"
    and "w_opaque w = opaque_server_new (se_server_key se)" and "cn_faults (w_conn w) = []" and "live (cn_in (w_conn w))"
    and "stream (cn_in (w_conn w)) = frame_of (lx_cf L) @ t"
  shows "\<exists>j. login_handshake P se rnd (lx_parsed_ch L) (lx_ch L) w = (Inr (Some (lx_send L, lx_recv L)), w\<lparr>w_limiter := Some rl,
      w_storage := lx_storage L, w_conn := (w_conn w)\<lparr>cn_out := cn_out (w_conn w) @ [frame_of (lx_sh L)], cn_in := j\<rparr>\<rparr>) \<and>
    stream j = t \<and> live j"
proof -
  note m = messages_runD [OF M]
  have O2: "server_login_start P (sr_login rnd) (ch_credential_id (lx_parsed_ch L)) (ch_opaque_ke1 (lx_parsed_ch L)) (w_opaque w) (w_storage w) =
      (Inr (lx_ke2 L, lx_server L), lx_storage L)"
    "server_login_finish P (lx_server L) (lx_ke3 L) = Inr (lx_session_key L, lx_export_key L)"
    using O assms(4) by (simp_all add: opaque_run_def lx_parsed_ch_def)
  have "allow (sr_now_limiter rnd) (se_ip se) (ch_credential_id (lx_parsed_ch L)) (get_limiter (w_limiter w)) = (True, rl)"
    using al by (simp add: lx_parsed_ch_def)
  from login_handshake_ok [OF this m(7) O2(1) m(8,9,15) assms(5-7) m(18,19,20) _ m(21,22,24)] O2(2) show ?thesis
    by auto
qed

lemma server_run_records:
  assumes O: "opaque_run P (se_server_key se) rnd crnd username password sg L" and M: "messages_run P se rnd now ca L"
    and "chacha_ok P" and "\<forall>p \<in> set msgs. length p \<le> MAX_FRAME - 29"
    and c1: "send_records P CT_APP_DATA msgs (lx_recv L) = Some (rs, r')"
    and c2: "send_records P CT_APP_DATA (map echo msgs) (lx_send L) = Some (rs', s')" and n: "int (length msgs) \<le> 2 ^ 64"
    and al: "allow (sr_now_limiter rnd) (se_ip se) (lx_cid L) (get_limiter lim) = (True, rl)"
    and "cn_faults d = []" and "live (cn_in d)"
    and "stream (cn_in d) = frame_of (lx_ch L) @ frame_of (lx_cf L) @ concat (map record_frame rs) @ frame_of [6]"
  shows "\<exists>w'. run P se rnd (session_new se d lim sg) = (Completed, w') \<and>
    cn_out (w_conn w') = cn_out d @ frame_of (lx_sh L) # map record_frame rs' \<and>
    w_limiter w' = Some (reset_limiter (se_ip se) (lx_cid L) rl)"
proof -
  note m = messages_runD [OF M]
  let ?w = "session_new se d lim sg"
  let ?pch = "lx_parsed_ch L"
  note m6 = m(6) [folded lx_parsed_ch_def]
  have w: "w_conn ?w = d" "w_limiter ?w = lim" by (simp_all add: session_new_def)
  from session_hello [of ?w "lx_ch L" _ ?pch P se rnd, unfolded w, OF assms(10,11) m(3-5) m6] obtain i where
    i: "session_body P se rnd ?w = handle_login P se rnd ?pch (lx_ch L) (?w\<lparr>w_conn := d\<lparr>cn_in := i\<rparr>\<rparr>)"
    "stream i = frame_of (lx_cf L) @ concat (map record_frame rs) @ frame_of [6]" "live i" by (auto simp: lx_parsed_ch_def)
  let ?w1 = "?w\<lparr>w_conn := d\<lparr>cn_in := i\<rparr>\<rparr>"
  have w1: "w_storage ?w1 = sg" "w_opaque ?w1 = opaque_server_new (se_server_key se)" "w_limiter ?w1 = lim"
    by (simp_all add: session_new_def)
  from server_handshake [of P se rnd crnd username password ?w1 L now ca rl "concat (map record_frame rs) @ frame_of [6]",
      unfolded w1, OF O M al] assms(9) i(2,3) obtain j where
    j: "login_handshake P se rnd ?pch (lx_ch L) ?w1 = (Inr (Some (lx_send L, lx_recv L)), ?w1\<lparr>w_limiter := Some rl,
      w_storage := lx_storage L, w_conn := (w_conn ?w1)\<lparr>cn_out := cn_out d @ [frame_of (lx_sh L)], cn_in := j\<rparr>\<rparr>)"
    "stream j = concat (map record_frame rs) @ frame_of [6]" "live j" by auto
  define w2 where "w2 = ?w1\<lparr>w_storage := lx_storage L, w_conn := d\<lparr>cn_out := cn_out d @ [frame_of (lx_sh L)], cn_in := j\<rparr>,
    w_limiter := Some (reset_limiter (se_ip se) (lx_cid L) rl)\<rparr>"
  have q: "0 \<le> ds_seq (lx_send L)" "ds_seq (lx_send L) + int (length msgs) \<le> 2 ^ 64" using m(23) n by simp_all
  have w2: "cn_faults (w_conn w2) = []" "live (cn_in (w_conn w2))"
    "stream (cn_in (w_conn w2)) = concat (map record_frame rs) @ frame_of [6]"
    using assms(9) j(2,3) by (simp_all add: w2_def)
  from echo_loop_run [OF assms(3) c1 assms(4) q w2] c2 obtain i2 s2 where
    l: "app_loop P (lx_send L) (lx_recv L) w2 = app_loop P s2 r' (w2\<lparr>w_conn := (w_conn w2)\<lparr>cn_in := i2,
      cn_out := cn_out (w_conn w2) @ map record_frame rs'\<rparr>\<rparr>)" "stream i2 = frame_of [6]" "live i2" by auto
  let ?w3 = "w2\<lparr>w_conn := (w_conn w2)\<lparr>cn_in := i2, cn_out := cn_out (w_conn w2) @ map record_frame rs'\<rparr>\<rparr>"
  from app_loop_close [of ?w3 "[]" P s2 r'] l(2,3) obtain i3 where
    i3: "app_loop P s2 r' ?w3 = (Inr (), ?w3\<lparr>w_conn := (w_conn ?w3)\<lparr>cn_in := i3\<rparr>\<rparr>)" by auto
  have "handle_login P se rnd ?pch (lx_ch L) ?w1 = app_loop P (lx_send L) (lx_recv L) w2"
    unfolding handle_login_def by (simp add: bindS_def j(1) limiter_reset_def get_limiter_def w2_def)
  then have "session_body P se rnd ?w = (Inr (), ?w3\<lparr>w_conn := (w_conn ?w3)\<lparr>cn_in := i3\<rparr>\<rparr>)"
    using i(1) l(1) i3 by simp
  then show ?thesis by (simp add: run_def w2_def)
qed

lemma server_run:
  assumes "opaque_run P (se_server_key se) rnd crnd username password sg L" and "messages_run P se rnd now ca L"
    and "chacha_ok P" and "length msg \<le> MAX_FRAME - 29"
    and "record_encrypt P CT_APP_DATA msg (lx_recv L) = (Inr (q1, c1), r')"
    and "record_encrypt P CT_APP_DATA (echo msg) (lx_send L) = (Inr (q2, c2), s')"
    and "allow (sr_now_limiter rnd) (se_ip se) (lx_cid L) (get_limiter lim) = (True, rl)"
    and "cn_faults d = []" and "live (cn_in d)"
    and "stream (cn_in d) = frame_of (lx_ch L) @ frame_of (lx_cf L) @ record_frame (q1, c1) @ frame_of [6]"
  shows "\<exists>w'. run P se rnd (session_new se d lim sg) = (Completed, w') \<and>
    cn_out (w_conn w') = cn_out d @ [frame_of (lx_sh L), record_frame (q2, c2)] \<and>
    w_limiter w' = Some (reset_limiter (se_ip se) (lx_cid L) rl)"
  using server_run_records [OF assms(1-3), of "[msg]" "[(q1, c1)]" r' "[(q2, c2)]" s' lim rl d] assms(4-10) by simp

end
