(* ===== verification/Registration.thy ===== *)
theory Registration
  imports Prelude Utf8 Codec Framing Connection Primitives Sample_Primitives Kdf Record_Layer Ratelimit
    Server_Config Storage Pki Opaque_Core Opaque Server Client Echo_Loop Handshake
begin

text \<open>
  The registration flow between \<open>register_user.py\<close> and the server session: both sides end normally
  and the user is registered, so that the login of \<open>Handshake\<close> goes through afterwards.
\<close>

section \<open>The two sides of a registration\<close>

lemma handle_registration_ok:
  assumes t1: "transcript_add (lit ''client_hello'') ch transcript_new = Inr t1"
    and resp: "registration_respond P (sr_oprf_key rnd) (ch_credential_id m) (ch_opaque_ke1 m) (w_opaque w) = (Inr resp, os)"
    and sh: "build_signed_server_hello P se rnd t1 resp = Inr sh" "length sh \<le> MAX_FRAME"
    and conn: "cn_faults (w_conn w) = []" "live (cn_in (w_conn w))" "stream (cn_in (w_conn w)) = frame_of cf @ t"
    and cf: "length cf \<le> MAX_FRAME" "decode_client_finish cf = Inr f"
    and st: "registration_store (ch_credential_id m) (cf_opaque_ke3 f) os (w_storage w) = (Inr (), sg)"
  shows "\<exists>w'. handle_registration P se rnd m ch w = (Inr (), w') \<and>
    cn_out (w_conn w') = cn_out (w_conn w) @ [frame_of sh, frame_of [6]] \<and> w_storage w' = sg"
proof -
  define w1 where "w1 = w\<lparr>w_opaque := os\<rparr>"
  define w2 where "w2 = w1\<lparr>w_conn := (w_conn w)\<lparr>cn_out := cn_out (w_conn w) @ [frame_of sh]\<rparr>\<rparr>"
  have 1: "on_opaque (registration_respond P (sr_oprf_key rnd) (ch_credential_id m) (ch_opaque_ke1 m)) w = (Inr resp, w1)"
    using resp by (simp add: on_opaque_eq w1_def)
  have 2: "on_conn (conn_send sh) w1 = (Inr (), w2)"
    using sh(2) conn(1) by (simp add: on_conn_send_ok MAX_FRAME_def w1_def w2_def)
  from conn_recv_frame [of "w_conn w2" cf t] conn cf(1) obtain i where i: "conn_recv (w_conn w2) = (Inr cf, (w_conn w2)\<lparr>cn_in := i\<rparr>)"
    by (auto simp: w2_def)
  define w3 where "w3 = w2\<lparr>w_conn := (w_conn w2)\<lparr>cn_in := i\<rparr>\<rparr>"
  have 3: "on_conn conn_recv w2 = (Inr cf, w3)" unfolding w3_def by (rule on_conn_step) (rule i)
  define w4 where "w4 = w3\<lparr>w_storage := sg\<rparr>"
  have 4: "on_storage (registration_store (ch_credential_id m) (cf_opaque_ke3 f)) w3 = (Inr (), w4)"
    using st by (simp add: on_storage_eq w4_def w3_def w2_def w1_def)
  define w5 where "w5 = w4\<lparr>w_conn := (w_conn w4)\<lparr>cn_out := cn_out (w_conn w4) @ [frame_of [6]]\<rparr>\<rparr>"
  have 5: "on_conn (conn_send [6]) w4 = (Inr (), w5)"
    using conn(1) by (simp add: on_conn_send_ok w5_def w4_def w3_def w2_def w1_def)
  have "handle_registration P se rnd m ch w = (Inr (), w5)"
    unfolding handle_registration_def
    by (simp add: bindS_def liftS_def t1 1 sh(1) 2 3 cf(2) 4 5)
  then show ?thesis by (simp add: w5_def w4_def w3_def w2_def w1_def)
qed

lemma register_ok:
  assumes names: "make_cred_id P username = Inr cid" "utf8_encode password = Inr pw" "utf8_encode username = Inr u"
    and start: "registration_start P (rr_blind rnd) pw = Inr (M, st)"
    and ch: "encode_client_hello 2 cid (rr_nonce rnd) M = Inr ch" "length ch < 2 ^ 32"
    and t1: "transcript_add (lit ''client_hello'') ch transcript_new = Inr t1"
    and conn: "cn_faults c = []" "live (cn_in c)" "stream (cn_in c) = frame_of sh @ frame_of [6]"
    and sh: "length sh \<le> MAX_FRAME" "sh \<noteq> []" "hd sh = 2" "decode_server_hello sh = Inr m"
    and t2: "transcript_add (lit ''server_hello'') sh t1 = Inr t2"
    and au: "authenticate_server P now ca ch m = Inr cert"
    and key: "crt_public_key cert = EcKey (drop POINT_LEN (sh_opaque_ke2 m))"
    and fin: "registration_finish P st (rr_c_priv rnd) (rr_salt rnd) (rr_env_nonce rnd) (sh_opaque_ke2 m) = Inr record"
    and cf: "encode_client_finish record = Inr cf" "length cf < 2 ^ 32"
  shows "\<exists>c'. register P rnd now ca username password c = (Inr (), c') \<and>
      cn_out c' = cn_out c @ [frame_of ch, frame_of cf]"
proof -
  define c1 where "c1 = c\<lparr>cn_out := cn_out c @ [frame_of ch]\<rparr>"
  have 1: "conn_send ch c = (Inr (), c1)" using ch(2) conn(1) by (simp add: conn_send_ok c1_def)
  from conn_recv_frame [of c1 sh "frame_of [6]"] conn sh(1) obtain i where
    i: "conn_recv c1 = (Inr sh, c1\<lparr>cn_in := i\<rparr>)" "stream i = frame_of [6] @ []" "live i" by (auto simp: c1_def)
  have 2: "py_index sh 0 = Inr 2" using sh(2,3) by (simp add: py_index_hd)
  define c2 where "c2 = c\<lparr>cn_out := cn_out c @ [frame_of ch, frame_of cf], cn_in := i\<rparr>"
  have 3: "conn_send cf (c1\<lparr>cn_in := i\<rparr>) = (Inr (), c2)"
    using cf(2) conn(1) by (simp add: conn_send_ok c1_def c2_def)
  from conn_recv_frame [of c2 "[6]" "[]"] i(2,3) obtain j where
    j: "conn_recv c2 = (Inr [6], c2\<lparr>cn_in := j\<rparr>)" by (auto simp: c2_def MAX_FRAME_def)
  have 6: "py_index [6] 0 = Inr (6 :: byte)" by (simp add: py_index_def)
  have k: "cert_public_key_bytes cert = Inr (drop POINT_LEN (sh_opaque_ke2 m))"
    by (simp add: cert_public_key_bytes_def key)
  have "register P rnd now ca username password c = (Inr (), c2\<lparr>cn_in := j\<rparr>)"
    unfolding register_def
    by (simp add: bindS_def liftS_def retS_def names start ch(1) t1 1 i(1) 2 t2 sh(4) au k fin cf(1) 3 j 6 Let_def)
  then show ?thesis by (simp add: c2_def)
qed

text \<open>The record that a registration leaves in the store.\<close>

definition stored_record ::
  "prims \<Rightarrow> int \<Rightarrow> nat \<Rightarrow> int \<Rightarrow> bytes \<Rightarrow> bytes \<Rightarrow> storage \<Rightarrow> bool" where
  "stored_record P key k c_priv rw cid sg \<longleftrightarrow> (\<exists>env. length env = 142 \<and>
     envelope_open P rw env = Inr (c_priv, ec_public_bytes P key) \<and>
     load_opaque_record cid sg = (Inr (Some \<lparr>or_oprf_key = be_enc 32 k, or_client_pub = ec_public_bytes P c_priv,
       or_envelope = env, or_credential_id = cid\<rparr>), sg))"

lemma stored_registered:
  assumes "stored_record P key k c_priv rw (hash_bytes P [CONTEXT_STRING @ u]) sg" and "k < 2 ^ 256"
    and "utf8_encode username = Inr u" and "utf8_encode password = Inr pw"
    and "client_login_start P (cr_blind crnd) (cr_eph_priv crnd) (cr_nonce crnd) pw = Inr (ke1, lst)"
    and "p256_scalar_mult k (ls_M lst) = Inr Z" and "oprf_finalize P pw (cr_blind crnd) Z = Inr rw"
  shows "registered P key crnd username password sg"
proof -
  from assms(1) obtain env where env: "length env = 142" "envelope_open P rw env = Inr (c_priv, ec_public_bytes P key)"
    "load_opaque_record (hash_bytes P [CONTEXT_STRING @ u]) sg = (Inr (Some \<lparr>or_oprf_key = be_enc 32 k,
       or_client_pub = ec_public_bytes P c_priv, or_envelope = env, or_credential_id = hash_bytes P [CONTEXT_STRING @ u]\<rparr>), sg)"
    unfolding stored_record_def by blast
  let ?rec = "\<lparr>or_oprf_key = be_enc 32 k, or_client_pub = ec_public_bytes P c_priv, or_envelope = env,
    or_credential_id = hash_bytes P [CONTEXT_STRING @ u]\<rparr>"
  have "be_dec (be_enc 32 k) = k" using assms(2) by simp
  then show ?thesis
    unfolding registered_def
    by (intro exI [of _ u] exI [of _ pw] exI [of _ ke1] exI [of _ lst] exI [of _ ?rec] exI [of _ c_priv] exI [of _ Z] exI [of _ rw])
      (simp add: assms env)
qed

text \<open>The random values of a registration have the lengths the code gives them.\<close>

definition register_random_ok :: "prims \<Rightarrow> session_random \<Rightarrow> register_random \<Rightarrow> bool" where
  "register_random_ok P rnd rrnd \<longleftrightarrow> length (sr_server_nonce rnd) = 32 \<and> sr_oprf_key rnd < 2 ^ 256 \<and>
     length (rr_nonce rrnd) = 32 \<and> length (rr_salt rrnd) = 16 \<and> length (rr_env_nonce rrnd) = 12 \<and>
     valid_priv P (rr_c_priv rrnd)"

lemma registration_response:
  assumes "p256_scalar_mult k M = Inr Z" and "k < 2 ^ 256"
  shows "\<exists>os m. registration_respond P k cid M (opaque_server_new key) = (Inr (Z @ ec_public_bytes P key), os) \<and>
    os_pending os = Some m \<and> m (hex_str cid) = Some (be_enc 32 k)"
  using assms by (simp add: registration_respond_def oprf_evaluate_def opaque_server_new_def Let_def)

lemma registration_stores:
  assumes "ec_keys_ok P" and "hkdf_expand_ok P" and "aesgcm_ok P" and "argon2_ok P" and "valid_priv P c"
    and "length salt = 16" and "length nonce = 12" and "users_ready sg" and "k < 2 ^ 256"
    and "p256_scalar_mult k M = Inr Z" and "oprf_finalize P pw r Z = Inr rw"
  shows "\<exists>env os sg'. registration_respond P k cid M (opaque_server_new key) = (Inr (Z @ ec_public_bytes P key), os) \<and>
    registration_finish P \<lparr>rs_blind = r, rs_password = pw\<rparr> c salt nonce (Z @ ec_public_bytes P key) =
      Inr (ec_public_bytes P c @ env) \<and> length env = 142 \<and>
    registration_store cid (ec_public_bytes P c @ env) os sg = (Inr (), sg') \<and> stored_record P key k c rw cid sg'"
proof -
  from registration_response [OF assms(10,9), of P cid key] obtain os m where
    os: "registration_respond P k cid M (opaque_server_new key) = (Inr (Z @ ec_public_bytes P key), os)" "os_pending os = Some m"
    "m (hex_str cid) = Some (be_enc 32 k)" by blast
  from registration_upload [OF assms(1-7) scalar_mult_length [OF assms(10)] assms(11), of key] obtain env where
    env: "registration_finish P \<lparr>rs_blind = r, rs_password = pw\<rparr> c salt nonce (Z @ ec_public_bytes P key) =
      Inr (ec_public_bytes P c @ env)" "length env = 142" "envelope_open P rw env = Inr (c, ec_public_bytes P key)" by blast
  from registration_store_ok [OF assms(8) os(2,3) ec_keys_okD(2) [OF assms(1)], of c env] os(1) env show ?thesis
    unfolding stored_record_def by blast
qed

text \<open>The server's session, once its messages and the stored record are known.\<close>

lemma server_registers:
  assumes "decode_client_hello ch = Inr pch" and "ch_version pch = 2" and "ch \<noteq> []" and "hd ch = 1" and "length ch \<le> MAX_FRAME"
    and "transcript_add (lit ''client_hello'') ch transcript_new = Inr t1"
    and "registration_respond P (sr_oprf_key rnd) (ch_credential_id pch) (ch_opaque_ke1 pch) (opaque_server_new (se_server_key se)) = (Inr resp, os)"
    and "build_signed_server_hello P se rnd t1 resp = Inr sh" and "length sh \<le> MAX_FRAME"
    and "length cf \<le> MAX_FRAME" and "decode_client_finish cf = Inr f"
    and "registration_store (ch_credential_id pch) (cf_opaque_ke3 f) os sg = (Inr (), sg')"
    and "cn_faults d = []" and "live (cn_in d)" and "stream (cn_in d) = frame_of ch @ frame_of cf"
  shows "\<exists>w'. run P se rnd (session_new se d lim sg) = (Completed, w') \<and>
    cn_out (w_conn w') = cn_out d @ [frame_of sh, frame_of [6]] \<and> w_storage w' = sg'"
proof -
  let ?w = "session_new se d lim sg"
  have w: "w_conn ?w = d" by (simp add: session_new_def)
  from session_hello [of ?w ch "frame_of cf" pch P se rnd, unfolded w, OF assms(14,15,5,3,4,1)] assms(2) obtain i where
    i: "session_body P se rnd ?w = handle_registration P se rnd pch ch (?w\<lparr>w_conn := d\<lparr>cn_in := i\<rparr>\<rparr>)"
    "stream i = frame_of cf @ []" "live i" by auto
  from handle_registration_ok [OF assms(6) _ assms(8,9) _ _ _ assms(10,11), of pch "?w\<lparr>w_conn := d\<lparr>cn_in := i\<rparr>\<rparr>" os "[]" sg']
    assms(7,12,13) i(2,3) obtain w' where
    "handle_registration P se rnd pch ch (?w\<lparr>w_conn := d\<lparr>cn_in := i\<rparr>\<rparr>) = (Inr (), w')"
    "cn_out (w_conn w') = cn_out d @ [frame_of sh, frame_of [6]]" "w_storage w' = sg'"
    by (auto simp: session_new_def)
  with i(1) show ?thesis by (simp add: run_def)
qed

end
