(* ===== verification/Startup.thy ===== *)
theory Startup
  imports Prelude Connection Primitives Sample_Primitives Pki File_System Pki_Files Server Client Handshake
begin

text \<open>
  The programs from their command line to the socket and back: what \<open>main\<close> of \<open>server.py\<close> reads before
  it listens, and \<open>main\<close> of \<open>client.py\<close> and of \<open>register_user.py\<close> around the protocol.  A server and a
  client that start on one disk agree on the CA, so the handshake's certificate checks go through.
\<close>

section \<open>The server\<close>

text \<open>The key and the two certificates every session is constructed with.\<close>

definition server_start :: "prims \<Rightarrow> pystr \<Rightarrow> pki_random \<Rightarrow> (file_system, int \<times> x509_cert \<times> x509_cert) st_res" where
  "server_start P base rnd =
     bindS (bootstrap_pki P base False rnd) (\<lambda>_.
     bindS (loadS (load_private_key P (SERVER_CERT_KEY_PATH base))) (\<lambda>server_key.
     bindS (loadS (load_certificate P (SERVER_CERT_PATH base))) (\<lambda>server_cert.
     bindS (loadS (load_certificate P (CA_CERT_PATH base))) (\<lambda>ca_cert.
       retS (server_key, server_cert, ca_cert)))))"

text \<open>The session object of an accepted connection; the peer's address is its IP.\<close>

definition accepted_session :: "int \<times> x509_cert \<times> x509_cert \<Rightarrow> pystr \<Rightarrow> server_session" where
  "accepted_session identity ip = (case identity of (server_key, server_cert, ca_cert) \<Rightarrow>
     \<lparr>se_ip = ip, se_server_key = server_key, se_server_cert = server_cert, se_ca_cert = ca_cert\<rparr>)"

section \<open>The client programs\<close>

text \<open>\<open>args.password or getpass.getpass(\<dots>)\<close>: an empty password on the command line counts as none.\<close>

definition chosen_password :: "pystr option \<Rightarrow> pystr \<Rightarrow> pystr" where
  "chosen_password arg prompted = (case arg of None \<Rightarrow> prompted | Some p \<Rightarrow> if p = [] then prompted else p)"

text \<open>
  \<open>main\<close> of \<open>client.py\<close>: the state is the disk and the connection, which the server has accepted.  The
  result is the reply that is shown.
\<close>

definition client_program ::
  "prims \<Rightarrow> pystr \<Rightarrow> pki_random \<Rightarrow> client_random \<Rightarrow> check_times \<Rightarrow> pystr \<Rightarrow> pystr option \<Rightarrow> pystr \<Rightarrow> pystr \<Rightarrow>
   (file_system \<times> conn, pystr option) st_res" where
  "client_program P base prnd rnd now user password prompted message = (\<lambda>(fs, c).
     case bootstrap_pki P base False prnd fs of
       (Inl e, fs) \<Rightarrow> (Inl e, (fs, c))
     | (Inr _, fs) \<Rightarrow>
         (case client_main P rnd now (load_certificate P (CA_CERT_PATH base) fs) user
                 (chosen_password password prompted) message c of
            (r, c) \<Rightarrow> (r, (fs, c))))"

text \<open>\<open>register\<close> with its bootstrap, and \<open>main\<close> of \<open>register_user.py\<close>, which turns every exception into exit status 1.\<close>

definition register_run ::
  "prims \<Rightarrow> pystr \<Rightarrow> pki_random \<Rightarrow> register_random \<Rightarrow> check_times \<Rightarrow> pystr \<Rightarrow> pystr \<Rightarrow> (file_system \<times> conn, unit) st_res" where
  "register_run P base prnd rnd now username password = (\<lambda>(fs, c).
     case bootstrap_pki P base False prnd fs of
       (Inl e, fs) \<Rightarrow> (Inl e, (fs, c))
     | (Inr _, fs) \<Rightarrow>
         (case register P rnd now (load_certificate P (CA_CERT_PATH base) fs) username password c of
            (r, c) \<Rightarrow> (r, (fs, c))))"

definition register_program ::
  "prims \<Rightarrow> pystr \<Rightarrow> pki_random \<Rightarrow> register_random \<Rightarrow> check_times \<Rightarrow> pystr \<Rightarrow> pystr option \<Rightarrow> pystr \<Rightarrow>
   file_system \<times> conn \<Rightarrow> int \<times> (file_system \<times> conn)" where
  "register_program P base prnd rnd now user password prompted s =
     (case register_run P base prnd rnd now user (chosen_password password prompted) s of
        (Inl e, s) \<Rightarrow> (1, s)
      | (Inr _, s) \<Rightarrow> (0, s))"

section \<open>An installation\<close>

lemma server_start_fresh:
  assumes "generation_ok P rnd" and "pki_missing base fs" and "within_validity rnd (pr_now_check rnd)"
  shows "server_start P base rnd fs =
    (Inr (pr_srv_key rnd, generated_server P rnd, generated_ca P rnd), pki_saved P base rnd fs)"
  by (simp add: server_start_def bindS_def loadS_def retS_def bootstrap_generates assms(2) self_check_ok [OF assms(1,3)]
      pki_saved_load [OF assms(1)])

lemma client_program_bootstrapped:
  "\<not> pki_missing base fs \<Longrightarrow> load_certificate P (CA_CERT_PATH base) fs = ca \<Longrightarrow>
    client_program P base prnd rnd now user password prompted message (fs, c) =
      (case client_main P rnd now ca user (chosen_password password prompted) message c of (r, c) \<Rightarrow> (r, (fs, c)))"
  by (simp add: client_program_def bootstrap_keeps)

lemma register_program_bootstrapped:
  "\<not> pki_missing base fs \<Longrightarrow> load_certificate P (CA_CERT_PATH base) fs = ca \<Longrightarrow>
    register_program P base prnd rnd now user password prompted (fs, c) =
      (case register P rnd now ca user (chosen_password password prompted) c of
         (r, c) \<Rightarrow> (case r of Inl _ \<Rightarrow> 1 | Inr _ \<Rightarrow> 0, (fs, c)))"
  by (simp add: register_program_def register_run_def bootstrap_keeps split: prod.splits sum.splits)

lemma installed_identity:
  assumes "generation_ok P rnd" and "within_validity rnd now"
    and "length (crt_der (generated_ca P rnd)) \<le> 2 ^ 20" and "length (crt_der (generated_server P rnd)) \<le> 2 ^ 20"
  shows "good_identity P (accepted_session (pr_srv_key rnd, generated_server P rnd, generated_ca P rnd) ip)
    (generated_ca P rnd) now"
  using generated_facts(1-3) [OF assms(1)] generated_facts(7) [OF assms(1,2)] assms(3,4)
  by (simp add: good_identity_def accepted_session_def)

end
