(* ===== verification/Whole_Runs.thy ===== *)
theory Whole_Runs
  imports Prelude Codec Framing Connection Primitives Kdf Record_Layer Ratelimit Server_Config Storage Pki File_System
    Pki_Files Opaque Server Client Echo_Loop Handshake Registration Startup
begin

text \<open>
  Whole runs of the programs against each other, as lemmas: a login with its echo, a registration, and
  a login on a fresh installation.  The theorems of the root theory are instances.
\<close>

section \<open>A login\<close>

text \<open>The last conjunct: the first frame the client sends is a ClientHello with its credential.\<close>

lemma login_frames:
  assumes "primitives_ok P" and "good_identity P se ca (ct_now_chain now)" and "run_random_ok P rnd crnd"
    and "clocks_ok rnd now" and "registered P (se_server_key se) crnd username password sg"
    and "utf8_encode message = Inr msg" and "length msg \<le> MAX_FRAME - 34"
    and "make_login_credential_id P username = Inr cid"
    and "allow (sr_now_limiter rnd) (se_ip se) cid (get_limiter lim) = (True, rl)"
  shows "\<exists>c_out s_out.
    (\<forall>c. delivers c s_out \<longrightarrow>
       (\<exists>c'. client_main P crnd now (Inr ca) username password message c = (Inr (Some (lit ''echo:'' @ message)), c') \<and>
          cn_out c' = cn_out c @ c_out)) \<and>
    (\<forall>d. delivers d c_out \<longrightarrow>
       (\<exists>w'. run P se rnd (session_new se d lim sg) = (Completed, w') \<and> cn_out (w_conn w') = cn_out d @ s_out \<and>
          w_limiter w' = Some (reset_limiter (se_ip se) cid rl))) \<and>
    (\<forall>d. delivers d c_out \<longrightarrow>
       (\<exists>raw c' ch. conn_recv d = (Inr raw, c') \<and> decode_client_hello raw = Inr ch \<and> ch_credential_id ch = cid))"
proof -
  have P: "chacha_ok P" using assms(1) by (simp add: primitives_ok_def)
  obtain L where L: "opaque_run P (se_server_key se) rnd crnd username password sg L" "messages_run P se rnd now ca L"
    using opaque_run_exists [OF assms(1,3,5)] messages_run_exists [OF assms(1-4)] by blast
  note m = messages_runD [OF L(2)]
  have cid: "cid = lx_cid L" using L(1) assms(8) by (simp add: opaque_run_def)
  have l: "length msg < 2 ^ 31" "length (echo msg) < 2 ^ 31" "length msg \<le> MAX_FRAME - 29"
    using assms(7) echo_length [of msg] by (simp_all add: MAX_FRAME_def)
  obtain c1 where c1: "record_encrypt P CT_APP_DATA msg (lx_recv L) = (Inr (0, c1), (lx_recv L)\<lparr>ds_seq := 1\<rparr>)"
    using encrypt_total [OF P _ _ _ _ l(1), of CT_APP_DATA "lx_recv L"] m(25) by auto
  obtain c2 where c2: "record_encrypt P CT_APP_DATA (echo msg) (lx_send L) = (Inr (0, c2), (lx_send L)\<lparr>ds_seq := 1\<rparr>)"
    using encrypt_total [OF P _ _ _ _ l(2), of CT_APP_DATA "lx_send L"] m(23) by auto
  let ?c = "[frame_of (lx_ch L), frame_of (lx_cf L), record_frame (0, c1), frame_of [6]]"
  let ?s = "[frame_of (lx_sh L), record_frame (0, c2)]"
  show ?thesis
  proof (rule exI [of _ ?c], rule exI [of _ ?s], intro conjI allI impI)
    fix c :: conn assume "delivers c ?s"
    then show "\<exists>c'. client_main P crnd now (Inr ca) username password message c = (Inr (Some (lit ''echo:'' @ message)), c') \<and>
        cn_out c' = cn_out c @ ?c"
      by (intro client_run [OF L P assms(6,7) c1 c2]) (simp_all add: delivers_def)
  next
    fix d :: conn assume "delivers d ?c"
    then show "\<exists>w'. run P se rnd (session_new se d lim sg) = (Completed, w') \<and> cn_out (w_conn w') = cn_out d @ ?s \<and>
        w_limiter w' = Some (reset_limiter (se_ip se) cid rl)"
      unfolding cid by (intro server_run [OF L P l(3) c1 c2 assms(9) [unfolded cid]]) (simp_all add: delivers_def)
  next
    fix d :: conn assume "delivers d ?c"
    then show "\<exists>raw c' ch. conn_recv d = (Inr raw, c') \<and> decode_client_hello raw = Inr ch \<and> ch_credential_id ch = cid"
      using conn_recv_frame [of d "lx_ch L"] m(3,6) by (fastforce simp: delivers_def cid)
  qed
qed

lemma login_run:
  assumes "primitives_ok P" and "good_identity P se ca (ct_now_chain now)" and "run_random_ok P rnd crnd"
    and "clocks_ok rnd now" and "registered P (se_server_key se) crnd username password sg"
    and "utf8_encode message = Inr msg" and "length msg \<le> MAX_FRAME - 34"
    and "make_login_credential_id P username = Inr cid"
    and "allow (sr_now_limiter rnd) (se_ip se) cid (get_limiter lim) = (True, rl)"
  shows "\<exists>c_out s_out.
    (\<forall>c. delivers c s_out \<longrightarrow>
       (\<exists>c'. client_main P crnd now (Inr ca) username password message c = (Inr (Some (lit ''echo:'' @ message)), c') \<and>
          cn_out c' = cn_out c @ c_out)) \<and>
    (\<forall>d. delivers d c_out \<longrightarrow>
       (\<exists>w'. run P se rnd (session_new se d lim sg) = (Completed, w') \<and> cn_out (w_conn w') = cn_out d @ s_out \<and>
          w_limiter w' = Some (reset_limiter (se_ip se) cid rl)))"
  using login_frames [OF assms] by blast

section \<open>A registration\<close>

lemma registration_run:
  assumes "primitives_ok P" and "aesgcm_ok P" and "argon2_ok P" and "good_identity P se ca (ct_now_chain now)"
    and "clocks_ok rnd now" and "register_random_ok P rnd rrnd" and "users_ready sg"
    and "utf8_encode username = Inr u" and "utf8_encode password = Inr pw"
    and "registration_start P (rr_blind rrnd) pw = Inr (M, rst)" and "p256_scalar_mult (sr_oprf_key rnd) M = Inr Z"
    and "oprf_finalize P pw (rr_blind rrnd) Z = Inr rw"
  shows "\<exists>c_out s_out sg'.
    (\<forall>c. delivers c s_out \<longrightarrow>
       (\<exists>c'. register P rrnd now (Inr ca) username password c = (Inr (), c') \<and> cn_out c' = cn_out c @ c_out)) \<and>
    (\<forall>d lim. delivers d c_out \<longrightarrow>
       (\<exists>w'. run P se rnd (session_new se d lim sg) = (Completed, w') \<and> cn_out (w_conn w') = cn_out d @ s_out \<and>
          w_storage w' = sg')) \<and>
    (\<forall>crnd ke1 lst Z1.
       client_login_start P (cr_blind crnd) (cr_eph_priv crnd) (cr_nonce crnd) pw = Inr (ke1, lst) \<longrightarrow>
       p256_scalar_mult (sr_oprf_key rnd) (ls_M lst) = Inr Z1 \<longrightarrow> oprf_finalize P pw (cr_blind crnd) Z1 = Inr rw \<longrightarrow>
       registered P (se_server_key se) crnd username password sg')"
proof -
  let ?key = "se_server_key se" and ?k = "sr_oprf_key rnd"
  from assms(1) have prim: "sha512_ok P" "ec_keys_ok P" "hkdf_expand_ok P" "ecdsa_ok P" by (simp_all add: primitives_ok_def)
  from assms(6) have r: "length (sr_server_nonce rnd) = 32" "?k < 2 ^ 256" "length (rr_nonce rrnd) = 32"
    "length (rr_salt rrnd) = 16" "length (rr_env_nonce rrnd) = 12" "valid_priv P (rr_c_priv rrnd)"
    unfolding register_random_ok_def by blast+
  define cid where "cid = hash_bytes P [CONTEXT_STRING @ u]"
  have cid: "make_cred_id P username = Inr cid" "length cid = 64"
    using assms(8) by (simp_all add: make_cred_id_def cid_def length_hash_bytes [OF prim(1)])
  have M: "length M = 33" "rst = \<lparr>rs_blind = rr_blind rrnd, rs_password = pw\<rparr>"
    using assms(10) oprf_blind_length by (auto simp: registration_start_Inr)
  from client_hello_ok [of cid "rr_nonce rrnd" M 2] cid(2) r(3) M(1) obtain ch where
    ch: "encode_client_hello 2 cid (rr_nonce rrnd) M = Inr ch" "length ch < 2 ^ 32" "length ch \<le> MAX_FRAME" "ch \<noteq> []" "hd ch = 1"
    "decode_client_hello ch = Inr \<lparr>ch_version = 2, ch_credential_id = cid, ch_client_nonce = rr_nonce rrnd, ch_opaque_ke1 = M\<rparr>"
    by (auto simp: MAX_FRAME_def)
  obtain t1 where t1: "transcript_add (lit ''client_hello'') ch transcript_new = Inr t1"
    using transcript_add_label [of ch "''client_hello''"] ch(2) by auto
  let ?resp = "Z @ ec_public_bytes P ?key"
  have Z: "length ?resp < 65536" "drop POINT_LEN ?resp = ec_public_bytes P ?key"
    using scalar_mult_length [OF assms(11)] ec_keys_okD(2) [OF prim(2)] by simp_all
  from registration_stores [OF prim(2,3) assms(2,3) r(6,4,5) assms(7) r(2) assms(11,12), of cid ?key] M(2) obtain env os sg' where
    st: "registration_respond P ?k cid M (opaque_server_new ?key) = (Inr ?resp, os)"
    "registration_finish P rst (rr_c_priv rrnd) (rr_salt rrnd) (rr_env_nonce rrnd) ?resp = Inr (ec_public_bytes P (rr_c_priv rrnd) @ env)"
    "length env = 142" "registration_store cid (ec_public_bytes P (rr_c_priv rrnd) @ env) os sg = (Inr (), sg')"
    "stored_record P ?key ?k (rr_c_priv rrnd) rw cid sg'" by blast
  from server_hello_accepted [OF prim(4) assms(4) _ _ _ r(1) Z(1) t1] assms(5) obtain sh p where
    sh: "build_signed_server_hello P se rnd t1 ?resp = Inr sh" "decode_server_hello sh = Inr p" "sh_opaque_ke2 p = ?resp"
    "authenticate_server P now (Inr ca) ch p = Inr (se_server_cert se)" "length sh \<le> MAX_FRAME" "sh \<noteq> []" "hd sh = 2"
    unfolding clocks_ok_def by blast
  obtain t2 where t2: "transcript_add (lit ''server_hello'') sh t1 = Inr t2"
    using transcript_add_label [of sh "''server_hello''"] sh(5) by (auto simp: MAX_FRAME_def)
  obtain cf where cf: "encode_client_finish (ec_public_bytes P (rr_c_priv rrnd) @ env) = Inr cf"
    "length cf < 2 ^ 32" "length cf \<le> MAX_FRAME"
    "decode_client_finish cf = Inr \<lparr>cf_opaque_ke3 = ec_public_bytes P (rr_c_priv rrnd) @ env\<rparr>"
    using client_finish_ok [of "ec_public_bytes P (rr_c_priv rrnd) @ env"] st(3) ec_keys_okD(2) [OF prim(2)] by (auto simp: MAX_FRAME_def)
  have key: "crt_public_key (se_server_cert se) = EcKey (drop POINT_LEN (sh_opaque_ke2 p))"
    using assms(4) Z(2) sh(3) by (simp add: good_identity_def)
  have client: "\<exists>c'. register P rrnd now (Inr ca) username password c = (Inr (), c') \<and> cn_out c' = cn_out c @ [frame_of ch, frame_of cf]"
    if "delivers c [frame_of sh, frame_of [6]]" for c :: conn
    by (rule register_ok [OF cid(1) assms(9,8,10) ch(1,2) t1 _ _ _ sh(5-7,2) t2 sh(4) key _ cf(1,2)])
      (use that st(2) sh(3) in \<open>simp_all add: delivers_def\<close>)
  have server: "\<exists>w'. run P se rnd (session_new se d lim sg) = (Completed, w') \<and>
      cn_out (w_conn w') = cn_out d @ [frame_of sh, frame_of [6]] \<and> w_storage w' = sg'"
    if "delivers d [frame_of ch, frame_of cf]" for d :: conn and lim
    by (rule server_registers [OF ch(6) _ ch(4,5,3) t1 _ sh(1,5) cf(3,4)])
      (use st(1,4) that in \<open>simp_all add: delivers_def\<close>)
  show ?thesis
    by (rule exI [of _ "[frame_of ch, frame_of cf]"], rule exI [of _ "[frame_of sh, frame_of [6]]"], rule exI [of _ sg'])
      (use client server stored_registered [OF st(5) [unfolded cid_def] r(2) assms(8,9)] in blast)
qed

section \<open>A login on a fresh installation\<close>

lemma installed_run:
  assumes "primitives_ok P" and "generation_ok P prnd" and "pki_missing base fs" and "within_validity prnd (pr_now_check prnd)"
    and "length (crt_der (generated_ca P prnd)) \<le> 2 ^ 20" and "length (crt_der (generated_server P prnd)) \<le> 2 ^ 20"
    and "server_start P base prnd fs = (Inr identity, fs')" and "within_validity prnd (ct_now_chain now)"
    and "run_random_ok P rnd crnd" and "clocks_ok rnd now"
    and "registered P (fst identity) crnd user (chosen_password password prompted) sg"
    and "utf8_encode message = Inr msg" and "length msg \<le> MAX_FRAME - 34" and "make_login_credential_id P user = Inr cid"
    and "allow (sr_now_limiter rnd) ip cid (get_limiter lim) = (True, rl)"
  shows "\<exists>c_out s_out.
    (\<forall>c prnd'. delivers c s_out \<longrightarrow> (\<exists>c'. client_program P base prnd' crnd now user password prompted message (fs', c) =
       (Inr (Some (lit ''echo:'' @ message)), (fs', c')) \<and> cn_out c' = cn_out c @ c_out)) \<and>
    (\<forall>d. delivers d c_out \<longrightarrow> (\<exists>w'. run P (accepted_session identity ip) rnd
       (session_new (accepted_session identity ip) d lim sg) = (Completed, w') \<and> cn_out (w_conn w') = cn_out d @ s_out))"
proof -
  let ?ca = "generated_ca P prnd"
  have i: "identity = (pr_srv_key prnd, generated_server P prnd, ?ca)" "fs' = pki_saved P base prnd fs"
    using server_start_fresh [OF assms(2-4)] assms(7) by simp_all
  have se: "se_server_key (accepted_session identity ip) = fst identity" "se_ip (accepted_session identity ip) = ip"
    by (simp_all add: accepted_session_def i(1))
  have id: "good_identity P (accepted_session identity ip) ?ca (ct_now_chain now)"
    unfolding i(1) by (rule installed_identity [OF assms(2,8,5,6)])
  have "\<not> pki_missing base fs'" "load_certificate P (CA_CERT_PATH base) fs' = Inr ?ca"
    by (simp_all add: i(2) pki_saved_load [OF assms(2)])
  note cp = client_program_bootstrapped [OF this]
  from login_run [OF assms(1) id assms(9,10) _ assms(12-14), unfolded se, OF assms(11,15)] show ?thesis
    unfolding cp by (elim exE conjE) (rule exI, rule exI, rule conjI, fastforce, fastforce)
qed

end
