(* ===== verification/Sample_Run.thy ===== *)
theory Sample_Run
  imports Prelude Utf8 Codec Framing Connection Primitives Sample_Primitives Kdf Record_Layer Ratelimit
    Server_Config Storage Pki Opaque_Core Opaque Server Client Echo_Loop Handshake Registration
begin

text \<open>
  One concrete run on the sample primitives, for the witnesses: the user \<open>a\<close> with the password \<open>pw\<close>,
  the server with the sample certificates, all OPRF blinds and keys equal to 1.
\<close>

definition sample_session :: server_session where
  "sample_session = \<lparr>se_ip = [49], se_server_key = 5, se_server_cert = sample_server, se_ca_cert = sample_ca\<rparr>"

definition sample_session_random :: session_random where
  "sample_session_random = \<lparr>sr_now_limiter = 0, sr_now_config = 1000, sr_server_nonce = replicate 32 1,
     sr_sig_config = [], sr_sig_verify = [], sr_oprf_key = 1, sr_login = sample_random 1\<rparr>"

definition sample_client_random :: client_random where
  "sample_client_random = \<lparr>cr_blind = 1, cr_eph_priv = 3, cr_nonce = replicate 32 9\<rparr>"

definition sample_register_random :: register_random where
  "sample_register_random = \<lparr>rr_blind = 1, rr_nonce = replicate 32 8, rr_c_priv = 7, rr_salt = replicate 16 1,
     rr_env_nonce = replicate 12 2\<rparr>"

definition sample_times :: check_times where
  "sample_times = \<lparr>ct_now_chain = 1000, ct_now_config = 1001\<rparr>"

lemma sample_primitives_ok: "primitives_ok sample"
  by (simp add: primitives_ok_def)

lemma sample_identity: "good_identity sample sample_session sample_ca (ct_now_chain sample_times)"
proof -
  have d: "crt_der sample_ca = [1]" "crt_der sample_server = [2]" by (simp_all add: sample_ca_def sample_server_def)
  have "good_server_cert sample sample_ca (lit ''localhost'') 1000 sample_server"
    by (simp add: good_server_cert_def cert_signed_def cert_names_def sample_ca_def sample_server_def)
  moreover have "crt_public_key sample_server = EcKey (sample_public 5)" by (simp add: sample_server_def)
  ultimately show ?thesis by (simp add: good_identity_def sample_session_def sample_times_def d)
qed

lemma sample_clocks: "clocks_ok sample_session_random sample_times"
  by (simp add: clocks_ok_def sample_session_random_def sample_times_def)

lemma sample_run_random: "run_random_ok sample sample_session_random sample_client_random"
  by (simp add: run_random_ok_def sample_session_random_def sample_client_random_def sample_valid_priv)

lemma sample_register_random_ok: "register_random_ok sample sample_session_random sample_register_random"
  by (simp add: register_random_ok_def sample_session_random_def sample_register_random_def sample_valid_priv)

lemma sample_names: "utf8_encode [97] = Inr [97]" "utf8_encode [112, 119] = Inr [112, 119]" "utf8_encode [104, 105] = Inr [104, 105]"
  by (simp_all add: utf8_char_def)

lemma sample_users_ready: "users_ready sample_storage"
  by (simp add: users_ready_def sample_storage_def)

lemma sample_registration_start:
  "registration_start sample (rr_blind sample_register_random) [112, 119] =
     Inr (sample_point, \<lparr>rs_blind = 1, rs_password = [112, 119]\<rparr>)"
  unfolding registration_start_Inr by (simp add: sample_register_random_def sample_blind del: One_nat_def)

lemma sample_client_start:
  "\<exists>lst. client_login_start sample (cr_blind sample_client_random) (cr_eph_priv sample_client_random)
     (cr_nonce sample_client_random) [112, 119] = Inr (sample_ke1, lst) \<and> ls_M lst = sample_point"
  using sample_login_start by (simp add: sample_client_random_def)

lemma sample_registered: "\<exists>sg. registered sample 5 sample_client_random [97] [112, 119] sg"
proof -
  obtain rw where rw: "oprf_finalize sample [112, 119] 1 sample_point = Inr rw" using sample_finalize by blast
  obtain lst where lst: "client_login_start sample (cr_blind sample_client_random) (cr_eph_priv sample_client_random)
     (cr_nonce sample_client_random) [112, 119] = Inr (sample_ke1, lst)" "ls_M lst = sample_point"
    using sample_client_start by blast
  obtain sg where sg: "stored_record sample 5 1 7 rw (hash_bytes sample [CONTEXT_STRING @ [97]]) sg"
    using registration_stores [OF _ _ _ _ sample_valid_priv [of 7] _ _ sample_users_ready _ sample_point_mult rw,
      of "replicate 16 1" "replicate 12 2" "hash_bytes sample [CONTEXT_STRING @ [97]]" 5]
    by auto
  have m: "p256_scalar_mult 1 (ls_M lst) = Inr sample_point" by (simp add: lst(2) sample_point_mult del: One_nat_def)
  have f: "oprf_finalize sample [112, 119] (cr_blind sample_client_random) sample_point = Inr rw"
    using rw by (simp add: sample_client_random_def)
  from stored_registered [OF sg _ sample_names(1,2) lst(1) m f] show ?thesis by auto
qed

lemma sample_allow:
  "\<exists>rl. allow (sr_now_limiter sample_session_random) (se_ip sample_session) cid (get_limiter None) = (True, rl)"
  by (simp add: allow_def Let_def get_limiter_def limiter_new_def timestamps_def)

text \<open>A connection that delivers the frames another side has sent, one segment each.\<close>

definition segments :: "bytes list \<Rightarrow> sock_in" where
  "segments fs = map Data (filter (\<lambda>f. f \<noteq> []) fs)"

lemma segments_live [simp]: "live (segments fs)" "stream (segments fs) = concat fs"
  by (induction fs) (simp_all add: segments_def)

definition fed :: "bytes list \<Rightarrow> conn" where
  "fed fs = \<lparr>cn_in = segments fs, cn_out = [], cn_faults = []\<rparr>"

lemma fed_simps [simp]:
  "cn_faults (fed fs) = []" "live (cn_in (fed fs))" "stream (cn_in (fed fs)) = concat fs" "cn_out (fed fs) = []"
  by (simp_all add: fed_def)

lemma fed_delivers [simp]: "delivers (fed fs) fs"
  by (simp add: delivers_def)

end
