(* ===== verification/Session_Machine.thy ===== *)
theory Session_Machine
  imports Prelude Codec Framing Connection Primitives Sample_Primitives Kdf Record_Layer Ratelimit
    Server_Config Storage Pki Opaque Server Echo_Loop
begin

text \<open>
  A server session seen from outside: the abstract machine of the frames it may send, and the proof
  that \<open>run\<close> sends only what the machine allows, whatever the peer sends and whichever socket
  operations fail.
\<close>

section \<open>The machine\<close>

text \<open>The phases of a session, in the order in which it can pass through them.\<close>

datatype phase = Fresh | Awaiting_record | Awaiting_finish | Serving | Ended

fun phase_rank :: "phase \<Rightarrow> nat" where
  "phase_rank Fresh = 0"
| "phase_rank Awaiting_record = 1"
| "phase_rank Awaiting_finish = 2"
| "phase_rank Serving = 3"
| "phase_rank Ended = 4"

lemma phase_rank_inject: "phase_rank p = phase_rank q \<longleftrightarrow> p = q"
  by (cases p; cases q) simp_all

instantiation phase :: linorder
begin

definition less_eq_phase :: "phase \<Rightarrow> phase \<Rightarrow> bool" where
  "less_eq_phase p q \<longleftrightarrow> phase_rank p \<le> phase_rank q"

definition less_phase :: "phase \<Rightarrow> phase \<Rightarrow> bool" where
  "less_phase p q \<longleftrightarrow> phase_rank p < phase_rank q"

instance
  by standard (auto simp: less_eq_phase_def less_phase_def phase_rank_inject)

end

text \<open>\<open>session_step p t q\<close>: in phase \<open>p\<close> the session sends a message with tag \<open>t\<close> and is then in \<open>q\<close>.\<close>

inductive session_step :: "phase \<Rightarrow> int \<Rightarrow> phase \<Rightarrow> bool" where
  Answer_registration: "session_step Fresh TAG_SERVER_HELLO Awaiting_record"
| Answer_login: "session_step Fresh TAG_SERVER_HELLO Awaiting_finish"
| Refuse: "session_step Fresh TAG_ALERT Ended"
| Confirm: "session_step Awaiting_record TAG_CLOSE Ended"
| Reject: "session_step Awaiting_finish TAG_ALERT Ended"
| First_echo: "session_step Awaiting_finish TAG_APP_DATA Serving"
| Echo: "session_step Serving TAG_APP_DATA Serving"
| Bad_record: "session_step Serving TAG_ALERT Ended"

inductive_cases EndedE [elim!]: "session_step Ended t q"
inductive_cases FreshE: "session_step Fresh t q"

inductive_simps session_step_simps:
  "session_step Fresh t q" "session_step Awaiting_record t q" "session_step Awaiting_finish t q"
  "session_step Serving t q" "session_step Ended t q"

inductive session_trace :: "phase \<Rightarrow> int list \<Rightarrow> phase \<Rightarrow> bool" where
  Nil: "session_trace p [] p"
| Cons: "session_step p t q \<Longrightarrow> session_trace q ts r \<Longrightarrow> session_trace p (t # ts) r"

declare session_trace.intros [intro]

inductive_simps session_trace_simps [simp]:
  "session_trace p [] q" "session_trace p (t # ts) q"

lemma session_step_progress: "session_step p t q \<Longrightarrow> p \<le> q"
  by (induction rule: session_step.induct) (simp_all add: less_eq_phase_def)

lemma session_trace_progress: "session_trace p ts q \<Longrightarrow> p \<le> q"
  by (induction rule: session_trace.induct) (auto dest: session_step_progress)

lemma final_step: "session_step p t q \<Longrightarrow> q = Ended \<longleftrightarrow> t = TAG_ALERT \<or> t = TAG_CLOSE"
  by (induction rule: session_step.induct) simp_all

lemma session_trace_Ended: "session_trace Ended ts q \<Longrightarrow> ts = []"
  by (cases ts) auto

text \<open>An alert or a Close is the last message, and every message but the first ServerHello follows it.\<close>

lemma trace_final:
  "session_trace p (xs @ t # ys) q \<Longrightarrow> t = TAG_ALERT \<or> t = TAG_CLOSE \<Longrightarrow> ys = []"
proof (induction xs arbitrary: p)
  case Nil
  then show ?case using final_step session_trace_Ended by fastforce
next
  case (Cons x xs)
  then show ?case by auto
qed

lemma trace_hello_once:
  "session_trace p ts q \<Longrightarrow> p \<noteq> Fresh \<Longrightarrow> TAG_SERVER_HELLO \<notin> set ts"
  by (induction rule: session_trace.induct) (auto elim: session_step.cases)

lemma trace_hello_first:
  "session_trace Fresh (t # ts) q \<Longrightarrow> (t = TAG_SERVER_HELLO \<or> t = TAG_ALERT) \<and> TAG_SERVER_HELLO \<notin> set ts"
proof -
  assume "session_trace Fresh (t # ts) q"
  then obtain r where r: "session_step Fresh t r" "session_trace r ts q" by auto
  from r(1) have "(t = TAG_SERVER_HELLO \<or> t = TAG_ALERT) \<and> r \<noteq> Fresh" by (elim FreshE) simp_all
  with trace_hello_once [OF r(2)] show ?thesis by blast
qed

lemma echo_trace: "session_trace Serving (replicate n TAG_APP_DATA) Serving"
  "session_trace Serving (replicate n TAG_APP_DATA @ [TAG_ALERT]) Ended"
  by (induction n) (auto simp: session_step_simps)

lemma login_traces:
  "\<exists>q. session_trace Awaiting_finish (replicate n TAG_APP_DATA) q"
  "\<exists>q. session_trace Awaiting_finish (replicate n TAG_APP_DATA @ [TAG_ALERT]) q"
  using echo_trace by (cases n; auto simp: session_step_simps)+

section \<open>What an operation sends\<close>

text \<open>\<open>emits w w' ts\<close>: between the two states, messages with the tags \<open>ts\<close> were handed to \<open>sendall\<close>.\<close>

definition emits :: "world \<Rightarrow> world \<Rightarrow> int list \<Rightarrow> bool" where
  "emits w w' ts \<longleftrightarrow> (\<exists>ms. cn_out (w_conn w') = cn_out (w_conn w) @ map frame_of ms \<and> [] \<notin> set ms \<and>
     map (\<lambda>m. uint (hd m)) ms = ts)"

text \<open>
  \<open>sends m A B\<close>: when \<open>m\<close> succeeds with a result \<open>x\<close>, it has sent one of the tag sequences \<open>A x\<close>;
  when it fails, one of \<open>B\<close>.
\<close>

definition sends :: "(world, 'a) st_res \<Rightarrow> ('a \<Rightarrow> int list set) \<Rightarrow> int list set \<Rightarrow> bool" where
  "sends m A B \<longleftrightarrow> (\<forall>w r w'. m w = (r, w') \<longrightarrow> (\<exists>ts \<in> (case r of Inr x \<Rightarrow> A x | Inl _ \<Rightarrow> B). emits w w' ts))"

lemma emits_refl: "cn_out (w_conn w') = cn_out (w_conn w) \<Longrightarrow> emits w w' []"
  by (simp add: emits_def)

lemma emits_append:
  assumes "emits w w1 ts" and "emits w1 w2 us"
  shows "emits w w2 (ts @ us)"
proof -
  from assms obtain ms ns where "cn_out (w_conn w1) = cn_out (w_conn w) @ map frame_of ms" "[] \<notin> set ms"
    "map (\<lambda>m. uint (hd m)) ms = ts" "cn_out (w_conn w2) = cn_out (w_conn w1) @ map frame_of ns" "[] \<notin> set ns"
    "map (\<lambda>m. uint (hd m)) ns = us" unfolding emits_def by blast
  then show ?thesis unfolding emits_def by (intro exI [of _ "ms @ ns"]) auto
qed

lemma sends_mono:
  assumes "sends m A B" and "\<And>x. A x \<subseteq> C x" and "B \<subseteq> D"
  shows "sends m C D"
  unfolding sends_def
proof (intro allI impI)
  fix w r w' assume "m w = (r, w')"
  with assms(1) obtain ts where "ts \<in> (case r of Inr x \<Rightarrow> A x | Inl _ \<Rightarrow> B)" "emits w w' ts"
    unfolding sends_def by blast
  with assms(2,3) show "\<exists>ts \<in> (case r of Inr x \<Rightarrow> C x | Inl _ \<Rightarrow> D). emits w w' ts" by (cases r) auto
qed

lemma sends_bind:
  assumes "sends m (\<lambda>_. {a}) B" and "\<And>x. sends (f x) C D"
  shows "sends (bindS m f) (\<lambda>y. (@) a ` C y) (B \<union> (@) a ` D)"
  unfolding sends_def
proof (intro allI impI)
  fix w r w' assume b: "bindS m f w = (r, w')"
  obtain x w1 where x: "m w = (x, w1)" by fastforce
  show "\<exists>ts \<in> (case r of Inr y \<Rightarrow> (@) a ` C y | Inl _ \<Rightarrow> B \<union> (@) a ` D). emits w w' ts"
  proof (cases x)
    case (Inl e)
    with b x have "r = Inl e" "w' = w1" by (simp_all add: bindS_def)
    with assms(1) x Inl show ?thesis unfolding sends_def by fastforce
  next
    case (Inr y)
    with b x have f: "f y w1 = (r, w')" by (simp add: bindS_def)
    from assms(1) x Inr have a: "emits w w1 a" unfolding sends_def by fastforce
    from assms(2) [of y] f obtain ts where "ts \<in> (case r of Inr y \<Rightarrow> C y | Inl _ \<Rightarrow> D)" "emits w1 w' ts"
      unfolding sends_def by blast
    with emits_append [OF a] show ?thesis by (cases r) auto
  qed
qed

text \<open>The operations that send nothing.\<close>

definition quiet :: "(world, 'a) st_res \<Rightarrow> bool" where
  "quiet m \<longleftrightarrow> (\<forall>w r w'. m w = (r, w') \<longrightarrow> cn_out (w_conn w') = cn_out (w_conn w))"

lemma quiet_ops:
  "quiet (liftS x)" "quiet (retS y)" "quiet (on_conn conn_recv)" "quiet (on_opaque f)" "quiet (on_storage g)"
  "quiet (limiter_allow now ip cid)" "quiet (limiter_reset ip cid)"
  by (auto simp: quiet_def liftS_eq retS_eq on_conn_eq on_opaque_eq on_storage_eq limiter_allow_def limiter_reset_def
      conn_recv_def split: prod.splits sum.splits)

lemma sends_quiet: "quiet m \<Longrightarrow> sends m (\<lambda>_. {[]}) {[]}"
  by (auto simp: quiet_def sends_def intro: emits_refl split: sum.splits)

lemma sends_quiet_bind:
  "quiet m \<Longrightarrow> (\<And>x. sends (f x) C D) \<Longrightarrow> sends (bindS m f) C (insert [] D)"
  using sends_bind [OF sends_quiet, of m f C D] by simp

lemma sends_lift_bind:
  assumes "\<And>x. r = Inr x \<Longrightarrow> sends (f x) C D"
  shows "sends (bindS (liftS r) f) C (insert [] D)"
proof (cases r)
  case (Inl e)
  then show ?thesis by (auto simp: sends_def bindS_def liftS_def intro: emits_refl)
next
  case (Inr x)
  have "bindS (liftS r) f = f x" using Inr by (auto simp: bindS_def liftS_def)
  with assms [OF Inr] show ?thesis using sends_mono by (metis subset_insertI order_refl)
qed

lemma sends_message:
  assumes "m \<noteq> []" and "uint (hd m) = t"
  shows "sends (on_conn (conn_send m)) (\<lambda>_. {[t]}) {[]}"
  unfolding sends_def
proof (intro allI impI)
  fix w r w' assume "on_conn (conn_send m) w = (r, w')"
  then obtain c where c: "conn_send m (w_conn w) = (r, c)" "w' = w\<lparr>w_conn := c\<rparr>" unfolding on_conn_eq by blast
  show "\<exists>ts \<in> (case r of Inr _ \<Rightarrow> {[t]} | Inl _ \<Rightarrow> {[]}). emits w w' ts"
  proof (cases r)
    case (Inl e)
    with c conn_send_Inl [of m "w_conn w" e c] show ?thesis by (auto intro: emits_refl)
  next
    case (Inr u)
    with c conn_send_Inr [of m "w_conn w" u c] assms have "emits w w' [t]"
      unfolding emits_def by (intro exI [of _ "[m]"]) simp
    with Inr show ?thesis by simp
  qed
qed

lemma sends_message_bind:
  assumes "m \<noteq> []" and "uint (hd m) = t" and "\<And>x. sends (f x) C D"
  shows "sends (bindS (on_conn (conn_send m)) f) (\<lambda>y. (#) t ` C y) (insert [] ((#) t ` D))"
  using sends_bind [OF sends_message [OF assms(1,2)] assms(3)] by simp

lemma sends_alert: "sends (send_alert msg) (\<lambda>_. {[], [TAG_ALERT]}) {}"
  unfolding sends_def
proof (intro allI impI)
  fix w r w' assume a: "send_alert msg w = (r, w')"
  then have r: "r = Inr ()" and w': "w' = snd (send_alert msg w)"
    by (auto simp: send_alert_def split: prod.splits)
  from send_alert_out [of msg w] obtain fs where
    fs: "cn_out (w_conn w') = cn_out (w_conn w) @ fs" "alert_or_nothing fs" unfolding w' by blast
  then have "emits w w' [] \<or> emits w w' [TAG_ALERT]"
    unfolding alert_or_nothing_def emits_def by (auto intro: exI [of _ "[]"] exI [of _ "[m]" for m])
  with r show "\<exists>ts \<in> (case r of Inr _ \<Rightarrow> {[], [TAG_ALERT]} | Inl _ \<Rightarrow> {}). emits w w' ts" by auto
qed

lemma sends_try:
  assumes "quiet m" and "\<And>e. sends (h e) A B" and "\<And>x. sends (f x) C D"
  shows "sends (tryS m K h f) (\<lambda>y. A y \<union> C y) ({[]} \<union> B \<union> D)"
  unfolding sends_def
proof (intro allI impI)
  fix w r w' assume t: "tryS m K h f w = (r, w')"
  obtain x w1 where x: "m w = (x, w1)" by fastforce
  with assms(1) have q: "cn_out (w_conn w1) = cn_out (w_conn w)" unfolding quiet_def by blast
  then have e: "emits w1 v ts \<Longrightarrow> emits w v ts" for v ts by (simp add: emits_def)
  consider e where "x = Inl e" "\<not> K e" "r = Inl e" "w' = w1" | e where "x = Inl e" "K e" "h e w1 = (r, w')"
    | y where "x = Inr y" "f y w1 = (r, w')"
    using t x by (cases x) (auto simp: tryS_def split: if_splits)
  then show "\<exists>ts \<in> (case r of Inr y \<Rightarrow> A y \<union> C y | Inl _ \<Rightarrow> {[]} \<union> B \<union> D). emits w w' ts"
  proof cases
    case 1
    with q show ?thesis by (auto intro: emits_refl)
  next
    case 2
    with assms(2) [of e] e show ?thesis unfolding sends_def by (cases r) fastforce+
  next
    case 3
    with assms(3) [of y] e show ?thesis unfolding sends_def by (cases r) fastforce+
  qed
qed

section \<open>The handlers\<close>

lemma server_hello_head: "build_signed_server_hello P se rnd t ke2 = Inr sh \<Longrightarrow> sh \<noteq> [] \<and> uint (hd sh) = TAG_SERVER_HELLO"
  by (auto simp: build_signed_server_hello_def bindE_eq_Inr Let_def encode_server_hello_def byte_of_int_Inr)

lemma handle_registration_sends:
  "sends (handle_registration P se rnd ch raw) (\<lambda>_. {[TAG_SERVER_HELLO, TAG_CLOSE]}) {[], [TAG_SERVER_HELLO]}"
proof -
  have close: "sends (bindS (liftS encode_close) (\<lambda>close. on_conn (conn_send close))) (\<lambda>_. {[TAG_CLOSE]}) {[]}"
    by (rule sends_mono [OF sends_lift_bind [where C = "\<lambda>_. {[TAG_CLOSE]}" and D = "{[]}"]]) (auto intro!: sends_message)
  have rest: "sends (bindS (on_conn conn_recv) (\<lambda>cf_raw. bindS (liftS (decode_client_finish cf_raw)) (\<lambda>cf.
      bindS (on_storage (registration_store (ch_credential_id ch) (cf_opaque_ke3 cf))) (\<lambda>_.
      bindS (liftS encode_close) (\<lambda>close. on_conn (conn_send close)))))) (\<lambda>_. {[TAG_CLOSE]}) {[]}"
    by (rule sends_mono [OF sends_quiet_bind [OF quiet_ops(3) sends_quiet_bind [OF quiet_ops(1)
            sends_quiet_bind [OF quiet_ops(5) close]]]]) auto
  show ?thesis
    unfolding handle_registration_def
    by (rule sends_mono [OF sends_quiet_bind [OF quiet_ops(1) sends_quiet_bind [OF quiet_ops(4)
            sends_lift_bind [OF sends_message_bind [OF _ _ rest, where t = TAG_SERVER_HELLO]]]]])
      (auto dest: server_hello_head)
qed

lemma echo_loop_sends:
  "sends (app_loop P s r) (\<lambda>_. {ts. \<exists>n. ts = replicate n TAG_APP_DATA \<or> ts = replicate n TAG_APP_DATA @ [TAG_ALERT]})
     {ts. \<exists>n. ts = replicate n TAG_APP_DATA \<or> ts = replicate n TAG_APP_DATA @ [TAG_ALERT]}"
  unfolding sends_def
proof (intro allI impI)
  fix w res w' assume a: "app_loop P s r w = (res, w')"
  from app_loop_outputs [of P r s w] a obtain rs fs where
    o1: "cn_out (w_conn w') = cn_out (w_conn w) @ map record_frame rs @ fs" "alert_or_nothing fs" by auto
  let ?ms = "map app_message rs"
  have m: "[] \<notin> set ?ms" "map (\<lambda>m. uint (hd m)) ?ms = replicate (length rs) TAG_APP_DATA"
    by (auto simp: app_message_def map_replicate_const [symmetric] split: prod.splits)
  have f: "map record_frame rs = map frame_of ?ms" by (simp add: record_frame_def)
  from o1(2) have "emits w w' (replicate (length rs) TAG_APP_DATA) \<or> emits w w' (replicate (length rs) TAG_APP_DATA @ [TAG_ALERT])"
    unfolding alert_or_nothing_def
  proof
    assume "fs = []"
    with o1(1) f m have "emits w w' (replicate (length rs) TAG_APP_DATA)"
      unfolding emits_def by (intro exI [of _ ?ms]) simp
    then show ?thesis ..
  next
    assume "\<exists>m. fs = [frame_of m] \<and> m \<noteq> [] \<and> hd m = 5"
    then obtain al where "fs = [frame_of al]" "al \<noteq> []" "hd al = 5" by blast
    with o1(1) f m have "emits w w' (replicate (length rs) TAG_APP_DATA @ [TAG_ALERT])"
      unfolding emits_def by (intro exI [of _ "?ms @ [al]"]) simp
    then show ?thesis ..
  qed
  then show "\<exists>ts \<in> (case res of
      Inr _ \<Rightarrow> {ts. \<exists>n. ts = replicate n TAG_APP_DATA \<or> ts = replicate n TAG_APP_DATA @ [TAG_ALERT]}
    | Inl _ \<Rightarrow> {ts. \<exists>n. ts = replicate n TAG_APP_DATA \<or> ts = replicate n TAG_APP_DATA @ [TAG_ALERT]}). emits w w' ts"
    by (cases res) auto
qed

text \<open>What a handshake has sent: a ServerHello when it succeeds, else at most that and an alert.\<close>

definition handshake_tags :: "'a option \<Rightarrow> int list set" where
  "handshake_tags r = (case r of Some _ \<Rightarrow> {[TAG_SERVER_HELLO]}
     | None \<Rightarrow> {[], [TAG_ALERT], [TAG_SERVER_HELLO], [TAG_SERVER_HELLO, TAG_ALERT]})"

lemma alert_none:
  fixes A :: "'a option \<Rightarrow> int list set"
  assumes "A None = {[], [TAG_ALERT]}"
  shows "sends (bindS (send_alert msg) (\<lambda>_. retS None)) A {}"
  unfolding sends_def
proof (intro allI impI)
  fix w and r :: "'a option res" and w'
  assume b: "bindS (send_alert msg) (\<lambda>_. retS None) w = (r, w')"
  obtain x w1 where x: "send_alert msg w = (x, w1)" by fastforce
  then have u: "x = Inr ()" by (auto simp: send_alert_def split: prod.splits)
  with b x have r: "r = Inr None" "w' = w1" by (simp_all add: bindS_def retS_def)
  from sends_alert [of msg] x u have "\<exists>ts \<in> {[], [TAG_ALERT]}. emits w w1 ts"
    unfolding sends_def by fastforce
  with assms show "\<exists>ts \<in> (case r of Inr r \<Rightarrow> A r | Inl _ \<Rightarrow> {}). emits w w' ts"
    unfolding r by simp
qed

text \<open>The part of the handshake after ServerHello.\<close>

lemma finish_sends:
  "sends (login_complete P ss t) (\<lambda>r. case r of Some _ \<Rightarrow> {[]} | None \<Rightarrow> {[], [TAG_ALERT]}) {[]}"
proof -
  let ?K = "\<lambda>r :: (direction_state \<times> direction_state) option. if r = None then {} else {[]}"
  have ok: "sends (retS (Some x)) ?K {}" for x :: "direction_state \<times> direction_state"
    by (auto simp: sends_def retS_eq intro: emits_refl)
  have keys: "sends (bindS (liftS a) (\<lambda>secrets. bindS (liftS (direction_new P (ts_server_app secrets))) (\<lambda>send_enc.
      bindS (liftS (direction_new P (ts_client_app secrets))) (\<lambda>recv_enc. retS (Some (send_enc, recv_enc))))))
      ?K {[]}" for a
    by (rule sends_mono [OF sends_quiet_bind [OF quiet_ops(1) sends_quiet_bind [OF quiet_ops(1)
          sends_quiet_bind [OF quiet_ops(1) ok]]]]) auto
  have split_keys: "sends (case x of (session_key, export_key) \<Rightarrow>
      bindS (liftS (a session_key)) (\<lambda>secrets. bindS (liftS (direction_new P (ts_server_app secrets))) (\<lambda>send_enc.
      bindS (liftS (direction_new P (ts_client_app secrets))) (\<lambda>recv_enc. retS (Some (send_enc, recv_enc)))))) ?K {[]}"
    for x :: "bytes \<times> bytes" and a
    by (cases x) (simp add: keys)
  let ?N = "\<lambda>r :: (direction_state \<times> direction_state) option. if r = None then {[], [TAG_ALERT]} else {}"
  have alert: "sends (bindS (send_alert m) (\<lambda>_. retS None)) ?N {}" for m
    by (rule alert_none) simp
  show ?thesis
    unfolding login_complete_def
    by (rule sends_mono [OF sends_quiet_bind [OF quiet_ops(3) sends_quiet_bind [OF quiet_ops(1) sends_quiet_bind [OF quiet_ops(1)
            sends_try [OF quiet_ops(1) alert split_keys]]]]])
      (auto split: option.splits if_splits)
qed

text \<open>The same rules in the form in which they are applied backwards, with the sets fixed.\<close>

lemma sends_quiet_bindI:
  "quiet m \<Longrightarrow> [] \<in> B \<Longrightarrow> (\<And>x. sends (f x) A B) \<Longrightarrow> sends (bindS m f) A B"
  by (rule sends_mono [OF sends_quiet_bind]) auto

lemma sends_lift_bindI:
  "[] \<in> B \<Longrightarrow> (\<And>x. r = Inr x \<Longrightarrow> sends (f x) A B) \<Longrightarrow> sends (bindS (liftS r) f) A B"
  by (rule sends_mono [OF sends_lift_bind [where C = A and D = B]]) auto

lemma sends_tryI:
  "quiet m \<Longrightarrow> [] \<in> B \<Longrightarrow> (\<And>e. sends (h e) A B) \<Longrightarrow> (\<And>x. sends (f x) A B) \<Longrightarrow> sends (tryS m K h f) A B"
  by (rule sends_mono [OF sends_try [where A = A and B = B and C = A and D = B]]) auto

lemma sends_ifI: "(b \<Longrightarrow> sends m A B) \<Longrightarrow> (\<not> b \<Longrightarrow> sends n A B) \<Longrightarrow> sends (if b then m else n) A B"
  by simp

lemmas sendsI = sends_lift_bindI sends_quiet_bindI sends_tryI sends_ifI quiet_ops(3-)

lemma short_traces:
  "\<exists>q. session_trace Fresh [] q" "\<exists>q. session_trace Fresh [TAG_ALERT] q"
  "\<exists>q. session_trace Fresh [TAG_SERVER_HELLO] q"
  "\<exists>q. session_trace Fresh [TAG_SERVER_HELLO, TAG_ALERT] q"
  "\<exists>q. session_trace Fresh [TAG_SERVER_HELLO, TAG_CLOSE] q"
  by (blast intro: session_step.intros)+

lemma alert_handshake: "sends (bindS (send_alert m) (\<lambda>_. retS None)) handshake_tags {[], [TAG_SERVER_HELLO]}"
  by (rule sends_mono [OF alert_none [where A = "\<lambda>r. if r = None then {[], [TAG_ALERT]} else {}"]])
    (auto simp: handshake_tags_def)

lemma login_exchange_sends:
  "sends (login_exchange P se rnd ch raw) handshake_tags {[], [TAG_SERVER_HELLO]}"
proof -
  have answer: "sends (bindS (liftS (build_signed_server_hello P se rnd t ke2)) (\<lambda>server_hello.
      bindS (liftS (transcript_add l server_hello t)) (\<lambda>transcript.
      bindS (on_conn (conn_send server_hello)) (\<lambda>_. login_complete P ss transcript))))
      handshake_tags {[], [TAG_SERVER_HELLO]}" for t l ss ke2
    by (rule sends_lift_bindI, simp, rule sends_lift_bindI, simp, rule sends_mono,
        rule sends_message_bind [where t = TAG_SERVER_HELLO], drule server_hello_head, simp,
        drule server_hello_head, simp, rule finish_sends)
      (simp_all add: handshake_tags_def split: option.split)
  show ?thesis
    unfolding login_exchange_def
    by (rule sends_lift_bindI, simp, rule sends_tryI [OF quiet_ops(5)], simp, rule alert_handshake)
      (simp only: split_paired_all prod.case, rule answer)
qed

lemma login_handshake_sends:
  "sends (login_handshake P se rnd ch raw) handshake_tags {[], [TAG_SERVER_HELLO]}"
  unfolding login_handshake_def
  by (rule sends_quiet_bindI [OF quiet_ops(6)], simp, rule sends_ifI, rule alert_handshake, rule login_exchange_sends)

lemma sends_constD: "sends m (\<lambda>_. G) G \<Longrightarrow> m w = (r, w') \<Longrightarrow> \<exists>ts \<in> G. emits w w' ts"
  unfolding sends_def by (cases r) fastforce+

lemma handle_login_sends:
  "sends (handle_login P se rnd ch raw)
     (\<lambda>_. {ts. \<exists>q. session_trace Fresh ts q}) {ts. \<exists>q. session_trace Fresh ts q}"
  unfolding sends_def
proof (intro allI impI)
  let ?G = "{ts. \<exists>q. session_trace Fresh ts q}"
  fix w r w' assume a: "handle_login P se rnd ch raw w = (r, w')"
  obtain x w1 where x: "login_handshake P se rnd ch raw w = (x, w1)" by fastforce
  have start: "ts \<in> ?G" if "ts \<in> {[], [TAG_ALERT], [TAG_SERVER_HELLO], [TAG_SERVER_HELLO, TAG_ALERT]}" for ts
    using that short_traces by blast
  from login_handshake_sends [of P se rnd ch raw] x
  obtain ts where ts: "ts \<in> (case x of Inr r \<Rightarrow> handshake_tags r | Inl _ \<Rightarrow> {[], [TAG_SERVER_HELLO]})" "emits w w1 ts"
    unfolding sends_def by blast
  consider e where "x = Inl e" "w' = w1" | "x = Inr None" "w' = w1"
    | s k where "x = Inr (Some (s, k))"
    using a x by (cases x) (auto simp: handle_login_def bindS_def retS_def split: option.splits)
  then have "\<exists>ts \<in> ?G. emits w w' ts"
  proof cases
    case 1
    with ts start [of ts] show ?thesis by auto
  next
    case 2
    with ts start [of ts] show ?thesis by (auto simp: handshake_tags_def)
  next
    case (3 s k)
    with a x obtain w2 where w2: "limiter_reset (se_ip se) (ch_credential_id ch) w1 = (Inr (), w2)"
      "app_loop P s k w2 = (r, w')"
      by (auto simp: handle_login_def bindS_def limiter_reset_def)
    from w2(1) have "w_conn w2 = w_conn w1" by (auto simp: limiter_reset_def)
    moreover from sends_constD [OF echo_loop_sends w2(2)] obtain us n where
      us: "us = replicate n TAG_APP_DATA \<or> us = replicate n TAG_APP_DATA @ [TAG_ALERT]" "emits w2 w' us"
      by blast
    ultimately have e: "emits w w' (TAG_SERVER_HELLO # us)"
      using ts 3 emits_append [of w w1 "[TAG_SERVER_HELLO]" w' us] by (simp add: handshake_tags_def emits_def)
    from us(1) login_traces [of n] have "\<exists>q. session_trace Awaiting_finish us q" by blast
    then have "TAG_SERVER_HELLO # us \<in> ?G"
      using session_trace.Cons [OF Answer_login] by blast
    with e show ?thesis by blast
  qed
  then show "\<exists>ts \<in> (case r of Inr _ \<Rightarrow> ?G | Inl _ \<Rightarrow> ?G). emits w w' ts" by (cases r) simp_all
qed

lemma session_body_sends:
  "sends (session_body P se rnd) (\<lambda>_. {ts. \<exists>q. session_trace Fresh ts q}) {ts. \<exists>q. session_trace Fresh ts q}"
proof -
  have "sends (send_alert m) (\<lambda>_. {ts. \<exists>q. session_trace Fresh ts q}) {ts. \<exists>q. session_trace Fresh ts q}" for m
    by (rule sends_mono [OF sends_alert]) (use short_traces in blast)+
  moreover have "sends (handle_registration P se rnd ch raw)
      (\<lambda>_. {ts. \<exists>q. session_trace Fresh ts q}) {ts. \<exists>q. session_trace Fresh ts q}" for ch raw
    by (rule sends_mono [OF handle_registration_sends]) (use short_traces in blast)+
  ultimately show ?thesis
    unfolding session_body_def by (intro sendsI handle_login_sends) auto
qed

section \<open>What the peer sees\<close>

text \<open>
  Whatever the peer sends, whichever socket operations fail and whatever the store and the limiter
  hold, the bytes a session writes are whole frames of non-empty messages, and their tags form a trace
  of the session machine: nothing but a ServerHello or one alert comes first, a registration continues
  with at most a Close, a login with at most one alert or with application data records and at most
  one alert after them, and nothing follows an alert or a Close (\<open>trace_final\<close>, \<open>trace_hello_first\<close>).
\<close>

theorem server_output_grammar:
  "\<exists>ms q. cn_out (w_conn (snd (run P se rnd w))) = cn_out (w_conn w) @ map frame_of ms \<and> [] \<notin> set ms \<and>
     session_trace Fresh (map (\<lambda>m. uint (hd m)) ms) q"
proof -
  obtain r w' where b: "session_body P se rnd w = (r, w')" by fastforce
  with sends_constD [OF session_body_sends] obtain ts q where "emits w w' ts" "session_trace Fresh ts q" by blast
  then obtain ms where "cn_out (w_conn w') = cn_out (w_conn w) @ map frame_of ms" "[] \<notin> set ms"
    "session_trace Fresh (map (\<lambda>m. uint (hd m)) ms) q" unfolding emits_def by blast
  moreover have "w_conn (snd (run P se rnd w)) = w_conn w'" by (simp add: run_def b)
  ultimately show ?thesis by (intro exI [of _ ms] exI [of _ q]) simp
qed

end
