(* ===== verification/Login_Security.thy ===== *)
theory Login_Security
  imports Prelude Hex Utf8 Codec Framing Connection Primitives Sample_Primitives Kdf Record_Layer Ratelimit
    Server_Config Storage Pki Opaque_Core Opaque Server Client Echo_Loop Handshake Registration Sample_Run
    Session_Machine
begin

text \<open>
  What a login costs an attacker: the server enters its echo loop only for a known user and after the
  client's MAC over the server's own transcript, and the sessions of one server process together
  answer at most ten login attempts per address and credential in a minute.
\<close>

section \<open>A completed handshake\<close>

text \<open>
  \<open>proven P se rnd ch raw w s r w'\<close>: the limiter admitted the attempt, the store knew the user, one
  ServerHello was sent, and the next frame was a ClientFinish with the client's MAC; the record states
  are keyed by the session key and the transcript of the three messages.
\<close>

definition proven :: "prims \<Rightarrow> server_session \<Rightarrow> session_random \<Rightarrow> parsed_client_hello \<Rightarrow> bytes \<Rightarrow> world \<Rightarrow>
    direction_state \<Rightarrow> direction_state \<Rightarrow> world \<Rightarrow> bool" where
  "proven P se rnd ch raw w s r w' \<longleftrightarrow> (\<exists>ke2 ss sg sh c cf t1 t2 t3 secrets.
     fst (allow (sr_now_limiter rnd) (se_ip se) (ch_credential_id ch) (get_limiter (w_limiter w))) \<and>
     server_login_start P (sr_login rnd) (ch_credential_id ch) (ch_opaque_ke1 ch) (w_opaque w) (w_storage w) = (Inr (ke2, ss), sg) \<and>
     \<not> ss_is_fake ss \<and>
     transcript_add (lit ''client_hello'') raw transcript_new = Inr t1 \<and>
     build_signed_server_hello P se rnd t1 ke2 = Inr sh \<and> transcript_add (lit ''server_hello'') sh t1 = Inr t2 \<and>
     cn_out c = cn_out (w_conn w) @ [frame_of sh] \<and> cn_in c = cn_in (w_conn w) \<and> conn_recv c = (Inr cf, w_conn w') \<and>
     decode_client_finish cf = Inr \<lparr>cf_opaque_ke3 =
       hmac_sha512 (dk_mac_key (ss_keys ss)) (blit ''client'' @ ss_transcript ss @ ss_server_mac ss)\<rparr> \<and>
     transcript_add (lit ''client_finish'') cf t2 = Inr t3 \<and>
     derive_traffic_secrets P (dk_session_key (ss_keys ss)) (transcript_digest P t3) = Inr secrets \<and>
     direction_new P (ts_server_app secrets) = Inr s \<and> direction_new P (ts_client_app secrets) = Inr r)"

lemma alert_not_Some: "bindS (send_alert m) (\<lambda>_. retS None) w \<noteq> (Inr (Some x), w')"
  by (auto simp: bindS_def retS_def send_alert_def split: prod.splits)

lemma login_finish_Inr:
  "server_login_finish P ss ke3 = Inr (sk, ek) \<Longrightarrow> \<not> ss_is_fake ss \<and>
    ke3 = hmac_sha512 (dk_mac_key (ss_keys ss)) (blit ''client'' @ ss_transcript ss @ ss_server_mac ss) \<and>
    sk = dk_session_key (ss_keys ss)"
  by (auto simp: server_login_finish_def Let_def split: if_splits)

lemma try_alert_Some:
  "tryS m K (\<lambda>e. bindS (send_alert (g e)) (\<lambda>_. retS None)) f w = (Inr (Some x), w') \<longleftrightarrow>
     (\<exists>y w1. m w = (Inr y, w1) \<and> f y w1 = (Inr (Some x), w'))"
  by (auto simp: tryS_Inr alert_not_Some)

lemma if_alert_Some:
  "(if \<not> b then bindS (send_alert m) (\<lambda>_. retS None) else f) w = (Inr (Some x), w') \<longleftrightarrow>
     b \<and> f w = (Inr (Some x), w')"
  by (simp add: alert_not_Some)

lemmas handshake_success = bindS_Inr liftS_eq retS_eq try_alert_Some if_alert_Some on_conn_eq on_storage_eq

lemma login_handshake_proven:
  assumes "login_handshake P se rnd ch raw w = (Inr (Some (s, r)), w')"
  shows "proven P se rnd ch raw w s r w'"
proof -
  let ?start = "server_login_start P (sr_login rnd) (ch_credential_id ch) (ch_opaque_ke1 ch)"
  from assms obtain w1 t1 ke2 ss sg sh t2 c1 cf c2 f t3 sk ek secrets where
    1: "limiter_allow (sr_now_limiter rnd) (se_ip se) (ch_credential_id ch) w = (Inr True, w1)"
    and 2: "transcript_add (lit ''client_hello'') raw transcript_new = Inr t1"
    "?start (w_opaque w1) (w_storage w1) = (Inr (ke2, ss), sg)"
    "build_signed_server_hello P se rnd t1 ke2 = Inr sh" "transcript_add (lit ''server_hello'') sh t1 = Inr t2"
    and 3: "conn_send sh (w_conn w1) = (Inr (), c1)" "conn_recv c1 = (Inr cf, c2)" "w_conn w' = c2"
    and 4: "decode_client_finish cf = Inr f" "transcript_add (lit ''client_finish'') cf t2 = Inr t3"
    "server_login_finish P ss (cf_opaque_ke3 f) = Inr (sk, ek)"
    "derive_traffic_secrets P sk (transcript_digest P t3) = Inr secrets"
    "direction_new P (ts_server_app secrets) = Inr s" "direction_new P (ts_client_app secrets) = Inr r"
    unfolding login_handshake_def login_exchange_def login_complete_def handshake_success split_paired_Ex prod.case
    by (elim exE conjE) (simp add: handshake_success)
  from 1 have w1: "fst (allow (sr_now_limiter rnd) (se_ip se) (ch_credential_id ch) (get_limiter (w_limiter w)))"
    "w_conn w1 = w_conn w" "w_opaque w1 = w_opaque w" "w_storage w1 = w_storage w"
    by (auto simp: limiter_allow_def split: prod.splits)
  from login_finish_Inr [OF 4(3)] have f: "\<not> ss_is_fake ss" "sk = dk_session_key (ss_keys ss)"
    "f = \<lparr>cf_opaque_ke3 = hmac_sha512 (dk_mac_key (ss_keys ss)) (blit ''client'' @ ss_transcript ss @ ss_server_mac ss)\<rparr>"
    by simp_all
  from conn_send_Inr [OF 3(1)] have c1: "cn_out c1 = cn_out (w_conn w) @ [frame_of sh]" "cn_in c1 = cn_in (w_conn w)"
    by (simp_all add: w1(2))
  have cf: "conn_recv c1 = (Inr cf, w_conn w')" using 3(2,3) by simp
  show ?thesis
    unfolding proven_def
    by (intro exI conjI) (rule w1 2 [unfolded w1] f(1) 2 cf c1 4 [unfolded f(2,3)])+
qed

section \<open>The sessions of a server process\<close>

text \<open>
  The connections \<open>main\<close> accepts, one session after the other: each gets its own OPAQUE object and
  random values, all share the limiter and the record store.
\<close>

record session_input =
  si_session :: server_session
  si_random :: session_random
  si_conn :: conn

definition serve :: "prims \<Rightarrow> session_input \<Rightarrow> rate_limiter option \<Rightarrow> storage \<Rightarrow> world" where
  "serve P si lim sg = snd (run P (si_session si) (si_random si) (session_new (si_session si) (si_conn si) lim sg))"

text \<open>The login request a connection starts with, if it does, and its key at the limiter.\<close>

definition login_request :: "session_input \<Rightarrow> (parsed_client_hello \<times> bytes \<times> conn) option" where
  "login_request si = (case conn_recv (si_conn si) of
     (Inr raw, c) \<Rightarrow> (case py_index raw 0 of
        Inr tag \<Rightarrow> if uint tag \<noteq> TAG_CLIENT_HELLO then None
          else (case decode_client_hello raw of
             Inr ch \<Rightarrow> if ch_version ch = REG_VERSION then None else Some (ch, raw, c)
           | Inl _ \<Rightarrow> None)
      | Inl _ \<Rightarrow> None)
   | (Inl _, _) \<Rightarrow> None)"

definition request_key :: "session_input \<Rightarrow> parsed_client_hello \<Rightarrow> limiter_key" where
  "request_key si ch = (se_ip (si_session si), hex_str (ch_credential_id ch))"

text \<open>Whether a session's handshake for the key \<open>k\<close> succeeds.\<close>

definition authenticates :: "prims \<Rightarrow> limiter_key \<Rightarrow> session_input \<Rightarrow> rate_limiter option \<Rightarrow> storage \<Rightarrow> bool" where
  "authenticates P k si lim sg = (case login_request si of
     None \<Rightarrow> False
   | Some (ch, raw, c) \<Rightarrow> request_key si ch = k \<and>
       (case fst (login_handshake P (si_session si) (si_random si) ch raw (session_new (si_session si) c lim sg)) of
          Inr (Some _) \<Rightarrow> True | _ \<Rightarrow> False))"

fun none_authenticates :: "prims \<Rightarrow> limiter_key \<Rightarrow> session_input list \<Rightarrow> rate_limiter option \<Rightarrow> storage \<Rightarrow> bool" where
  "none_authenticates P k [] lim sg = True"
| "none_authenticates P k (si # sis) lim sg = (\<not> authenticates P k si lim sg \<and>
     (let w = serve P si lim sg in none_authenticates P k sis (w_limiter w) (w_storage w)))"

text \<open>The frames on the wire that are a ServerHello.\<close>

definition is_server_hello :: "bytes \<Rightarrow> bool" where
  "is_server_hello f = (4 < length f \<and> uint (f ! 4) = TAG_SERVER_HELLO)"

text \<open>The clock readings of the login requests for \<open>k\<close> that were answered with a ServerHello.\<close>

fun answered :: "prims \<Rightarrow> limiter_key \<Rightarrow> session_input list \<Rightarrow> rate_limiter option \<Rightarrow> storage \<Rightarrow> int list" where
  "answered P k [] lim sg = []"
| "answered P k (si # sis) lim sg =
     (let w = serve P si lim sg; rest = answered P k sis (w_limiter w) (w_storage w) in
      case login_request si of
        None \<Rightarrow> rest
      | Some (ch, _, _) \<Rightarrow>
          if request_key si ch = k \<and> list_ex is_server_hello (drop (length (cn_out (si_conn si))) (cn_out (w_conn w)))
          then sr_now_limiter (si_random si) # rest else rest)"

section \<open>What a session does to the limiter\<close>

text \<open>The operations that leave the limiter alone.\<close>

definition keeps :: "(world, 'a) st_res \<Rightarrow> bool" where
  "keeps m \<longleftrightarrow> (\<forall>w. w_limiter (snd (m w)) = w_limiter w)"

lemma keeps_ops:
  "keeps (liftS x)" "keeps (retS y)" "keeps (on_conn f)" "keeps (on_opaque g)" "keeps (on_storage h)" "keeps (send_alert msg)"
  by (simp_all add: keeps_def liftS_def retS_def on_conn_def on_opaque_def on_storage_def send_alert_def split: prod.splits)

lemma keepsD: "keeps m \<Longrightarrow> m w = (r, w') \<Longrightarrow> w_limiter w' = w_limiter w"
  unfolding keeps_def by (metis snd_conv)

lemma keeps_bindS: "keeps m \<Longrightarrow> (\<And>x. keeps (f x)) \<Longrightarrow> keeps (bindS m f)"
  unfolding keeps_def bindS_def by (simp split: prod.splits sum.splits) (metis snd_conv)

lemma keeps_tryS: "keeps m \<Longrightarrow> (\<And>e. keeps (h e)) \<Longrightarrow> (\<And>x. keeps (f x)) \<Longrightarrow> keeps (tryS m K h f)"
  unfolding keeps_def tryS_def by (simp split: prod.splits sum.splits) (metis snd_conv)

lemma keeps_if: "keeps m \<Longrightarrow> keeps n \<Longrightarrow> keeps (if b then m else n)"
  by simp

lemma keeps_prod: "(\<And>a b. keeps (f a b)) \<Longrightarrow> keeps (case x of (a, b) \<Rightarrow> f a b)"
  by (cases x) simp

lemmas keepsI = keeps_ops keeps_bindS keeps_tryS keeps_if keeps_prod

lemma handle_registration_keeps: "keeps (handle_registration P se rnd ch raw)"
  unfolding handle_registration_def by (intro keepsI)

lemma app_step_keeps: "w_limiter (snd (app_step P s r w)) = w_limiter w"
proof -
  have "keeps (bindS (liftS a) (\<lambda>m. on_conn (conn_send m)))" for a
    by (intro keepsI)
  note k = keepsD [OF this] keepsD [OF keeps_ops(3)]
  have a: "w_limiter (snd (send_alert msg v)) = w_limiter v" for msg v
    using keeps_ops(6) unfolding keeps_def by blast
  show ?thesis
    unfolding app_step_def
    by (auto simp: a dest!: k split: prod.splits sum.splits)
qed

lemma app_loop_keeps: "keeps (app_loop P s r)"
proof -
  have "w_limiter (snd (app_loop P s r w)) = w_limiter w" for w
  proof (induction P s r w rule: app_loop.induct)
    case (1 P s r w)
    obtain st w1 where st: "app_step P s r w = (st, w1)" by fastforce
    with app_step_keeps [of P s r w] have "w_limiter w1 = w_limiter w" by simp
    with 1 st show ?case by (subst app_loop.simps) (simp split: loop_step.split)
  qed
  then show ?thesis by (simp add: keeps_def)
qed

lemma login_exchange_keeps: "keeps (login_exchange P se rnd ch raw)"
  unfolding login_exchange_def login_complete_def by (intro keepsI)

lemma session_body_request:
  "login_request si = Some (ch, raw, c) \<Longrightarrow>
    session_body P se rnd (session_new se' (si_conn si) lim sg) =
      handle_login P se rnd ch raw (session_new se' c lim sg)"
  unfolding login_request_def session_body_def
  by (auto simp: bindS_def liftS_def on_conn_def session_new_def split: prod.splits sum.splits if_splits)

lemma request_keeps:
  assumes "login_request si = None"
  shows "w_limiter (serve P si lim sg) = lim"
proof -
  let ?w = "session_new (si_session si) (si_conn si) lim sg"
  have "w_limiter (snd (session_body P se rnd ?w)) = w_limiter ?w" for se rnd
  proof -
    obtain x c where c: "conn_recv (si_conn si) = (x, c)" by fastforce
    then have r: "on_conn conn_recv ?w = (x, ?w\<lparr>w_conn := c\<rparr>)" by (simp add: on_conn_def session_new_def)
    have k: "w_limiter (snd (handle_registration P se rnd ch raw v)) = w_limiter v"
      "w_limiter (snd (send_alert msg v)) = w_limiter v" for ch raw v msg
      using handle_registration_keeps keeps_ops(6) unfolding keeps_def by blast+
    show ?thesis
      using assms unfolding login_request_def c session_body_def
      by (auto simp: bindS_def r liftS_def k split: sum.splits if_splits)
  qed
  then show ?thesis by (simp add: serve_def run_def session_new_def split: prod.splits) (metis snd_conv)
qed

lemma handle_login_limiter:
  assumes h: "handle_login P se rnd ch raw w = (r, w')"
    and al: "allow (sr_now_limiter rnd) (se_ip se) (ch_credential_id ch) (get_limiter (w_limiter w)) = (b, rl)"
  shows "(\<not> b \<longrightarrow> w_limiter w' = Some rl \<and> (\<exists>fs. cn_out (w_conn w') = cn_out (w_conn w) @ fs \<and> alert_or_nothing fs)) \<and>
    (w_limiter w' = Some rl \<or> w_limiter w' = Some (reset_limiter (se_ip se) (ch_credential_id ch) rl) \<and>
       (\<exists>x. fst (login_handshake P se rnd ch raw w) = Inr (Some x)))"
proof -
  define w1 where "w1 = w\<lparr>w_limiter := Some rl\<rparr>"
  have l: "limiter_allow (sr_now_limiter rnd) (se_ip se) (ch_credential_id ch) w = (Inr b, w1)"
    by (simp add: limiter_allow_def al w1_def)
  show ?thesis
  proof (cases b)
    case False
    let ?m = "lit ''Rate limit exceeded '' @ [8212] @ lit '' retry later''"
    obtain u w2 where a: "send_alert ?m w1 = (u, w2)" by fastforce
    then have u: "u = Inr ()" by (simp add: send_alert_def split: prod.splits)
    from h have "w' = w2"
      by (simp add: handle_login_def login_handshake_def bindS_def l False a [simplified] u retS_def)
    moreover have "w_limiter w2 = w_limiter w1" using keepsD [OF keeps_ops(6) a] .
    moreover have "\<exists>fs. cn_out (w_conn w2) = cn_out (w_conn w1) @ fs \<and> alert_or_nothing fs"
      using send_alert_out [of ?m w1] a by simp
    ultimately show ?thesis by (simp add: w1_def)
  next
    case True
    obtain x w2 where x: "login_exchange P se rnd ch raw w1 = (x, w2)" by fastforce
    then have hs: "login_handshake P se rnd ch raw w = (x, w2)" by (simp add: login_handshake_def bindS_def l True)
    have k: "w_limiter w2 = Some rl" using keepsD [OF login_exchange_keeps x] by (simp add: w1_def)
    consider "w' = w2" | s k where "x = Inr (Some (s, k))"
      using h hs by (cases x) (auto simp: handle_login_def bindS_def retS_def split: option.splits)
    then show ?thesis
    proof cases
      case 1
      with True k show ?thesis by simp
    next
      case (2 s d)
      with h hs have "app_loop P s d (w2\<lparr>w_limiter := Some (reset_limiter (se_ip se) (ch_credential_id ch) rl)\<rparr>) = (r, w')"
        by (simp add: handle_login_def bindS_def limiter_reset_def k get_limiter_def)
      from keepsD [OF app_loop_keeps this] True 2 hs show ?thesis by simp
    qed
  qed
qed

lemma alert_not_hello: "alert_or_nothing fs \<Longrightarrow> \<not> list_ex is_server_hello fs"
  by (auto simp: alert_or_nothing_def is_server_hello_def frame_of_def nth_append hd_conv_nth)

section \<open>The bound on guesses\<close>

lemma in_window_cons:
  "in_window w now (x # xs) = (if now - w < x \<and> x \<le> now then 1 else 0) + in_window w now xs"
  by (simp add: in_window_def)

text \<open>The calls the sessions make at the limiter, and the answered attempts among the admitted ones.\<close>

lemma answered_admitted:
  "sorted (t0 # map (\<lambda>si. sr_now_limiter (si_random si)) sis) \<Longrightarrow> none_authenticates P k sis lim sg \<Longrightarrow>
   \<exists>cs. monotone_from t0 cs \<and> (\<forall>ip c. Reset ip c \<in> set cs \<longrightarrow> (ip, hex_str c) \<noteq> k) \<and>
     (\<forall>w now. in_window w now (answered P k sis lim sg) \<le>
        in_window w now (admitted k cs (fst (run_calls step_call cs (get_limiter lim)))))"
proof (induction sis arbitrary: t0 lim sg)
  case Nil
  show ?case by (intro exI [of _ "[]"]) simp
next
  case (Cons si sis)
  let ?now = "sr_now_limiter (si_random si)"
  define w where "w = serve P si lim sg"
  have t: "t0 \<le> ?now" "sorted (t0 # map (\<lambda>si. sr_now_limiter (si_random si)) sis)"
    "sorted (?now # map (\<lambda>si. sr_now_limiter (si_random si)) sis)"
    and na: "\<not> authenticates P k si lim sg" "none_authenticates P k sis (w_limiter w) (w_storage w)"
    using Cons.prems by (auto simp: w_def Let_def)
  show ?case
  proof (cases "login_request si")
    case None
    then have "w_limiter w = lim" unfolding w_def by (rule request_keeps)
    with Cons.IH [OF t(2) na(2)] None show ?thesis by (simp add: Let_def w_def)
  next
    case (Some q)
    then obtain ch raw c where q: "login_request si = Some (ch, raw, c)" by (cases q) auto
    let ?se = "si_session si" and ?rnd = "si_random si"
    let ?v = "session_new ?se c lim sg"
    let ?ip = "se_ip ?se" and ?cid = "ch_credential_id ch"
    obtain r w1 where h: "handle_login P ?se ?rnd ch raw ?v = (r, w1)" by fastforce
    have w: "w_conn w = w_conn w1" "w_limiter w = w_limiter w1"
      by (simp_all add: w_def serve_def run_def session_body_request [OF q] h)
    obtain b rl where al: "allow ?now ?ip ?cid (get_limiter lim) = (b, rl)" by fastforce
    have v: "w_limiter ?v = lim" by (simp add: session_new_def)
    note e = handle_login_limiter [OF h, unfolded v, OF al]
    from Cons.IH [OF t(3) na(2)] obtain cs where cs: "monotone_from ?now cs"
      "\<forall>ip c. Reset ip c \<in> set cs \<longrightarrow> (ip, hex_str c) \<noteq> k"
      "\<And>u now. in_window u now (answered P k sis (w_limiter w) (w_storage w)) \<le>
        in_window u now (admitted k cs (fst (run_calls step_call cs (get_limiter (w_limiter w)))))"
      by blast
    have "cn_out (w_conn ?v) = cn_out (si_conn si)"
      using q by (auto simp: login_request_def session_new_def conn_recv_Inr split: prod.splits sum.splits if_splits)
    with e alert_not_hello have "list_ex is_server_hello (drop (length (cn_out (si_conn si))) (cn_out (w_conn w1))) \<longrightarrow> b"
      by auto
    then have ans: "answered P k (si # sis) lim sg = answered P k sis (w_limiter w) (w_storage w) \<or>
        b \<and> request_key si ch = k \<and> answered P k (si # sis) lim sg = ?now # answered P k sis (w_limiter w) (w_storage w)"
      by (auto simp: Let_def q w(1) simp flip: w_def)
    from e consider "get_limiter (w_limiter w) = rl"
      | "get_limiter (w_limiter w) = reset_limiter ?ip ?cid rl" "request_key si ch \<noteq> k"
      using na(1) by (auto simp: w(2) get_limiter_def authenticates_def q)
    then show ?thesis
    proof cases
      case 1
      with cs t(1) ans show ?thesis
        by (intro exI [of _ "Allow ?now ?ip ?cid # cs"])
          (auto simp: run_calls_Cons al in_window_cons request_key_def le_SucI simp del: run_calls.simps answered.simps)
    next
      case 2
      with cs t(1) ans show ?thesis
        by (intro exI [of _ "Allow ?now ?ip ?cid # Reset ?ip ?cid # cs"])
          (auto simp: run_calls_Cons al request_key_def simp del: run_calls.simps answered.simps)
    qed
  qed
qed

section \<open>Properties\<close>

text \<open>
  C5: the server enters its echo loop only for a user it knows who has proved the password: when the
  handshake gives record states, the limiter had admitted the attempt, the store held a record, exactly
  one ServerHello was sent, and the next frame was a ClientFinish that carries the client's MAC over
  the server's OPAQUE transcript under the key of this session; the record states are keyed by that
  session and by the transcript of the three messages.
\<close>

theorem login_requires_proof:
  assumes "login_handshake P se rnd ch raw w = (Inr (Some (s, r)), w')"
  shows "proven P se rnd ch raw w s r w'"
  by (rule login_handshake_proven [OF assms])

lemma sample_handshake:
  "\<exists>ch raw w s r w'. login_handshake sample sample_session sample_session_random ch raw w = (Inr (Some (s, r)), w')"
proof -
  obtain sg where sg: "registered sample (se_server_key sample_session) sample_client_random [97] [112, 119] sg"
    using sample_registered by (auto simp: sample_session_def)
  obtain L where L: "opaque_run sample (se_server_key sample_session) sample_session_random sample_client_random [97] [112, 119] sg L"
    "messages_run sample sample_session sample_session_random sample_times sample_ca L"
    using opaque_run_exists [OF sample_primitives_ok sample_run_random sg]
      messages_run_exists [OF sample_primitives_ok sample_identity sample_run_random sample_clocks] by blast
  obtain rl where rl: "allow (sr_now_limiter sample_session_random) (se_ip sample_session) (lx_cid L) (get_limiter None) = (True, rl)"
    using sample_allow by blast
  let ?w = "session_new sample_session (fed [frame_of (lx_cf L)]) None sg"
  have w: "w_storage ?w = sg" "w_limiter ?w = None" "w_conn ?w = fed [frame_of (lx_cf L)]"
    "w_opaque ?w = opaque_server_new (se_server_key sample_session)" by (simp_all add: session_new_def)
  from server_handshake [of sample sample_session sample_session_random sample_client_random "[97]" "[112, 119]" ?w L,
      unfolded w, OF L rl refl, of "[]"] obtain w' where
    "login_handshake sample sample_session sample_session_random (lx_parsed_ch L) (lx_ch L) ?w =
      (Inr (Some (lx_send L, lx_recv L)), w')" by auto
  then show ?thesis by blast
qed

theorem login_requires_proof_witness:
  "\<exists>ch raw w s r w'. proven sample sample_session sample_session_random ch raw w s r w'"
proof -
  from sample_handshake obtain ch raw w s r w' where
    "login_handshake sample sample_session sample_session_random ch raw w = (Inr (Some (s, r)), w')" by blast
  from login_requires_proof [OF this] show ?thesis by blast
qed

text \<open>
  Guessing is rate-limited across all the sessions of the process: for any address and credential
  that does not log in meanwhile, the login attempts that are answered with a ServerHello, which is
  what a guess of the password costs, are at most ten in any 60 seconds (the clock counts
  nanoseconds), whatever else the peers send, in these sessions and in those for other keys.
\<close>

theorem password_guesses_bounded:
  assumes "sorted (map (\<lambda>si. sr_now_limiter (si_random si)) sis)" and "none_authenticates P k sis None sg"
  shows "in_window (60 * 10 ^ 9) now (answered P k sis None sg) \<le> 10"
proof -
  obtain t0 where "sorted (t0 # map (\<lambda>si. sr_now_limiter (si_random si)) sis)"
    using assms(1) by (cases sis) (auto intro: that [of "sr_now_limiter (si_random (hd sis))"])
  from answered_admitted [OF this assms(2)] obtain cs where
    cs: "monotone_from t0 cs" "\<forall>ip c. Reset ip c \<in> set cs \<longrightarrow> (ip, hex_str c) \<noteq> k"
    "\<And>w now. in_window w now (answered P k sis None sg) \<le>
      in_window w now (admitted k cs (fst (run_calls step_call cs (get_limiter None))))" by blast
  have "int (in_window (60 * 10 ^ 9) now (admitted k cs (fst (run_calls step_call cs (limiter_new (60 * 10 ^ 9) 10))))) \<le> 10"
    by (rule admitted_bounded [OF _ _ cs(1,2)]) simp_all
  with cs(3) [of "60 * 10 ^ 9" now] show ?thesis by (simp add: get_limiter_def)
qed

lemma silent_not_authenticates:
  assumes "login_request si = Some (ch, raw, c)" and "stream (cn_in c) = []"
  shows "\<not> authenticates P k si lim sg"
proof
  assume "authenticates P k si lim sg"
  then obtain s r w' where
    "login_handshake P (si_session si) (si_random si) ch raw (session_new (si_session si) c lim sg) = (Inr (Some (s, r)), w')"
    using assms(1)
    by (cases "login_handshake P (si_session si) (si_random si) ch raw (session_new (si_session si) c lim sg)")
      (auto simp: authenticates_def split: sum.splits option.splits)
  from login_handshake_proven [OF this] obtain d cf where d: "cn_in d = cn_in c" "conn_recv d = (Inr cf, w_conn w')"
    unfolding proven_def session_new_def by auto
  from conn_recv_consumes [OF d(2)] d(1) assms(2) show False by simp
qed

lemma sample_guess:
  "\<exists>si ch raw c. login_request si = Some (ch, raw, c) \<and> stream (cn_in c) = [] \<and> sr_now_limiter (si_random si) = 0"
proof -
  let ?p = "\<lparr>ch_version = 1, ch_credential_id = replicate 64 7, ch_client_nonce = replicate 32 9, ch_opaque_ke1 = []\<rparr>"
  from client_hello_ok [of "replicate 64 7" "replicate 32 9" "[]" 1] obtain ch where
    ch: "length ch \<le> 100" "ch \<noteq> []" "hd ch = 1" "decode_client_hello ch = Inr ?p" by auto
  let ?si = "\<lparr>si_session = sample_session, si_random = sample_session_random, si_conn = fed [frame_of ch]\<rparr>"
  from conn_recv_frame [of "fed [frame_of ch]" ch "[]"] ch(1) obtain i where
    i: "conn_recv (fed [frame_of ch]) = (Inr ch, (fed [frame_of ch])\<lparr>cn_in := i\<rparr>)" "stream i = []" by (auto simp: MAX_FRAME_def)
  have "login_request ?si = Some (?p, ch, (fed [frame_of ch])\<lparr>cn_in := i\<rparr>)"
    by (simp add: login_request_def i(1) py_index_hd [OF ch(2)] ch(3,4))
  with i(2) show ?thesis by (intro exI [of _ ?si]) (simp add: sample_session_random_def)
qed

theorem password_guesses_bounded_witness:
  "\<exists>si ch raw c. login_request si = Some (ch, raw, c) \<and>
     in_window (60 * 10 ^ 9) 0 (answered sample (request_key si ch) (replicate 11 si) None sample_storage) \<le> 10"
proof -
  from sample_guess obtain si ch raw c where si: "login_request si = Some (ch, raw, c)" "stream (cn_in c) = []"
    "sr_now_limiter (si_random si) = 0" by blast
  have na: "none_authenticates sample k (replicate n si) lim sg" for k n lim sg
    using silent_not_authenticates [OF si(1,2)] by (induction n arbitrary: lim sg) (simp_all add: Let_def)
  have "sorted (map (\<lambda>si. sr_now_limiter (si_random si)) (replicate 11 si))"
    by simp
  from password_guesses_bounded [OF this na] si(1) show ?thesis by blast
qed

end
