(* ===== verification/Concurrent.thy ===== *)
theory Concurrent
  imports Prelude Hex Utf8 Codec Framing Connection Primitives Sample_Primitives Kdf Record_Layer Ratelimit
    Server_Config Storage Pki Opaque_Core Opaque Server Client Echo_Loop Handshake Registration Sample_Run
    Session_Machine Login_Security
begin

text \<open>
  The threads of a server process: \<open>main\<close> of \<open>server.py\<close> accepts connections and runs each session in a
  thread of its own, all on one rate limiter and one record store.  A thread is stepped from one access
  to the shared state to the next, in any order with the others (theory \<open>Thread_Alone\<close>: a thread left
  alone does what \<open>run\<close> does).  The bound on password guesses is proved for every interleaving; it
  counts the limiters, because threads that race on the first \<open>get_limiter\<close> each create one.
\<close>

section \<open>Threads\<close>

text \<open>What a thread wants the limiter for.\<close>

datatype limiter_use =
    ForAllow parsed_client_hello bytes
  | ForReset parsed_client_hello direction_state direction_state

text \<open>
  Where a thread is: before its first read, in \<open>get_limiter\<close> (the test, the assignment, the read of the
  module variable), about to call the limiter it got, with an admitted attempt, in the echo loop, or done.
\<close>

datatype session_pc =
    Starting
  | Testing limiter_use
  | Creating limiter_use
  | Fetching limiter_use
  | Calling nat limiter_use
  | Admitted parsed_client_hello bytes
  | Echoing direction_state direction_state
  | Done run_end

record thread =
  th_input :: session_input
  th_conn :: conn
  th_opaque :: opaque_server
  th_pc :: session_pc

text \<open>
  What the threads share: the limiter objects created so far, the one the module variable refers to,
  and the record store.
\<close>

record process_state =
  sh_limiters :: "rate_limiter list"
  sh_current :: "nat option"
  sh_storage :: storage

definition thread_new :: "session_input \<Rightarrow> thread" where
  "thread_new si = \<lparr>th_input = si, th_conn = si_conn si,
     th_opaque = opaque_server_new (se_server_key (si_session si)), th_pc = Starting\<rparr>"

definition fresh_limiter :: rate_limiter where
  "fresh_limiter = limiter_new (RATE_LIMIT_WINDOW_S * 10 ^ 9) RATE_LIMIT_MAX_TRIES"

definition shared_new :: "storage \<Rightarrow> process_state" where
  "shared_new sg = \<lparr>sh_limiters = [], sh_current = None, sh_storage = sg\<rparr>"

text \<open>The state after somebody has called \<open>get_limiter\<close> before the first connection.\<close>

definition shared_warm :: "storage \<Rightarrow> process_state" where
  "shared_warm sg = \<lparr>sh_limiters = [fresh_limiter], sh_current = Some 0, sh_storage = sg\<rparr>"

section \<open>Steps\<close>

text \<open>The part of \<open>run\<close> up to the dispatch; \<open>None\<close> when the session is over with it.\<close>

definition session_open ::
  "prims \<Rightarrow> server_session \<Rightarrow> session_random \<Rightarrow> (world, (parsed_client_hello \<times> bytes) option) st_res" where
  "session_open P se rnd =
     bindS (on_conn conn_recv) (\<lambda>raw.
     bindS (liftS (py_index raw 0)) (\<lambda>tag.
     if uint tag \<noteq> TAG_CLIENT_HELLO then bindS (send_alert (expected_hello_msg tag)) (\<lambda>_. retS None)
     else
       bindS (liftS (decode_client_hello raw)) (\<lambda>ch.
       if ch_version ch = REG_VERSION then bindS (handle_registration P se rnd ch raw) (\<lambda>_. retS None)
       else retS (Some (ch, raw)))))"

definition end_of :: "'a res \<Rightarrow> run_end" where
  "end_of r = (case r of
     Inr _ \<Rightarrow> Completed
   | Inl e \<Rightarrow> if err_kind e = ConnectionError \<or> err_kind e = TimeoutError then Connection_error e else Unhandled e)"

text \<open>An operation of a session on the thread's connection and OPAQUE object and the shared store.\<close>

definition thread_world :: "thread \<Rightarrow> process_state \<Rightarrow> world" where
  "thread_world t sh = \<lparr>w_conn = th_conn t, w_limiter = None, w_storage = sh_storage sh, w_opaque = th_opaque t,
     w_closed = False\<rparr>"

definition perform :: "(world, 'a) st_res \<Rightarrow> ('a \<Rightarrow> session_pc) \<Rightarrow> thread \<Rightarrow> process_state \<Rightarrow> thread \<times> process_state" where
  "perform m next t sh = (case m (thread_world t sh) of (r, w) \<Rightarrow>
     (t\<lparr>th_conn := w_conn w, th_opaque := w_opaque w,
        th_pc := (case r of Inl e \<Rightarrow> Done (end_of r) | Inr x \<Rightarrow> next x)\<rparr>,
      sh\<lparr>sh_storage := w_storage w\<rparr>))"

text \<open>What a step does at the limiters, if anything.\<close>

datatype limiter_event = Quiet | Called nat limiter_call bool

definition rate_message :: pystr where
  "rate_message = lit ''Rate limit exceeded '' @ [8212] @ lit '' retry later''"

fun thread_step :: "prims \<Rightarrow> thread \<Rightarrow> process_state \<Rightarrow> limiter_event \<times> thread \<times> process_state" where
  "thread_step P t sh =
     (let se = si_session (th_input t); rnd = si_random (th_input t) in
      case th_pc t of
        Starting \<Rightarrow> (Quiet, perform (session_open P se rnd)
          (\<lambda>r. case r of None \<Rightarrow> Done Completed | Some (ch, raw) \<Rightarrow> Testing (ForAllow ch raw)) t sh)
      | Testing u \<Rightarrow> (Quiet, t\<lparr>th_pc := (if sh_current sh = None then Creating u else Fetching u)\<rparr>, sh)
      | Creating u \<Rightarrow> (Quiet, t\<lparr>th_pc := Fetching u\<rparr>,
          sh\<lparr>sh_current := Some (length (sh_limiters sh)), sh_limiters := sh_limiters sh @ [fresh_limiter]\<rparr>)
      | Fetching u \<Rightarrow> (Quiet, t\<lparr>th_pc := (case sh_current sh of None \<Rightarrow> Fetching u | Some i \<Rightarrow> Calling i u)\<rparr>, sh)
      | Calling i (ForAllow ch raw) \<Rightarrow>
          (let call = Allow (sr_now_limiter rnd) (se_ip se) (ch_credential_id ch);
               (b, rl) = step_call call (sh_limiters sh ! i);
               sh = sh\<lparr>sh_limiters := (sh_limiters sh)[i := rl]\<rparr> in
           (Called i call b,
            if b then (t\<lparr>th_pc := Admitted ch raw\<rparr>, sh)
            else perform (send_alert rate_message) (\<lambda>_. Done Completed) t sh))
      | Admitted ch raw \<Rightarrow> (Quiet, perform (login_exchange P se rnd ch raw)
          (\<lambda>r. case r of None \<Rightarrow> Done Completed | Some (s, d) \<Rightarrow> Testing (ForReset ch s d)) t sh)
      | Calling i (ForReset ch s d) \<Rightarrow>
          (let call = Reset (se_ip se) (ch_credential_id ch) in
           (Called i call True, t\<lparr>th_pc := Echoing s d\<rparr>,
            sh\<lparr>sh_limiters := (sh_limiters sh)[i := snd (step_call call (sh_limiters sh ! i))]\<rparr>))
      | Echoing s d \<Rightarrow> (Quiet, perform (app_loop P s d) (\<lambda>_. Done Completed) t sh)
      | Done e \<Rightarrow> (Quiet, t, sh))"

declare thread_step.simps [simp del]

section \<open>The process\<close>

record process =
  ps_threads :: "thread list"
  ps_shared :: process_state

definition process_new :: "bool \<Rightarrow> storage \<Rightarrow> process" where
  "process_new warm sg = \<lparr>ps_threads = [], ps_shared = (if warm then shared_warm sg else shared_new sg)\<rparr>"

text \<open>One iteration of the accept loop, or one step of a thread.\<close>

inductive process_step :: "prims \<Rightarrow> process \<Rightarrow> limiter_event \<Rightarrow> process \<Rightarrow> bool" for P where
  accept: "process_step P ps Quiet (ps\<lparr>ps_threads := ps_threads ps @ [thread_new si]\<rparr>)"
| thread: "i < length (ps_threads ps) \<Longrightarrow> thread_step P (ps_threads ps ! i) (ps_shared ps) = (ev, t, sh) \<Longrightarrow>
    process_step P ps ev (ps\<lparr>ps_threads := (ps_threads ps)[i := t], ps_shared := sh\<rparr>)"

inductive process_run :: "prims \<Rightarrow> process \<Rightarrow> limiter_event list \<Rightarrow> process \<Rightarrow> bool" for P ps0 where
  start: "process_run P ps0 [] ps0"
| step: "process_run P ps0 es ps \<Longrightarrow> process_step P ps ev ps' \<Longrightarrow> process_run P ps0 (es @ [ev]) ps'"


section \<open>What the events say\<close>

text \<open>The calls made at one limiter, the attempts admitted for a key, and the clock readings, in order.\<close>

fun calls_of :: "nat \<Rightarrow> limiter_event list \<Rightarrow> limiter_call list" where
  "calls_of i [] = []"
| "calls_of i (Quiet # es) = calls_of i es"
| "calls_of i (Called j c b # es) = (if j = i then c # calls_of i es else calls_of i es)"

fun event_grants :: "limiter_key \<Rightarrow> limiter_event \<Rightarrow> int list" where
  "event_grants k (Called i (Allow now ip c) b) = (if b \<and> (ip, hex_str c) = k then [now] else [])"
| "event_grants k _ = []"

definition grants :: "limiter_key \<Rightarrow> limiter_event list \<Rightarrow> int list" where
  "grants k es = concat (map (event_grants k) es)"

fun readings :: "limiter_event list \<Rightarrow> int list" where
  "readings [] = []"
| "readings (Called i (Allow now ip c) b # es) = now # readings es"
| "readings (_ # es) = readings es"

definition at_limiter :: "nat \<Rightarrow> limiter_event \<Rightarrow> bool" where
  "at_limiter i ev \<longleftrightarrow> (\<exists>c b. ev = Called i c b)"

lemma calls_of_append: "calls_of i (es @ fs) = calls_of i es @ calls_of i fs"
  by (induction i es rule: calls_of.induct) auto

lemma grants_append [simp]: "grants k (es @ fs) = grants k es @ grants k fs" "grants k [] = []" "grants k [ev] = event_grants k ev"
  by (simp_all add: grants_def)

lemma in_window_append [simp]: "in_window w n (xs @ ys) = in_window w n xs + in_window w n ys" "in_window w n [] = 0"
  by (simp_all add: in_window_def)

lemma readings_monotone: "sorted (t0 # readings es) \<Longrightarrow> monotone_from t0 (calls_of i es)"
proof (induction es arbitrary: t0 rule: readings.induct)
  case (2 j now ip c b es)
  then have "sorted (now # readings es)" "sorted (t0 # readings es)" "t0 \<le> now" by auto
  with 2(1) [of now] 2(1) [of t0] show ?case by simp
qed auto

lemma run_calls_append:
  "run_calls f (cs @ ds) s = (let (bs, s1) = run_calls f cs s; (bs', s2) = run_calls f ds s1 in (bs @ bs', s2))"
  by (induction cs arbitrary: s) (auto simp: Let_def split: prod.splits)

lemma run_calls_snoc:
  "run_calls f (cs @ [c]) s =
    (fst (run_calls f cs s) @ [fst (f c (snd (run_calls f cs s)))], snd (f c (snd (run_calls f cs s))))"
  by (simp add: run_calls_append Let_def split: prod.splits)

lemma run_calls_length: "length (fst (run_calls f cs s)) = length cs"
  by (induction cs arbitrary: s) (simp, simp split: prod.splits, metis fst_conv)

lemma admitted_append:
  "length bs = length cs \<Longrightarrow> admitted k (cs @ ds) (bs @ bs') = admitted k cs bs @ admitted k ds bs'"
proof (induction cs arbitrary: bs)
  case (Cons c cs)
  then obtain b bs1 where "bs = b # bs1" "length bs1 = length cs" by (cases bs) auto
  with Cons.IH [of bs1] show ?case by (cases c) auto
qed simp

lemma calls_of_event: "c \<in> set (calls_of i es) \<Longrightarrow> \<exists>b. Called i c b \<in> set es"
  by (induction i es rule: calls_of.induct) (auto split: if_splits)

text \<open>The limiters are where the calls made at them have brought them, and the answers are theirs.\<close>

definition limiters_follow :: "limiter_key \<Rightarrow> limiter_event list \<Rightarrow> rate_limiter list \<Rightarrow> bool" where
  "limiters_follow k es ls \<longleftrightarrow>
     (\<forall>i < length ls. ls ! i = snd (run_calls step_call (calls_of i es) fresh_limiter) \<and>
        grants k (filter (at_limiter i) es) = admitted k (calls_of i es) (fst (run_calls step_call (calls_of i es) fresh_limiter))) \<and>
     (\<forall>i \<ge> length ls. calls_of i es = [] \<and> filter (at_limiter i) es = [])"

lemma limiters_follow_quiet: "limiters_follow k es ls \<Longrightarrow> limiters_follow k (es @ [Quiet]) ls"
  by (simp add: limiters_follow_def calls_of_append at_limiter_def)

lemma limiters_follow_create: "limiters_follow k es ls \<Longrightarrow> limiters_follow k (es @ [Quiet]) (ls @ [fresh_limiter])"
  by (auto simp: limiters_follow_def calls_of_append at_limiter_def nth_append less_Suc_eq)

lemma limiters_follow_call:
  assumes "limiters_follow k es ls" and "i < length ls" and "step_call c (ls ! i) = (b, rl)"
  shows "limiters_follow k (es @ [Called i c b]) (ls[i := rl])"
  unfolding limiters_follow_def
proof (intro conjI allI impI)
  fix j assume "j < length (ls[i := rl])"
  then have j: "j < length ls" by simp
  then have f: "ls ! j = snd (run_calls step_call (calls_of j es) fresh_limiter)"
    "grants k (filter (at_limiter j) es) = admitted k (calls_of j es) (fst (run_calls step_call (calls_of j es) fresh_limiter))"
    using assms(1) by (simp_all add: limiters_follow_def)
  show "ls[i := rl] ! j = snd (run_calls step_call (calls_of j (es @ [Called i c b])) fresh_limiter)"
    using f(1) j assms(2,3) by (cases "j = i") (simp_all add: calls_of_append run_calls_snoc)
  have "event_grants k (Called i c b) = admitted k [c] [b]" by (cases c) auto
  then show "grants k (filter (at_limiter j) (es @ [Called i c b])) =
      admitted k (calls_of j (es @ [Called i c b])) (fst (run_calls step_call (calls_of j (es @ [Called i c b])) fresh_limiter))"
    using f assms(3) by (cases "j = i") (simp_all add: calls_of_append run_calls_snoc at_limiter_def admitted_append run_calls_length)
next
  fix j assume "length (ls[i := rl]) \<le> j"
  with assms(1,2) show "calls_of j (es @ [Called i c b]) = []" "filter (at_limiter j) (es @ [Called i c b]) = []"
    by (auto simp: limiters_follow_def calls_of_append at_limiter_def)
qed

lemma grants_split:
  assumes "\<forall>i \<ge> n. filter (at_limiter i) es = []"
  shows "in_window w t (grants k es) = (\<Sum>i<n. in_window w t (grants k (filter (at_limiter i) es)))"
  using assms
proof (induction es)
  case (Cons ev es)
  have "\<forall>i \<ge> n. filter (at_limiter i) es = []" using Cons.prems by (auto split: if_splits)
  note IH = Cons.IH [OF this]
  show ?case
  proof (cases ev)
    case Quiet
    with IH show ?thesis by (simp add: grants_def at_limiter_def)
  next
    case (Called j c b)
    then have j: "j < n" using Cons.prems by (auto simp: at_limiter_def not_le [symmetric])
    have "(\<Sum>i<n. in_window w t (grants k (filter (at_limiter i) (ev # es)))) =
        (\<Sum>i<n. (if i = j then in_window w t (event_grants k ev) else 0) + in_window w t (grants k (filter (at_limiter i) es)))"
      by (intro sum.cong) (auto simp: Called at_limiter_def grants_def)
    also have "\<dots> = in_window w t (event_grants k ev) + in_window w t (grants k es)"
      using IH j by (simp add: sum.distrib)
    finally show ?thesis by (simp add: grants_def)
  qed
qed simp


section \<open>What a thread owes to the limiter\<close>

definition reading :: "thread \<Rightarrow> int" where
  "reading t = sr_now_limiter (si_random (th_input t))"

definition requests :: "limiter_key \<Rightarrow> thread \<Rightarrow> bool" where
  "requests k t = (case login_request (th_input t) of
     None \<Rightarrow> False | Some (ch, _, _) \<Rightarrow> request_key (th_input t) ch = k)"

text \<open>The thread has sent a ServerHello.\<close>

definition greeted :: "thread \<Rightarrow> bool" where
  "greeted t = list_ex is_server_hello (drop (length (cn_out (si_conn (th_input t)))) (cn_out (th_conn t)))"

fun past_limiter :: "session_pc \<Rightarrow> bool" where
  "past_limiter (Testing (ForReset ch s d)) = True"
| "past_limiter (Creating (ForReset ch s d)) = True"
| "past_limiter (Fetching (ForReset ch s d)) = True"
| "past_limiter (Calling i (ForReset ch s d)) = True"
| "past_limiter (Admitted ch raw) = True"
| "past_limiter (Echoing s d) = True"
| "past_limiter _ = False"

definition counted :: "limiter_key \<Rightarrow> thread \<Rightarrow> bool" where
  "counted k t \<longleftrightarrow> requests k t \<and> (past_limiter (th_pc t) \<or> greeted t)"

text \<open>What is known of a thread before its call of \<open>allow\<close>.\<close>

definition waits :: "thread \<Rightarrow> parsed_client_hello \<Rightarrow> bytes \<Rightarrow> bool" where
  "waits t ch raw \<longleftrightarrow> (\<exists>c. login_request (th_input t) = Some (ch, raw, c)) \<and>
     cn_out (th_conn t) = cn_out (si_conn (th_input t))"

fun thread_ok :: "thread \<Rightarrow> bool" where
  "thread_ok t = (case th_pc t of
     Starting \<Rightarrow> t = thread_new (th_input t)
   | Testing (ForAllow ch raw) \<Rightarrow> waits t ch raw
   | Creating (ForAllow ch raw) \<Rightarrow> waits t ch raw
   | Fetching (ForAllow ch raw) \<Rightarrow> waits t ch raw
   | Calling i (ForAllow ch raw) \<Rightarrow> waits t ch raw
   | _ \<Rightarrow> True)"

declare thread_ok.simps [simp del]

lemma waits_not_greeted: "waits t ch raw \<Longrightarrow> \<not> greeted t"
  by (simp add: waits_def greeted_def)

lemma waits_cong: "waits (t\<lparr>th_pc := pc\<rparr>) ch raw = waits t ch raw" "greeted (t\<lparr>th_pc := pc\<rparr>) = greeted t"
    "requests k (t\<lparr>th_pc := pc\<rparr>) = requests k t"
  by (simp_all add: waits_def greeted_def requests_def split: option.splits)

lemma perform_fields: "th_input (fst (perform m next t sh)) = th_input t"
    "sh_limiters (snd (perform m next t sh)) = sh_limiters sh" "sh_current (snd (perform m next t sh)) = sh_current sh"
  by (simp_all add: perform_def split: prod.splits)

lemma session_open_cases:
  assumes "session_open P se rnd w = (r, w')" and "w_conn w = si_conn si"
  shows "(\<exists>ch raw c. r = Inr (Some (ch, raw)) \<and> login_request si = Some (ch, raw, c) \<and> w_conn w' = c \<and> cn_out c = cn_out (si_conn si)) \<or>
    login_request si = None \<and> (\<forall>x. r \<noteq> Inr (Some x))"
proof -
  obtain x c where c: "conn_recv (si_conn si) = (x, c)" by fastforce
  then have rc: "on_conn conn_recv w = (x, w\<lparr>w_conn := c\<rparr>)" by (simp add: on_conn_def assms(2))
  have out: "cn_out c = cn_out (si_conn si)" using c by (cases x) (auto simp: conn_recv_Inr conn_recv_Inl)
  have n: "bindS m (\<lambda>_. retS None) v \<noteq> (Inr (Some y), v')" for m :: "(world, unit) st_res" and v v' and y :: "parsed_client_hello \<times> bytes"
    by (simp add: bindS_Inr retS_eq)
  show ?thesis
    using assms(1) out unfolding session_open_def login_request_def c
    by (auto simp: bindS_def [of "on_conn conn_recv"] rc bindS_def [of "liftS _"] liftS_def retS_def n
        split: sum.splits if_splits)
qed


lemma requests_cong: "th_input t' = th_input t \<Longrightarrow> requests k t' = requests k t"
  by (simp add: requests_def split: option.split)

text \<open>A step counts its thread only if it was counted before or the step is an admitted attempt for the key.\<close>

definition step_respects :: "limiter_key \<Rightarrow> thread \<Rightarrow> limiter_event \<Rightarrow> thread \<Rightarrow> bool" where
  "step_respects k t ev t' \<longleftrightarrow> th_input t' = th_input t \<and> thread_ok t' \<and>
     (counted k t' \<longrightarrow> counted k t \<or> event_grants k ev = [reading t])"

lemma step_respects_pc:
  assumes "thread_ok (t\<lparr>th_pc := pc\<rparr>)" and "past_limiter pc \<Longrightarrow> past_limiter (th_pc t)"
  shows "step_respects k t ev (t\<lparr>th_pc := pc\<rparr>)"
  using assms by (auto simp: step_respects_def counted_def waits_cong)

lemma step_respects_past:
  "past_limiter (th_pc t) \<Longrightarrow> th_input t' = th_input t \<Longrightarrow> thread_ok t' \<Longrightarrow> step_respects k t ev t'"
  using requests_cong [of t' t k] by (auto simp: step_respects_def counted_def)

lemma thread_ok_simps:
  "th_pc t = Done e \<Longrightarrow> thread_ok t" "th_pc t = Echoing s d \<Longrightarrow> thread_ok t" "th_pc t = Admitted ch raw \<Longrightarrow> thread_ok t"
  "th_pc t = Testing (ForReset ch s d) \<Longrightarrow> thread_ok t"
  "th_pc t = Creating (ForReset ch s d) \<Longrightarrow> thread_ok t" "th_pc t = Fetching (ForReset ch s d) \<Longrightarrow> thread_ok t"
  "th_pc t = Calling i (ForReset ch s d) \<Longrightarrow> thread_ok t"
  "th_pc t = Testing (ForAllow ch raw) \<Longrightarrow> thread_ok t = waits t ch raw" "th_pc t = Creating (ForAllow ch raw) \<Longrightarrow> thread_ok t = waits t ch raw"
  "th_pc t = Fetching (ForAllow ch raw) \<Longrightarrow> thread_ok t = waits t ch raw" "th_pc t = Calling i (ForAllow ch raw) \<Longrightarrow> thread_ok t = waits t ch raw"
  "th_pc t = Starting \<Longrightarrow> thread_ok t = (t = thread_new (th_input t))"
  by (simp_all add: thread_ok.simps)

lemma starting_respects:
  assumes "th_pc t = Starting" and "thread_ok t"
  shows "step_respects k t ev (fst (perform (session_open P se rnd)
    (\<lambda>r. case r of None \<Rightarrow> Done Completed | Some (ch, raw) \<Rightarrow> Testing (ForAllow ch raw)) t sh))"
proof -
  let ?w = "thread_world t sh"
  obtain r w' where r: "session_open P se rnd ?w = (r, w')" by fastforce
  have "th_conn t = th_conn (thread_new (th_input t))"
    by (rule arg_cong [where f = th_conn]) (use assms in \<open>simp only: thread_ok_simps\<close>)
  then have "w_conn ?w = si_conn (th_input t)" by (simp add: thread_world_def thread_new_def)
  from session_open_cases [OF r this] show ?thesis
  proof (elim disjE exE conjE)
    fix ch raw c assume "r = Inr (Some (ch, raw))" "login_request (th_input t) = Some (ch, raw, c)" "w_conn w' = c"
      "cn_out c = cn_out (si_conn (th_input t))"
    then show ?thesis
      by (simp add: perform_def r step_respects_def thread_ok_simps waits_def counted_def greeted_def)
  next
    assume n: "login_request (th_input t) = None" "\<forall>x. r \<noteq> Inr (Some x)"
    then have "(case r of Inl e \<Rightarrow> Done (end_of r) | Inr x \<Rightarrow> (case x of None \<Rightarrow> Done Completed | Some (ch, raw) \<Rightarrow> Testing (ForAllow ch raw))) =
        Done (end_of r)" by (auto simp: end_of_def split: sum.splits option.splits)
    with n(1) show ?thesis
      by (simp add: perform_def r step_respects_def thread_ok_simps counted_def requests_def)
  qed
qed

lemma denied_respects:
  assumes "waits t ch raw"
  shows "step_respects k t ev (fst (perform (send_alert msg) (\<lambda>_. Done Completed) t sh))"
proof -
  obtain fs where "cn_out (w_conn (snd (send_alert msg (thread_world t sh)))) = cn_out (th_conn t) @ fs" "alert_or_nothing fs"
    using send_alert_out [of msg "thread_world t sh"] by (auto simp: thread_world_def)
  with assms alert_not_hello show ?thesis
    by (auto simp: perform_def step_respects_def thread_ok_simps counted_def greeted_def waits_def split: prod.splits sum.splits)
qed

lemma thread_step_respects:
  assumes "thread_step P t sh = (ev, t', sh')" and "thread_ok t"
  shows "step_respects k t ev t'"
proof (cases "th_pc t")
  case Starting
  with starting_respects [OF Starting assms(2)] assms(1) show ?thesis
    by (simp add: thread_step.simps Let_def) (metis fst_conv)
next
  case (Testing u)
  with assms show ?thesis
    by (cases u) (auto simp: thread_step.simps Let_def thread_ok_simps waits_cong intro!: step_respects_pc split: if_splits)
next
  case (Creating u)
  with assms show ?thesis
    by (cases u) (auto simp: thread_step.simps Let_def thread_ok_simps waits_cong intro!: step_respects_pc)
next
  case (Fetching u)
  with assms show ?thesis
    by (cases u) (auto simp: thread_step.simps Let_def thread_ok_simps waits_cong split: option.splits intro!: step_respects_pc)
next
  case (Calling i u)
  show ?thesis
  proof (cases u)
    case (ForAllow ch raw)
    let ?c = "Allow (reading t) (se_ip (si_session (th_input t))) (ch_credential_id ch)"
    obtain b rl where b: "step_call ?c (sh_limiters sh ! i) = (b, rl)" by fastforce
    have w: "waits t ch raw" using assms(2) Calling ForAllow by (simp add: thread_ok_simps)
    show ?thesis
    proof (cases b)
      case True
      with assms(1) b Calling ForAllow have t': "t' = t\<lparr>th_pc := Admitted ch raw\<rparr>" "ev = Called i ?c True"
        by (simp_all add: thread_step.simps reading_def Let_def)
      with w show ?thesis
        by (auto simp: step_respects_def thread_ok_simps counted_def requests_def waits_def request_key_def split: option.splits)
    next
      case False
      with assms(1) b Calling ForAllow have "t' = fst (perform (send_alert rate_message) (\<lambda>_. Done Completed) t
          (sh\<lparr>sh_limiters := (sh_limiters sh)[i := rl]\<rparr>))"
        by (simp add: thread_step.simps reading_def Let_def)
      with denied_respects [OF w] show ?thesis by simp
    qed
  next
    case (ForReset ch s d)
    with assms Calling show ?thesis
      by (auto simp: thread_step.simps Let_def thread_ok_simps intro!: step_respects_past)
  qed
next
  case (Admitted ch raw)
  with assms(1) have t': "t' = fst (perform (login_exchange P (si_session (th_input t)) (si_random (th_input t)) ch raw)
      (\<lambda>r. case r of None \<Rightarrow> Done Completed | Some (s, d) \<Rightarrow> Testing (ForReset ch s d)) t sh)"
    by (simp add: thread_step.simps Let_def)
  have "thread_ok t'"
    unfolding t' perform_def by (auto simp: thread_ok.simps split: prod.splits sum.splits option.splits)
  with Admitted t' show ?thesis by (intro step_respects_past) (simp_all add: perform_fields)
next
  case (Echoing s d)
  with assms(1) have t': "t' = fst (perform (app_loop P s d) (\<lambda>_. Done Completed) t sh)"
    by (simp add: thread_step.simps Let_def)
  have "thread_ok t'" unfolding t' perform_def by (auto simp: thread_ok.simps split: prod.splits sum.splits)
  with Echoing t' show ?thesis by (intro step_respects_past) (simp_all add: perform_fields)
next
  case (Done e)
  with assms show ?thesis by (auto simp: thread_step.simps step_respects_def)
qed


text \<open>What a step does to the limiters, and that the references to them stay valid.\<close>

definition refers :: "nat \<Rightarrow> thread \<Rightarrow> bool" where
  "refers n t \<longleftrightarrow> (\<forall>i u. th_pc t = Calling i u \<longrightarrow> i < n)"

definition current_ok :: "process_state \<Rightarrow> bool" where
  "current_ok sh \<longleftrightarrow> (\<forall>i. sh_current sh = Some i \<longrightarrow> i < length (sh_limiters sh))"

definition limiters_change :: "limiter_event \<Rightarrow> rate_limiter list \<Rightarrow> rate_limiter list \<Rightarrow> bool" where
  "limiters_change ev ls ls' \<longleftrightarrow> ev = Quiet \<and> (ls' = ls \<or> ls' = ls @ [fresh_limiter]) \<or>
     (\<exists>i c b rl. ev = Called i c b \<and> i < length ls \<and> step_call c (ls ! i) = (b, rl) \<and> ls' = ls[i := rl])"

lemma limiters_change_follow: "limiters_change ev ls ls' \<Longrightarrow> limiters_follow k es ls \<Longrightarrow> limiters_follow k (es @ [ev]) ls'"
  by (auto simp: limiters_change_def intro: limiters_follow_quiet limiters_follow_create limiters_follow_call)

lemma limiters_change_length: "limiters_change ev ls ls' \<Longrightarrow> length ls \<le> length ls'"
  by (auto simp: limiters_change_def)

lemma perform_cases:
  assumes "perform m next t sh = (t', sh')" and "\<And>x i u. next x \<noteq> Calling i u"
  shows "refers n t'" and "sh_limiters sh' = sh_limiters sh" and "sh_current sh' = sh_current sh"
  using assms by (auto simp: perform_def refers_def split: prod.splits sum.splits)

lemma thread_step_limiters:
  assumes "thread_step P t sh = (ev, t', sh')" and "refers (length (sh_limiters sh)) t" and "current_ok sh"
  shows "limiters_change ev (sh_limiters sh) (sh_limiters sh') \<and> current_ok sh' \<and> refers (length (sh_limiters sh')) t'"
proof (cases "th_pc t")
  case Starting
  let ?n = "\<lambda>r. case r of None \<Rightarrow> Done Completed | Some (ch, raw) \<Rightarrow> Testing (ForAllow ch raw)"
  from assms(1) Starting have "perform (session_open P (si_session (th_input t)) (si_random (th_input t))) ?n t sh = (t', sh')" "ev = Quiet"
    by (simp_all add: thread_step.simps Let_def)
  with perform_cases [OF this(1)] assms(3) show ?thesis
    by (simp add: limiters_change_def current_ok_def split: option.splits)
next
  case (Admitted ch raw)
  let ?n = "\<lambda>r. case r of None \<Rightarrow> Done Completed | Some (s, d) \<Rightarrow> Testing (ForReset ch s d)"
  from assms(1) Admitted have "perform (login_exchange P (si_session (th_input t)) (si_random (th_input t)) ch raw) ?n t sh = (t', sh')" "ev = Quiet"
    by (simp_all add: thread_step.simps Let_def)
  with perform_cases [OF this(1)] assms(3) show ?thesis
    by (simp add: limiters_change_def current_ok_def split: option.splits)
next
  case (Echoing s d)
  from assms(1) Echoing have "perform (app_loop P s d) (\<lambda>_. Done Completed) t sh = (t', sh')" "ev = Quiet"
    by (simp_all add: thread_step.simps Let_def)
  with perform_cases [OF this(1)] assms(3) show ?thesis by (simp add: limiters_change_def current_ok_def)
next
  case (Calling i u)
  then have i: "i < length (sh_limiters sh)" using assms(2) by (simp add: refers_def)
  show ?thesis
  proof (cases u)
    case (ForAllow ch raw)
    let ?c = "Allow (sr_now_limiter (si_random (th_input t))) (se_ip (si_session (th_input t))) (ch_credential_id ch)"
    obtain b rl where b: "step_call ?c (sh_limiters sh ! i) = (b, rl)" by fastforce
    define sh1 where "sh1 = sh\<lparr>sh_limiters := (sh_limiters sh)[i := rl]\<rparr>"
    from assms(1) Calling ForAllow b have ev: "ev = Called i ?c b"
      "(if b then (t\<lparr>th_pc := Admitted ch raw\<rparr>, sh1) else perform (send_alert rate_message) (\<lambda>_. Done Completed) t sh1) = (t', sh')"
      by (simp_all add: thread_step.simps Let_def sh1_def split: if_splits)
    then have "sh_limiters sh' = sh_limiters sh1 \<and> sh_current sh' = sh_current sh1 \<and> refers n t'" for n
      using perform_cases [of "send_alert rate_message" "\<lambda>_. Done Completed" t sh1 t' sh']
      by (cases b) (auto simp: refers_def)
    with ev(1) i b assms(3) show ?thesis by (auto simp: sh1_def limiters_change_def current_ok_def)
  next
    case (ForReset ch s d)
    with assms(1,3) Calling i show ?thesis
      by (auto simp: thread_step.simps Let_def limiters_change_def current_ok_def refers_def)
  qed
qed (use assms in \<open>auto simp: thread_step.simps Let_def limiters_change_def current_ok_def refers_def split: option.splits if_splits\<close>)

lemma refers_mono: "refers n t \<Longrightarrow> n \<le> m \<Longrightarrow> refers m t"
  unfolding refers_def by (meson less_le_trans)

section \<open>The invariant of a process\<close>

definition process_inv :: "limiter_key \<Rightarrow> limiter_event list \<Rightarrow> process \<Rightarrow> bool" where
  "process_inv k es ps \<longleftrightarrow> limiters_follow k es (sh_limiters (ps_shared ps)) \<and> current_ok (ps_shared ps) \<and>
     (\<forall>t \<in> set (ps_threads ps). thread_ok t \<and> refers (length (sh_limiters (ps_shared ps))) t) \<and>
     (\<forall>w n. in_window w n (map reading (filter (counted k) (ps_threads ps))) \<le> in_window w n (grants k es))"

lemma in_window_update:
  assumes "i < length xs" and "reading y = reading (xs ! i)" and "counted k y \<longrightarrow> counted k (xs ! i) \<or> g = [reading y]"
  shows "in_window w n (map reading (filter (counted k) (xs[i := y]))) \<le>
    in_window w n (map reading (filter (counted k) xs)) + in_window w n g"
proof -
  have xs: "xs = take i xs @ xs ! i # drop (Suc i) xs" by (rule id_take_nth_drop [OF assms(1)])
  have "xs[i := y] = take i xs @ y # drop (Suc i) xs" by (rule upd_conv_take_nth_drop [OF assms(1)])
  moreover have "in_window w n (map reading (filter (counted k) xs)) =
      in_window w n (map reading (filter (counted k) (take i xs @ xs ! i # drop (Suc i) xs)))"
    by (rule arg_cong [OF xs])
  ultimately show ?thesis using assms(2,3) by (auto simp: in_window_def)
qed

lemma process_inv_new: "process_inv k [] (process_new warm sg)"
  by (auto simp: process_inv_def process_new_def shared_new_def shared_warm_def limiters_follow_def current_ok_def grants_def)

lemma process_inv_step:
  assumes "process_step P ps ev ps'" and inv: "process_inv k es ps"
  shows "process_inv k (es @ [ev]) ps'"
  using assms(1)
proof cases
  case (accept si)
  have "thread_ok (thread_new si)" "refers n (thread_new si)" "\<not> counted k (thread_new si)" for n
    by (simp_all add: thread_ok.simps thread_new_def refers_def counted_def greeted_def)
  with accept inv show ?thesis by (auto simp: process_inv_def limiters_follow_quiet)
next
  case (thread i t sh)
  let ?t = "ps_threads ps ! i"
  have t: "thread_ok ?t" "refers (length (sh_limiters (ps_shared ps))) ?t" "current_ok (ps_shared ps)"
    using inv thread(2) by (simp_all add: process_inv_def)
  note r = thread_step_respects [OF thread(3) t(1), of k]
  note l = thread_step_limiters [OF thread(3) t(2,3)]
  have "in_window w n (map reading (filter (counted k) ((ps_threads ps)[i := t]))) \<le> in_window w n (grants k (es @ [ev]))" for w n
  proof -
    have "reading t = reading ?t" using r by (simp add: step_respects_def reading_def)
    then have "in_window w n (map reading (filter (counted k) ((ps_threads ps)[i := t]))) \<le>
        in_window w n (map reading (filter (counted k) (ps_threads ps))) + in_window w n (event_grants k ev)"
      using r thread(2) by (intro in_window_update) (auto simp: step_respects_def)
    also have "\<dots> \<le> in_window w n (grants k es) + in_window w n (event_grants k ev)"
      using inv by (simp add: process_inv_def)
    finally show ?thesis by simp
  qed
  moreover have "thread_ok u \<and> refers (length (sh_limiters sh)) u" if "u \<in> set ((ps_threads ps)[i := t])" for u
  proof (cases "u = t")
    case True
    with r l show ?thesis by (simp add: step_respects_def)
  next
    case False
    with that have "u \<in> set (ps_threads ps)" by (metis insertE set_update_subset_insert subsetD)
    with inv l limiters_change_length refers_mono show ?thesis by (metis process_inv_def)
  qed
  moreover have "limiters_follow k (es @ [ev]) (sh_limiters sh)"
    by (rule limiters_change_follow) (use inv l in \<open>auto simp: process_inv_def\<close>)
  ultimately show ?thesis using l by (simp add: process_inv_def thread(1))
qed

lemma process_run_inv: "process_run P (process_new warm sg) es ps \<Longrightarrow> process_inv k es ps"
  by (induction rule: process_run.induct) (auto intro: process_inv_new process_inv_step)


text \<open>A process whose limiter exists creates no other.\<close>

definition warm_inv :: "process \<Rightarrow> bool" where
  "warm_inv ps \<longleftrightarrow> length (sh_limiters (ps_shared ps)) = 1 \<and> sh_current (ps_shared ps) \<noteq> None \<and>
     (\<forall>t \<in> set (ps_threads ps). \<forall>u. th_pc t \<noteq> Creating u)"

lemma perform_warm:
  assumes "perform m next t sh = (t', sh')" and "\<And>x u. next x \<noteq> Creating u"
  shows "sh_limiters sh' = sh_limiters sh \<and> sh_current sh' = sh_current sh \<and> th_pc t' \<noteq> Creating v"
  using assms by (auto simp: perform_def split: prod.splits sum.splits)

lemma thread_step_warm:
  assumes "thread_step P t sh = (ev, t', sh')" and "\<forall>u. th_pc t \<noteq> Creating u" and "sh_current sh \<noteq> None"
  shows "length (sh_limiters sh') = length (sh_limiters sh) \<and> sh_current sh' \<noteq> None \<and> th_pc t' \<noteq> Creating v"
proof -
  have p: "perform m next t sh1 = (t', sh') \<Longrightarrow> (\<And>x u. next x \<noteq> Creating u) \<Longrightarrow> sh_current sh1 = sh_current sh \<Longrightarrow>
      length (sh_limiters sh1) = length (sh_limiters sh) \<Longrightarrow> ?thesis" for m :: "(world, 'b) st_res" and "next" sh1
    using perform_warm [of m "next" t sh1 t' sh'] assms(3) by simp
  show ?thesis
  proof (cases "th_pc t")
    case Starting
    with assms(1) show ?thesis by (intro p) (auto simp: thread_step.simps Let_def split: option.splits)
  next
    case (Admitted ch raw)
    with assms(1) show ?thesis by (intro p) (auto simp: thread_step.simps Let_def split: option.splits)
  next
    case (Echoing s d)
    with assms(1) show ?thesis by (intro p) (auto simp: thread_step.simps Let_def)
  next
    case (Calling i u)
    with assms(1,3) show ?thesis
      by (cases u) (auto simp: thread_step.simps Let_def perform_def split: prod.splits if_splits sum.splits)
  qed (use assms in \<open>auto simp: thread_step.simps Let_def split: option.splits\<close>)
qed

lemma process_run_warm: "process_run P (process_new True sg) es ps \<Longrightarrow> warm_inv ps"
proof (induction rule: process_run.induct)
  case start
  then show ?case by (simp add: warm_inv_def process_new_def shared_warm_def)
next
  case (step es ps ev ps')
  from step(2) show ?case
  proof cases
    case (accept si)
    with step(3) show ?thesis by (auto simp: warm_inv_def thread_new_def)
  next
    case (thread i t sh)
    have "\<forall>u. th_pc (ps_threads ps ! i) \<noteq> Creating u" "sh_current (ps_shared ps) \<noteq> None"
      using step(3) thread(2) by (simp_all add: warm_inv_def)
    note w = thread_step_warm [OF thread(3) this]
    have "\<forall>u. th_pc x \<noteq> Creating u" if "x \<in> set ((ps_threads ps)[i := t])" for x
      using that w step(3) set_update_subset_insert [of "ps_threads ps" i t] by (auto simp: warm_inv_def)
    with w step(3) show ?thesis by (auto simp: warm_inv_def thread(1))
  qed
qed

section \<open>Properties\<close>

text \<open>The clock readings of the threads that asked for the key \<open>k\<close> and have sent a ServerHello.\<close>

definition guesses :: "limiter_key \<Rightarrow> process \<Rightarrow> int list" where
  "guesses k ps = map reading (filter (\<lambda>t. requests k t \<and> greeted t) (ps_threads ps))"

lemma guesses_counted: "in_window w n (guesses k ps) \<le> in_window w n (map reading (filter (counted k) (ps_threads ps)))"
proof -
  have "in_window w n (map reading (filter (\<lambda>t. requests k t \<and> greeted t) ts)) \<le>
      in_window w n (map reading (filter (counted k) ts))" for ts
    by (induction ts) (auto simp: in_window_def counted_def)
  then show ?thesis by (simp add: guesses_def)
qed


text \<open>Two threads race on the first call of \<open>get_limiter\<close>; the process then has two limiters.\<close>

lemma opening_step:
  assumes "login_request si = Some (ch, raw, c)"
  shows "\<exists>t sh'. thread_step P (thread_new si) sh = (Quiet, t, sh') \<and> th_pc t = Testing (ForAllow ch raw) \<and>
    sh_limiters sh' = sh_limiters sh \<and> sh_current sh' = sh_current sh"
proof -
  obtain r w' where r: "session_open P (si_session si) (si_random si) (thread_world (thread_new si) sh) = (r, w')" by fastforce
  have "w_conn (thread_world (thread_new si) sh) = si_conn si" by (simp add: thread_world_def thread_new_def)
  from session_open_cases [OF r this] assms have "r = Inr (Some (ch, raw))" by auto
  with r show ?thesis by (auto simp: thread_step.simps thread_new_def perform_def Let_def)
qed

lemma race_creates_two:
  assumes "login_request si = Some (ch, raw, c)"
  shows "\<exists>ps. process_run P (process_new False sg) (replicate 8 Quiet) ps \<and> length (sh_limiters (ps_shared ps)) = 2 \<and>
    length (ps_threads ps) = 2"
proof -
  let ?p = "\<lambda>ts sh. \<lparr>ps_threads = ts, ps_shared = sh\<rparr>"
  let ?sh = "shared_new sg" and ?u = "ForAllow ch raw" and ?ps = "process_new False sg"
  have acc: "process_run P ?ps es (?p ts sh) \<Longrightarrow> process_run P ?ps (es @ [Quiet]) (?p (ts @ [thread_new si]) sh)" for es ts sh
    using process_run.step [OF _ process_step.accept] by fastforce
  have first: "process_run P ?ps es (?p [t, t'] sh) \<Longrightarrow> thread_step P t sh = (ev, u, sh') \<Longrightarrow>
      process_run P ?ps (es @ [ev]) (?p [u, t'] sh')" for es t t' u sh sh' ev
    using process_run.step [OF _ process_step.thread [of 0]] by fastforce
  have second: "process_run P ?ps es (?p [t, t'] sh) \<Longrightarrow> thread_step P t' sh = (ev, u, sh') \<Longrightarrow>
      process_run P ?ps (es @ [ev]) (?p [t, u] sh')" for es t t' u sh sh' ev
    using process_run.step [OF _ process_step.thread [of 1]] by fastforce
  obtain t1 sh1 where 1: "thread_step P (thread_new si) ?sh = (Quiet, t1, sh1)" "th_pc t1 = Testing ?u"
    "sh_limiters sh1 = []" "sh_current sh1 = None"
    using opening_step [OF assms, of P ?sh] by (auto simp: shared_new_def)
  obtain t2 sh2 where 2: "thread_step P (thread_new si) sh1 = (Quiet, t2, sh2)" "th_pc t2 = Testing ?u"
    "sh_limiters sh2 = []" "sh_current sh2 = None"
    using opening_step [OF assms, of P sh1] 1 by auto
  have "process_run P ?ps [] (?p [] ?sh)" using process_run.start [of P ?ps] by (simp add: process_new_def)
  from acc [OF acc [OF this]] have "process_run P ?ps [Quiet, Quiet] (?p [thread_new si, thread_new si] ?sh)" by simp
  from second [OF first [OF this 1(1)] 2(1)] have r: "process_run P ?ps [Quiet, Quiet, Quiet, Quiet] (?p [t1, t2] sh2)" by simp
  let ?c1 = "t1\<lparr>th_pc := Creating ?u\<rparr>" and ?c2 = "t2\<lparr>th_pc := Creating ?u\<rparr>"
  have s: "thread_step P t1 sh2 = (Quiet, ?c1, sh2)" "thread_step P t2 sh2 = (Quiet, ?c2, sh2)"
    by (simp_all add: thread_step.simps 1 2)
  let ?sh3 = "sh2\<lparr>sh_current := Some 0, sh_limiters := [fresh_limiter]\<rparr>"
  let ?sh4 = "sh2\<lparr>sh_current := Some 1, sh_limiters := [fresh_limiter, fresh_limiter]\<rparr>"
  have c: "thread_step P ?c1 sh2 = (Quiet, ?c1\<lparr>th_pc := Fetching ?u\<rparr>, ?sh3)"
    "thread_step P ?c2 ?sh3 = (Quiet, ?c2\<lparr>th_pc := Fetching ?u\<rparr>, ?sh4)"
    by (simp_all add: thread_step.simps 2)
  from second [OF first [OF second [OF first [OF r s(1)] s(2)] c(1)] c(2)] show ?thesis
    by (intro exI [of _ "?p [?c1\<lparr>th_pc := Fetching ?u\<rparr>, ?c2\<lparr>th_pc := Fetching ?u\<rparr>] ?sh4"])
      (simp add: numeral_eq_Suc)
qed


end
