(* ===== verification/Thread_Alone.thy ===== *)
theory Thread_Alone
  imports Prelude Connection Primitives Sample_Primitives Ratelimit Server Sample_Run Login_Security Concurrent
begin

text \<open>
  The steps of a thread against the session they are cut from: without interference of other threads
  they come to the end \<open>run\<close> comes to.  The operations of a session work on the connection, the OPAQUE
  object and the store and are framed against the rest of its state.
\<close>

section \<open>Framing\<close>

text \<open>The operations that neither depend on the limiter and the closing of the connection nor change them.\<close>

definition outer :: "rate_limiter option \<Rightarrow> bool \<Rightarrow> world \<Rightarrow> world" where
  "outer l b w = w\<lparr>w_limiter := l, w_closed := b\<rparr>"

definition frames :: "(world, 'a) st_res \<Rightarrow> bool" where
  "frames m \<longleftrightarrow> (\<forall>w l b. m (outer l b w) = (fst (m w), outer l b (snd (m w))))"

lemma framesD: "frames m \<Longrightarrow> m w = (r, w') \<Longrightarrow> m (outer l b w) = (r, outer l b w')"
  by (simp add: frames_def)

lemma frames_ops:
  "frames (liftS x)" "frames (retS y)" "frames (on_conn f)" "frames (on_opaque g)" "frames (on_storage h)"
  by (simp_all add: frames_def outer_def liftS_def retS_def on_conn_def on_opaque_def on_storage_def split: prod.splits)

lemma frames_alert: "frames (send_alert msg)"
  by (simp add: frames_def outer_def send_alert_def on_conn_def split: prod.splits)

lemma frames_bindS: "frames m \<Longrightarrow> (\<And>x. frames (f x)) \<Longrightarrow> frames (bindS m f)"
  unfolding frames_def bindS_def by (auto split: prod.splits sum.splits)

lemma frames_tryS: "frames m \<Longrightarrow> (\<And>e. frames (h e)) \<Longrightarrow> (\<And>x. frames (f x)) \<Longrightarrow> frames (tryS m K h f)"
  unfolding frames_def tryS_def by (auto split: prod.splits sum.splits)

lemma frames_if: "frames m \<Longrightarrow> frames n \<Longrightarrow> frames (if b then m else n)"
  by simp

lemma frames_prod: "(\<And>a b. frames (f a b)) \<Longrightarrow> frames (case x of (a, b) \<Rightarrow> f a b)"
  by (cases x) simp

lemmas framesI = frames_ops frames_alert frames_bindS frames_tryS frames_if frames_prod

lemma handle_registration_frames: "frames (handle_registration P se rnd ch raw)"
  unfolding handle_registration_def by (intro framesI)

lemma session_open_frames: "frames (session_open P se rnd)"
  unfolding session_open_def by (intro framesI handle_registration_frames)

lemma login_exchange_frames: "frames (login_exchange P se rnd ch raw)"
  unfolding login_exchange_def login_complete_def by (intro framesI)

lemma app_step_frames: "app_step P s r (outer l b w) = (fst (app_step P s r w), outer l b (snd (app_step P s r w)))"
proof -
  have "frames (bindS (liftS a) (\<lambda>m. on_conn (conn_send m)))" for a by (intro framesI)
  then have f: "bindS (liftS a) (\<lambda>m. on_conn (conn_send m)) (outer l b v) =
      (fst (bindS (liftS a) (\<lambda>m. on_conn (conn_send m)) v), outer l b (snd (bindS (liftS a) (\<lambda>m. on_conn (conn_send m)) v)))" for a v
    by (simp add: frames_def)
  have g: "on_conn conn_recv (outer l b v) = (fst (on_conn conn_recv v), outer l b (snd (on_conn conn_recv v)))"
    "send_alert msg (outer l b v) = (fst (send_alert msg v), outer l b (snd (send_alert msg v)))" for v msg
    using frames_ops(3) [of conn_recv] frames_alert by (simp_all add: frames_def)
  show ?thesis
    unfolding app_step_def g f by (simp add: g f split: prod.split sum.split)
qed

lemma app_loop_frames: "frames (app_loop P s r)"
proof -
  have "app_loop P s r (outer l b w) = (fst (app_loop P s r w), outer l b (snd (app_loop P s r w)))" for l b w
  proof (induction P s r w rule: app_loop.induct)
    case (1 P s r w)
    obtain st w1 where st: "app_step P s r w = (st, w1)" by fastforce
    then have "app_step P s r (outer l b w) = (st, outer l b w1)" by (simp add: app_step_frames)
    with 1 st show ?case by (subst (1 2 3) app_loop.simps) (simp split: loop_step.split)
  qed
  then show ?thesis by (simp add: frames_def)
qed


lemma session_body_open: "session_body P se rnd = bindS (session_open P se rnd) (\<lambda>r. case r of
    None \<Rightarrow> retS () | Some (ch, raw) \<Rightarrow> handle_login P se rnd ch raw)"
  unfolding session_body_def session_open_def by (simp add: bindS_laws cong: if_cong)

text \<open>A thread and the shared state agree with the world of a session that runs alone.\<close>

definition current_limiter :: "process_state \<Rightarrow> rate_limiter option" where
  "current_limiter sh = map_option ((!) (sh_limiters sh)) (sh_current sh)"

definition agrees :: "thread \<Rightarrow> process_state \<Rightarrow> world \<Rightarrow> bool" where
  "agrees t sh w \<longleftrightarrow> th_conn t = w_conn w \<and> th_opaque t = w_opaque w \<and> sh_storage sh = w_storage w \<and>
     current_limiter sh = w_limiter w \<and> current_ok sh"

lemma perform_agrees:
  assumes "frames m" and "agrees t sh w" and "m w = (r, w')"
  obtains t' sh' where "perform m next t sh = (t', sh')" "agrees t' sh' w'" "th_input t' = th_input t"
    "th_pc t' = (case r of Inl e \<Rightarrow> Done (end_of r) | Inr x \<Rightarrow> next x)"
proof -
  have "thread_world t sh = outer None False w" using assms(2) by (simp add: thread_world_def outer_def agrees_def)
  with framesD [OF assms(1,3)] have "m (thread_world t sh) = (r, outer None False w')" by simp
  moreover have "w_limiter w' = w_limiter w"
  proof -
    have "outer (w_limiter w) (w_closed w) w = w" by (simp add: outer_def)
    with framesD [OF assms(1,3), of "w_limiter w" "w_closed w"] assms(3)
    have "w' = outer (w_limiter w) (w_closed w) w'" by simp
    from arg_cong [OF this, of w_limiter] show ?thesis by (simp add: outer_def)
  qed
  moreover obtain t' sh' where p: "perform m next t sh = (t', sh')" by fastforce
  ultimately show ?thesis
    using assms(2)
    by (intro that [OF p]) (auto simp: perform_def agrees_def outer_def current_limiter_def current_ok_def)
qed

fun thread_steps :: "prims \<Rightarrow> nat \<Rightarrow> thread \<Rightarrow> process_state \<Rightarrow> thread \<times> process_state" where
  "thread_steps P 0 t sh = (t, sh)"
| "thread_steps P (Suc n) t sh = (case thread_step P t sh of (_, t, sh) \<Rightarrow> thread_steps P n t sh)"

lemma thread_steps_done: "th_pc t = Done e \<Longrightarrow> thread_steps P n t sh = (t, sh)"
  by (induction n) (simp_all add: thread_step.simps)

text \<open>\<open>get_limiter\<close> of a thread that nobody interrupts ends at the current limiter, which it creates if need be.\<close>

lemma get_limiter_alone:
  assumes "th_pc t = Testing u" and "agrees t sh w"
  obtains k i sh' where "k \<le> 3" "\<And>n. thread_steps P (k + n) t sh = thread_steps P n (t\<lparr>th_pc := Calling i u\<rparr>) sh'"
    "sh_current sh' = Some i" "agrees t sh' (w\<lparr>w_limiter := Some (get_limiter (w_limiter w))\<rparr>)"
proof (cases "sh_current sh")
  case None
  let ?sh = "sh\<lparr>sh_current := Some (length (sh_limiters sh)), sh_limiters := sh_limiters sh @ [fresh_limiter]\<rparr>"
  have "thread_steps P (3 + n) t sh = thread_steps P n (t\<lparr>th_pc := Calling (length (sh_limiters sh)) u\<rparr>) ?sh" for n
    by (simp add: numeral_3_eq_3 thread_step.simps assms(1) None)
  moreover have "agrees t ?sh (w\<lparr>w_limiter := Some (get_limiter (w_limiter w))\<rparr>)"
    using assms(2) None by (auto simp: agrees_def current_limiter_def current_ok_def get_limiter_def fresh_limiter_def)
  ultimately show ?thesis by (intro that [of 3]) simp_all
next
  case (Some i)
  have "thread_steps P (2 + n) t sh = thread_steps P n (t\<lparr>th_pc := Calling i u\<rparr>) sh" for n
    by (simp add: numeral_2_eq_2 thread_step.simps assms(1) Some)
  moreover have "w_limiter w = Some (get_limiter (w_limiter w))"
    using assms(2) Some by (auto simp: agrees_def current_limiter_def get_limiter_def dest: sym [of "Some _"])
  then have "agrees t sh (w\<lparr>w_limiter := Some (get_limiter (w_limiter w))\<rparr>)"
    using assms(2) Some by (simp add: agrees_def current_limiter_def)
  ultimately show ?thesis by (intro that [of 2]) (simp_all add: Some)
qed


text \<open>Left alone, the thread comes to its end with the result \<open>r\<close> and the world \<open>w\<close>.\<close>

definition finishes :: "prims \<Rightarrow> thread \<Rightarrow> process_state \<Rightarrow> unit res \<Rightarrow> world \<Rightarrow> bool" where
  "finishes P t sh r w \<longleftrightarrow> (\<exists>n t' sh'. thread_steps P n t sh = (t', sh') \<and> th_pc t' = Done (end_of r) \<and> agrees t' sh' w)"

lemma finishes_done: "th_pc t = Done (end_of r) \<Longrightarrow> agrees t sh w \<Longrightarrow> finishes P t sh r w"
  unfolding finishes_def by (intro exI [of _ 0]) simp

lemma finishes_step: "thread_step P t sh = (ev, t1, sh1) \<Longrightarrow> finishes P t1 sh1 r w \<Longrightarrow> finishes P t sh r w"
proof -
  assume "thread_step P t sh = (ev, t1, sh1)" and "finishes P t1 sh1 r w"
  then obtain n where "thread_steps P (Suc n) t sh = thread_steps P n t1 sh1"
    "\<exists>t' sh'. thread_steps P n t1 sh1 = (t', sh') \<and> th_pc t' = Done (end_of r) \<and> agrees t' sh' w"
    by (auto simp: finishes_def)
  then show ?thesis unfolding finishes_def by metis
qed

lemma finishes_steps: "(\<And>n. thread_steps P (k + n) t sh = thread_steps P n t1 sh1) \<Longrightarrow> finishes P t1 sh1 r w \<Longrightarrow> finishes P t sh r w"
  unfolding finishes_def by metis

lemma finishes_echoing:
  assumes "th_pc t = Echoing s d" and "agrees t sh w" and "app_loop P s d w = (r, w')"
  shows "finishes P t sh r w'"
proof -
  obtain t' sh' where p: "perform (app_loop P s d) (\<lambda>_. Done Completed) t sh = (t', sh')" "agrees t' sh' w'"
    "th_pc t' = (case r of Inl e \<Rightarrow> Done (end_of r) | Inr x \<Rightarrow> Done Completed)"
    by (rule perform_agrees [OF app_loop_frames assms(2,3)])
  have "thread_step P t sh = (Quiet, t', sh')" by (simp add: thread_step.simps assms(1) p(1))
  then show ?thesis
    by (rule finishes_step) (rule finishes_done, use p in \<open>auto simp: end_of_def split: sum.splits\<close>)
qed

lemma agrees_call:
  assumes "agrees t sh w" and "sh_current sh = Some i" and "step_call c (sh_limiters sh ! i) = (b, rl)"
  shows "agrees (t\<lparr>th_pc := pc\<rparr>) (sh\<lparr>sh_limiters := (sh_limiters sh)[i := rl]\<rparr>) (w\<lparr>w_limiter := Some rl\<rparr>)"
  using assms by (auto simp: agrees_def current_limiter_def current_ok_def)

lemma agrees_limiter: "agrees t sh w \<Longrightarrow> sh_current sh = Some i \<Longrightarrow> w_limiter w = Some (sh_limiters sh ! i)"
  by (auto simp: agrees_def current_limiter_def dest: sym)

lemma finishes_reset:
  assumes "th_pc t = Testing (ForReset ch s d)" and a: "agrees t sh w"
    and "bindS (limiter_reset (se_ip (si_session (th_input t))) (ch_credential_id ch)) (\<lambda>_. app_loop P s d) w = (r, w')"
  shows "finishes P t sh r w'"
proof -
  obtain k i sh1 where g: "\<And>n. thread_steps P (k + n) t sh = thread_steps P n (t\<lparr>th_pc := Calling i (ForReset ch s d)\<rparr>) sh1"
    "sh_current sh1 = Some i" "agrees t sh1 (w\<lparr>w_limiter := Some (get_limiter (w_limiter w))\<rparr>)"
    using get_limiter_alone [OF assms(1) a] by metis
  let ?t = "t\<lparr>th_pc := Calling i (ForReset ch s d)\<rparr>"
  let ?c = "Reset (se_ip (si_session (th_input t))) (ch_credential_id ch)"
  let ?rl = "snd (step_call ?c (sh_limiters sh1 ! i))"
  have l: "get_limiter (w_limiter w) = sh_limiters sh1 ! i" using agrees_limiter [OF g(3,2)] by simp
  have e: "app_loop P s d (w\<lparr>w_limiter := Some ?rl\<rparr>) = (r, w')"
    using assms(3) by (simp add: bindS_def limiter_reset_def l)
  have "agrees (?t\<lparr>th_pc := Echoing s d\<rparr>) (sh1\<lparr>sh_limiters := (sh_limiters sh1)[i := ?rl]\<rparr>)
      (w\<lparr>w_limiter := Some (get_limiter (w_limiter w)), w_limiter := Some ?rl\<rparr>)"
    using agrees_call [OF g(3,2), of ?c True ?rl "Echoing s d"] by (simp add: agrees_def)
  then have f: "finishes P (?t\<lparr>th_pc := Echoing s d\<rparr>) (sh1\<lparr>sh_limiters := (sh_limiters sh1)[i := ?rl]\<rparr>) r w'"
    by (intro finishes_echoing [OF _ _ e]) simp_all
  show ?thesis
    by (rule finishes_steps [OF g(1)], rule finishes_step [OF _ f]) (simp add: thread_step.simps Let_def)
qed

lemma finishes_admitted:
  assumes "th_pc t = Admitted ch raw" and a: "agrees t sh w"
    and "bindS (login_exchange P (si_session (th_input t)) (si_random (th_input t)) ch raw) (\<lambda>r. case r of
       None \<Rightarrow> retS ()
     | Some (s, d) \<Rightarrow> bindS (limiter_reset (se_ip (si_session (th_input t))) (ch_credential_id ch)) (\<lambda>_. app_loop P s d)) w = (r, w')"
  shows "finishes P t sh r w'"
proof -
  let ?m = "login_exchange P (si_session (th_input t)) (si_random (th_input t)) ch raw"
  let ?n = "\<lambda>r. case r of None \<Rightarrow> Done Completed | Some (s, d) \<Rightarrow> Testing (ForReset ch s d)"
  obtain x w1 where x: "?m w = (x, w1)" by fastforce
  obtain t' sh' where p: "perform ?m ?n t sh = (t', sh')" "agrees t' sh' w1" "th_input t' = th_input t"
    "th_pc t' = (case x of Inl e \<Rightarrow> Done (end_of x) | Inr y \<Rightarrow> ?n y)"
    by (rule perform_agrees [OF login_exchange_frames a x])
  have s: "thread_step P t sh = (Quiet, t', sh')" by (simp add: thread_step.simps assms(1) p(1) Let_def)
  have "finishes P t' sh' r w'"
  proof (cases "\<exists>s d. x = Inr (Some (s, d))")
    case True
    then obtain s d where "x = Inr (Some (s, d))" by blast
    with assms(3) x p show ?thesis by (intro finishes_reset [of t' ch s d]) (simp_all add: bindS_def)
  next
    case False
    with assms(3) x have "w' = w1" "th_pc t' = Done (end_of r)"
      by (auto simp: bindS_def retS_def p(4) end_of_def split: sum.splits option.splits)
    with p(2) show ?thesis by (intro finishes_done) simp_all
  qed
  with s show ?thesis by (rule finishes_step)
qed

lemma handle_login_admitted:
  "handle_login P se rnd ch raw w = (case allow (sr_now_limiter rnd) (se_ip se) (ch_credential_id ch) (get_limiter (w_limiter w)) of
     (b, rl) \<Rightarrow> if b then bindS (login_exchange P se rnd ch raw) (\<lambda>r. case r of
         None \<Rightarrow> retS ()
       | Some (s, d) \<Rightarrow> bindS (limiter_reset (se_ip se) (ch_credential_id ch)) (\<lambda>_. app_loop P s d)) (w\<lparr>w_limiter := Some rl\<rparr>)
     else send_alert rate_message (w\<lparr>w_limiter := Some rl\<rparr>))"
  by (simp add: handle_login_def login_handshake_def bindS_laws limiter_allow_def rate_message_def
      bindS_def [of "limiter_allow _ _ _"] split: prod.split)


lemma finishes_login:
  assumes "th_pc t = Testing (ForAllow ch raw)" and a: "agrees t sh w"
    and "handle_login P (si_session (th_input t)) (si_random (th_input t)) ch raw w = (r, w')"
  shows "finishes P t sh r w'"
proof -
  obtain k i sh1 where g: "\<And>n. thread_steps P (k + n) t sh = thread_steps P n (t\<lparr>th_pc := Calling i (ForAllow ch raw)\<rparr>) sh1"
    "sh_current sh1 = Some i" "agrees t sh1 (w\<lparr>w_limiter := Some (get_limiter (w_limiter w))\<rparr>)"
    using get_limiter_alone [OF assms(1) a] by metis
  let ?t = "t\<lparr>th_pc := Calling i (ForAllow ch raw)\<rparr>"
  let ?c = "Allow (sr_now_limiter (si_random (th_input t))) (se_ip (si_session (th_input t))) (ch_credential_id ch)"
  obtain b rl where b: "step_call ?c (sh_limiters sh1 ! i) = (b, rl)" by fastforce
  let ?sh = "sh1\<lparr>sh_limiters := (sh_limiters sh1)[i := rl]\<rparr>"
  have l: "get_limiter (w_limiter w) = sh_limiters sh1 ! i" using agrees_limiter [OF g(3,2)] by simp
  have ag: "agrees (t\<lparr>th_pc := pc\<rparr>) ?sh (w\<lparr>w_limiter := Some rl\<rparr>)" for pc
    using agrees_call [OF g(3,2) b] by (simp add: agrees_def)
  have "finishes P ?t sh1 r w'"
  proof (cases b)
    case True
    define u where "u = ?t\<lparr>th_pc := Admitted ch raw\<rparr>"
    have u: "th_input u = th_input t" "th_pc u = Admitted ch raw" "agrees u ?sh (w\<lparr>w_limiter := Some rl\<rparr>)"
      using ag [of "Admitted ch raw"] by (simp_all add: u_def)
    have "finishes P u ?sh r w'"
      by (rule finishes_admitted [OF u(2,3)], unfold u(1)) (use assms(3) b True in \<open>simp add: handle_login_admitted l\<close>)
    moreover have "thread_step P ?t sh1 = (Called i ?c b, ?t\<lparr>th_pc := Admitted ch raw\<rparr>, ?sh)"
      using b True by (simp add: thread_step.simps Let_def)
    ultimately show ?thesis unfolding u_def by (metis finishes_step)
  next
    case False
    with assms(3) b have r: "send_alert rate_message (w\<lparr>w_limiter := Some rl\<rparr>) = (r, w')" by (simp add: handle_login_admitted l)
    then have "end_of r = Completed" by (auto simp: send_alert_def end_of_def split: prod.splits)
    obtain t' sh' where p: "perform (send_alert rate_message) (\<lambda>_. Done Completed) ?t ?sh = (t', sh')" "agrees t' sh' w'"
      "th_pc t' = (case r of Inl e \<Rightarrow> Done (end_of r) | Inr x \<Rightarrow> Done Completed)"
      by (rule perform_agrees [OF frames_alert _ r]) (use ag [of "Calling i (ForAllow ch raw)"] in simp)
    have "thread_step P ?t sh1 = (Called i ?c b, t', sh')"
      using b False p(1) by (simp add: thread_step.simps Let_def)
    then show ?thesis
      by (rule finishes_step) (rule finishes_done, use p \<open>end_of r = Completed\<close> in \<open>simp_all split: sum.splits\<close>)
  qed
  with finishes_steps [OF g(1)] show ?thesis by blast
qed

lemma finishes_starting:
  assumes "th_pc t = Starting" and a: "agrees t sh w"
    and "session_body P (si_session (th_input t)) (si_random (th_input t)) w = (r, w')"
  shows "finishes P t sh r w'"
proof -
  let ?m = "session_open P (si_session (th_input t)) (si_random (th_input t))"
  let ?n = "\<lambda>r. case r of None \<Rightarrow> Done Completed | Some (ch, raw) \<Rightarrow> Testing (ForAllow ch raw)"
  obtain x w1 where x: "?m w = (x, w1)" by fastforce
  obtain t' sh' where p: "perform ?m ?n t sh = (t', sh')" "agrees t' sh' w1" "th_input t' = th_input t"
    "th_pc t' = (case x of Inl e \<Rightarrow> Done (end_of x) | Inr y \<Rightarrow> ?n y)"
    by (rule perform_agrees [OF session_open_frames a x])
  have s: "thread_step P t sh = (Quiet, t', sh')" by (simp add: thread_step.simps assms(1) p(1) Let_def)
  have "finishes P t' sh' r w'"
  proof (cases "\<exists>ch raw. x = Inr (Some (ch, raw))")
    case True
    then obtain ch raw where "x = Inr (Some (ch, raw))" by blast
    with assms(3) x p show ?thesis by (intro finishes_login [of t' ch raw]) (simp_all add: session_body_open bindS_def)
  next
    case False
    with assms(3) x have "w' = w1" "th_pc t' = Done (end_of r)"
      by (auto simp: session_body_open bindS_def retS_def p(4) end_of_def split: sum.splits option.splits)
    with p(2) show ?thesis by (intro finishes_done) simp_all
  qed
  with s show ?thesis by (rule finishes_step)
qed

lemma thread_alone_run:
  assumes "current_ok sh"
  shows "\<exists>n t' sh' e w. thread_steps P n (thread_new si) sh = (t', sh') \<and>
    run P (si_session si) (si_random si) (session_new (si_session si) (si_conn si) (current_limiter sh) (sh_storage sh)) = (e, w) \<and>
    th_pc t' = Done e \<and> th_conn t' = w_conn w \<and> sh_storage sh' = w_storage w \<and> current_limiter sh' = w_limiter w \<and>
    current_ok sh'"
proof -
  let ?w = "session_new (si_session si) (si_conn si) (current_limiter sh) (sh_storage sh)"
  obtain r w' where r: "session_body P (si_session si) (si_random si) ?w = (r, w')" by fastforce
  have t: "th_pc (thread_new si) = Starting" "th_input (thread_new si) = si" "agrees (thread_new si) sh ?w"
    using assms by (simp_all add: thread_new_def agrees_def session_new_def)
  have "finishes P (thread_new si) sh r w'"
    by (rule finishes_starting [OF t(1,3)]) (simp add: t(2) r)
  moreover have "run P (si_session si) (si_random si) ?w = (end_of r, w'\<lparr>w_closed := True\<rparr>)"
    by (simp add: run_def r end_of_def split: sum.split)
  ultimately show ?thesis by (auto simp: finishes_def agrees_def)
qed

section \<open>Properties\<close>



end
