(* ===== verification/Thread_Traces.thy ===== *)
theory Thread_Traces
  imports Prelude Codec Framing Connection Primitives Sample_Primitives Kdf Record_Layer Ratelimit Server_Config Storage
    Pki Opaque Server Echo_Loop Handshake Sample_Run Session_Machine Login_Security Concurrent
begin

text \<open>
  What each thread of the server sends, at any moment of any interleaving: a trace of the session
  machine, whatever the other threads do to the limiters and the store.
\<close>

section \<open>What a thread has sent\<close>

definition said :: "thread \<Rightarrow> int list \<Rightarrow> bool" where
  "said t ts \<longleftrightarrow> (\<exists>ms. cn_out (th_conn t) = cn_out (si_conn (th_input t)) @ map frame_of ms \<and> [] \<notin> set ms \<and>
     map (\<lambda>m. uint (hd m)) ms = ts)"

abbreviation traces :: "int list set" where
  "traces \<equiv> {ts. \<exists>q. session_trace Fresh ts q}"

text \<open>The tags a thread can have sent by the point where it is.\<close>

fun allowed :: "session_pc \<Rightarrow> int list set" where
  "allowed (Testing (ForReset ch s d)) = {[TAG_SERVER_HELLO]}"
| "allowed (Creating (ForReset ch s d)) = {[TAG_SERVER_HELLO]}"
| "allowed (Fetching (ForReset ch s d)) = {[TAG_SERVER_HELLO]}"
| "allowed (Calling i (ForReset ch s d)) = {[TAG_SERVER_HELLO]}"
| "allowed (Echoing s d) = {[TAG_SERVER_HELLO]}"
| "allowed (Done e) = traces"
| "allowed _ = {[]}"

definition tags_ok :: "thread \<Rightarrow> bool" where
  "tags_ok t \<longleftrightarrow> (\<exists>ts \<in> allowed (th_pc t). said t ts)"

lemma allowed_traces: "allowed pc \<subseteq> traces"
  using short_traces by (cases pc rule: allowed.cases) auto

lemma said_pc [simp]: "said (t\<lparr>th_pc := pc\<rparr>) = said t"
  by (intro ext) (simp add: said_def)

lemma tags_ok_pc: "tags_ok t \<Longrightarrow> allowed pc = allowed (th_pc t) \<Longrightarrow> tags_ok (t\<lparr>th_pc := pc\<rparr>)"
  by (simp add: tags_ok_def)

lemma perform_tags:
  assumes "sends m A B" and "said t ts" and "\<And>x us. us \<in> A x \<Longrightarrow> ts @ us \<in> allowed (next x)"
    and "\<And>us. us \<in> B \<Longrightarrow> ts @ us \<in> traces"
  shows "tags_ok (fst (perform m next t sh))"
proof -
  obtain r w' where r: "m (thread_world t sh) = (r, w')" by fastforce
  with assms(1) obtain us where us: "us \<in> (case r of Inr x \<Rightarrow> A x | Inl _ \<Rightarrow> B)" "emits (thread_world t sh) w' us"
    unfolding sends_def by blast
  have t': "fst (perform m next t sh) = t\<lparr>th_conn := w_conn w', th_opaque := w_opaque w',
      th_pc := (case r of Inl e \<Rightarrow> Done (end_of r) | Inr x \<Rightarrow> next x)\<rparr>"
    by (simp add: perform_def r)
  from assms(2) us(2) have "said (fst (perform m next t sh)) (ts @ us)"
    unfolding t' said_def emits_def by (elim exE conjE, rule_tac x = "msa @ ms" in exI) (auto simp: thread_world_def)
  moreover have "ts @ us \<in> allowed (th_pc (fst (perform m next t sh)))"
    using us(1) assms(3,4) by (cases r) (simp_all add: t')
  ultimately show ?thesis unfolding tags_ok_def by blast
qed

section \<open>The operations of a thread\<close>

lemma sends_then_ret:
  assumes "sends m (\<lambda>_. A) B" and "A \<subseteq> C y"
  shows "sends (bindS m (\<lambda>_. retS y)) C B"
  unfolding sends_def
proof (intro allI impI)
  fix w r w' assume b: "bindS m (\<lambda>_. retS y) w = (r, w')"
  obtain x w1 where x: "m w = (x, w1)" by fastforce
  with assms(1) obtain ts where "ts \<in> (case x of Inr _ \<Rightarrow> A | Inl _ \<Rightarrow> B)" "emits w w1 ts" unfolding sends_def by blast
  with b x assms(2) show "\<exists>ts \<in> (case r of Inr x \<Rightarrow> C x | Inl _ \<Rightarrow> B). emits w w' ts"
    by (cases x) (auto simp: bindS_def retS_def subset_iff)
qed

lemma session_open_sends:
  "sends (session_open P se rnd) (\<lambda>r. case r of None \<Rightarrow> traces | Some _ \<Rightarrow> {[]}) traces"
proof -
  let ?A = "\<lambda>r :: (parsed_client_hello \<times> bytes) option. case r of None \<Rightarrow> traces | Some _ \<Rightarrow> {[]}"
  have nil: "[] \<in> traces" using short_traces(1) by blast
  have alert: "sends (bindS (send_alert m) (\<lambda>_. retS None)) ?A traces" for m
    by (rule sends_then_ret [OF sends_mono [OF sends_alert, where C = "\<lambda>_. traces" and D = traces]]) (use short_traces in auto)
  have reg: "sends (bindS (handle_registration P se rnd ch raw) (\<lambda>_. retS None)) ?A traces" for ch raw
    by (rule sends_then_ret [OF sends_mono [OF handle_registration_sends, where C = "\<lambda>_. traces" and D = traces]])
      (use short_traces in auto)
  have login: "sends (retS (Some (ch, raw))) ?A traces" for ch raw
    by (auto simp: sends_def retS_eq intro: emits_refl)
  show ?thesis
    unfolding session_open_def by (intro sendsI alert reg login nil)
qed

section \<open>Every thread, at every moment\<close>

lemma thread_step_tags:
  assumes "thread_step P t sh = (ev, t', sh')" and ok: "tags_ok t"
  shows "tags_ok t'"
proof (cases "th_pc t")
  case Starting
  let ?next = "\<lambda>r. case r of None \<Rightarrow> Done Completed | Some (ch, raw) \<Rightarrow> Testing (ForAllow ch raw)"
  from assms(1) Starting have t': "t' = fst (perform (session_open P (si_session (th_input t)) (si_random (th_input t))) ?next t sh)"
    by (simp add: thread_step.simps Let_def)
  have "said t []" using ok Starting by (simp add: tags_ok_def)
  then show ?thesis
    unfolding t' by (rule perform_tags [OF session_open_sends]) (auto split: option.splits)
next
  case (Testing u)
  with assms show ?thesis by (cases u) (auto simp: thread_step.simps Let_def split: if_splits intro!: tags_ok_pc)
next
  case (Creating u)
  with assms show ?thesis by (cases u) (auto simp: thread_step.simps Let_def intro!: tags_ok_pc)
next
  case (Fetching u)
  with assms show ?thesis by (cases u) (auto simp: thread_step.simps Let_def intro!: tags_ok_pc split: option.splits)
next
  case (Calling i u)
  show ?thesis
  proof (cases u)
    case (ForAllow ch raw)
    have s: "said t []" using ok Calling ForAllow by (simp add: tags_ok_def)
    have denied: "tags_ok (fst (perform (send_alert rate_message) (\<lambda>_. Done Completed) t sh1))" for sh1
      by (rule perform_tags [OF sends_alert s]) (use short_traces in auto)
    show ?thesis
      using assms(1) Calling ForAllow s denied
      by (auto simp: thread_step.simps Let_def tags_ok_def split: prod.splits if_splits) (metis fst_conv tags_ok_def)+
  next
    case (ForReset ch s d)
    with assms Calling show ?thesis by (auto simp: thread_step.simps Let_def intro!: tags_ok_pc)
  qed
next
  case (Admitted ch raw)
  let ?next = "\<lambda>r. case r of None \<Rightarrow> Done Completed | Some (s, d) \<Rightarrow> Testing (ForReset ch s d)"
  from assms(1) Admitted have t': "t' = fst (perform (login_exchange P (si_session (th_input t)) (si_random (th_input t)) ch raw) ?next t sh)"
    by (simp add: thread_step.simps Let_def)
  have "said t []" using ok Admitted by (simp add: tags_ok_def)
  then show ?thesis
    unfolding t' by (rule perform_tags [OF login_exchange_sends])
      (use short_traces in \<open>auto simp: handshake_tags_def split: option.splits\<close>)
next
  case (Echoing s d)
  from assms(1) Echoing have t': "t' = fst (perform (app_loop P s d) (\<lambda>_. Done Completed) t sh)"
    by (simp add: thread_step.simps Let_def)
  let ?echoes = "{ts. \<exists>n. ts = replicate n TAG_APP_DATA \<or> ts = replicate n TAG_APP_DATA @ [TAG_ALERT]}"
  have s: "said t [TAG_SERVER_HELLO]" using ok Echoing by (simp add: tags_ok_def)
  have e: "[TAG_SERVER_HELLO] @ us \<in> traces" if "us \<in> ?echoes" for us
    using that login_traces session_trace.Cons [OF Answer_login] by fastforce
  have d: "[TAG_SERVER_HELLO] @ us \<in> allowed (Done Completed)" if "us \<in> ?echoes" for us
    using e [OF that] by (simp only: allowed.simps)
  show ?thesis unfolding t' by (rule perform_tags [OF echo_loop_sends s d e])
next
  case (Done e)
  with assms show ?thesis by (auto simp: thread_step.simps)
qed

lemma process_run_tags: "process_run P (process_new warm sg) es ps \<Longrightarrow> t \<in> set (ps_threads ps) \<Longrightarrow> tags_ok t"
proof (induction arbitrary: t rule: process_run.induct)
  case start
  then show ?case by (simp add: process_new_def)
next
  case (step es ps ev ps')
  from step.hyps(2) show ?case
  proof cases
    case (accept si)
    have "tags_ok (thread_new si)" by (simp add: tags_ok_def thread_new_def said_def)
    with accept step.prems step.IH show ?thesis by auto
  next
    case (thread i u sh)
    have "tags_ok u" by (rule thread_step_tags [OF thread(3)]) (use step.IH thread(2) in simp)
    moreover have "t = u \<or> t \<in> set (ps_threads ps)"
      using step.prems thread(1) set_update_subset_insert [of "ps_threads ps" i u] by auto
    ultimately show ?thesis using step.IH by blast
  qed
qed

section \<open>Property\<close>

text \<open>
  C6: whatever the peers send, whichever socket operations fail and however the threads of the server are
  interleaved on the limiters and the store, at every moment the bytes a thread has written are whole
  frames of non-empty messages, and their tags form a trace of the session machine: nothing but a
  ServerHello or one alert comes first, a registration continues with at most a Close, a login with at
  most one alert or with application data records and at most one alert after them, and nothing
  follows an alert or a Close (\<open>trace_final\<close>, \<open>trace_hello_first\<close>).
\<close>

theorem threads_follow_grammar:
  assumes "process_run P (process_new warm sg) es ps" and "t \<in> set (ps_threads ps)"
  shows "\<exists>ms q. cn_out (th_conn t) = cn_out (si_conn (th_input t)) @ map frame_of ms \<and> [] \<notin> set ms \<and>
    session_trace Fresh (map (\<lambda>m. uint (hd m)) ms) q"
  using process_run_tags [OF assms] allowed_traces [of "th_pc t"] unfolding tags_ok_def said_def by blast

theorem threads_follow_grammar_witness:
  "\<exists>es ps. process_run sample (process_new False sample_storage) es ps \<and> length (ps_threads ps) = 2 \<and>
     (\<forall>t \<in> set (ps_threads ps). \<exists>ms q. cn_out (th_conn t) = cn_out (si_conn (th_input t)) @ map frame_of ms \<and>
        session_trace Fresh (map (\<lambda>m. uint (hd m)) ms) q)"
proof -
  from sample_guess obtain si ch raw c where "login_request si = Some (ch, raw, c)" by blast
  from race_creates_two [OF this, of sample sample_storage] obtain ps where
    ps: "process_run sample (process_new False sample_storage) (replicate 8 Quiet) ps" "length (ps_threads ps) = 2" by blast
  from threads_follow_grammar [OF ps(1)] ps show ?thesis by blast
qed

end
