(* ===== verification/Interleaving.thy ===== *)
theory Interleaving
  imports Prelude
begin

text \<open>
  Threads that take turns on a shared state, in any order, while new ones arrive.  The locale
  \<open>isolated_threads\<close> states when one of them cannot notice the others: it then is, at every moment, where
  its own turns alone would have brought it.
\<close>

section \<open>Schedules\<close>

datatype 't turn = Arrive 't | Turn nat

fun exec_turn :: "('t \<Rightarrow> 's \<Rightarrow> 't \<times> 's) \<Rightarrow> 't turn \<Rightarrow> 't list \<times> 's \<Rightarrow> 't list \<times> 's" where
  "exec_turn step (Arrive t) (ts, s) = (ts @ [t], s)"
| "exec_turn step (Turn i) (ts, s) =
     (if i < length ts then (case step (ts ! i) s of (t, s) \<Rightarrow> (ts[i := t], s)) else (ts, s))"

definition exec :: "('t \<Rightarrow> 's \<Rightarrow> 't \<times> 's) \<Rightarrow> 't turn list \<Rightarrow> 't list \<times> 's \<Rightarrow> 't list \<times> 's" where
  "exec step sched = fold (exec_turn step) sched"

text \<open>The turns of one thread, on its own.\<close>

fun solo :: "('t \<Rightarrow> 's \<Rightarrow> 't \<times> 's) \<Rightarrow> nat \<Rightarrow> 't \<Rightarrow> 's \<Rightarrow> 't \<times> 's" where
  "solo step 0 t s = (t, s)"
| "solo step (Suc n) t s = (case step t s of (t, s) \<Rightarrow> solo step n t s)"

fun arrivals :: "'t turn list \<Rightarrow> 't list" where
  "arrivals [] = []"
| "arrivals (Arrive t # sched) = t # arrivals sched"
| "arrivals (Turn i # sched) = arrivals sched"

fun turns_of :: "nat \<Rightarrow> 't turn list \<Rightarrow> nat" where
  "turns_of i [] = 0"
| "turns_of i (Arrive t # sched) = turns_of i sched"
| "turns_of i (Turn j # sched) = (if j = i then 1 else 0) + turns_of i sched"

lemma exec_simps [simp]:
  "exec step [] st = st" "exec step (ev # sched) st = exec step sched (exec_turn step ev st)"
  by (simp_all add: exec_def)

lemma exec_length: "length ts \<le> length (fst (exec step sched (ts, s)))"
proof (induction sched arbitrary: ts s)
  case (Cons ev sched)
  obtain us v where u: "exec_turn step ev (ts, s) = (us, v)" by fastforce
  then have "length ts \<le> length us" by (cases ev) (auto split: if_splits prod.splits)
  with Cons.IH [of us v] u show ?case by simp
qed simp

lemma solo_add: "solo step (m + n) t s = (case solo step m t s of (t, s) \<Rightarrow> solo step n t s)"
  by (induction m arbitrary: t s) (simp_all split: prod.split)

section \<open>Isolation\<close>

text \<open>
  \<open>same s s'\<close>: the observed thread sees no difference.  Its own steps are the same on both states and
  keep them alike; a step of a foreign thread leaves the state like itself.
\<close>

locale isolated_threads =
  fixes step :: "'t \<Rightarrow> 's \<Rightarrow> 't \<times> 's" and same :: "'s \<Rightarrow> 's \<Rightarrow> bool" and own :: "'t \<Rightarrow> bool" and foreign :: "'t \<Rightarrow> bool"
  assumes consistent: "own t \<Longrightarrow> same s s' \<Longrightarrow> step t s = (u, v) \<Longrightarrow> step t s' = (u', v') \<Longrightarrow>
      u' = u \<and> own u \<and> same v v'"
    and respects: "foreign t \<Longrightarrow> same s s' \<Longrightarrow> step t s = (u, v) \<Longrightarrow> foreign u \<and> same v s'"
begin

lemma isolated:
  assumes "i < length ts" and "own (ts ! i)" and "\<And>j. j < length ts \<Longrightarrow> j \<noteq> i \<Longrightarrow> foreign (ts ! j)"
    and "\<forall>t \<in> set (arrivals sched). foreign t" and "same s s'"
    and "exec step sched (ts, s) = (us, v)" and "solo step (turns_of i sched) (ts ! i) s' = (u', v')"
  shows "us ! i = u' \<and> same v v'"
  using assms
proof (induction sched arbitrary: ts s s')
  case (Cons ev sched)
  show ?case
  proof (cases ev)
    case (Arrive t)
    show ?thesis
      by (rule Cons.IH [of "ts @ [t]" s s'])
        (use Cons.prems Arrive in \<open>auto simp: nth_append less_Suc_eq\<close>)
  next
    case (Turn j)
    show ?thesis
    proof (cases "j < length ts")
      case False
      with Turn Cons.prems(1) have "exec step sched (ts, s) = (us, v)" "turns_of i (ev # sched) = turns_of i sched"
        using Cons.prems(6) by auto
      with Cons.prems Turn show ?thesis by (intro Cons.IH [of ts s s']) auto
    next
      case True
      obtain t1 s1 where st: "step (ts ! j) s = (t1, s1)" by fastforce
      have e: "exec step sched (ts[j := t1], s1) = (us, v)" using Cons.prems(6) Turn True st by simp
      show ?thesis
      proof (cases "j = i")
        case True
        obtain t2 s2 where st': "step (ts ! i) s' = (t2, s2)" by fastforce
        have c: "t2 = t1" "own t1" "same s1 s2"
          using consistent [OF Cons.prems(2,5) st [unfolded True] st'] by simp_all
        have "solo step (turns_of i sched) t1 s2 = (u', v')" using Cons.prems(7) Turn True st' c(1) by simp
        with Cons.prems c True e show ?thesis
          by (intro Cons.IH [of "ts[j := t1]" s1 s2]) (auto simp: Turn)
      next
        case False
        have r: "foreign t1" "same s1 s'"
          using respects [OF Cons.prems(3) [OF \<open>j < length ts\<close> False] Cons.prems(5) st] by simp_all
        have n: "ts[j := t1] ! k = (if k = j then t1 else ts ! k)" if "k < length ts" for k
          using that by (simp add: nth_list_update)
        with Cons.prems r False e show ?thesis
          by (intro Cons.IH [of "ts[j := t1]" s1 s']) (auto simp: Turn)
      qed
    qed
  qed
qed simp

end

end
