(* ===== verification/Isolation.thy ===== *)
theory Isolation
  imports Prelude Hex Codec Connection Primitives Sample_Primitives Kdf Record_Layer Ratelimit Storage Opaque Server
    Sample_Run Login_Security Concurrent Thread_Alone Interleaving
begin

text \<open>
  Users of the server do not get in each other's way.  The threads of the server share the limiter and the
  record store, but a session touches one user's entries in them only; so a session whose user no other
  session asks for is at every moment where its own steps alone would have brought it, and ends as \<open>run\<close>
  does.  The locale \<open>isolated_threads\<close> is interpreted on the threads of the server.
\<close>

section \<open>One user's record in the store\<close>

definition users_view :: "bytes \<Rightarrow> storage \<Rightarrow> json_record option" where
  "users_view c sg = users_dict (snd (users_db sg)) (hex_str c)"

definition same_store :: "bytes \<Rightarrow> storage \<Rightarrow> storage \<Rightarrow> bool" where
  "same_store c sg sg' \<longleftrightarrow> users_ready sg \<and> users_ready sg' \<and> users_view c sg = users_view c sg'"

lemma users_view_open [simp]: "users_view c (snd (users_db sg)) = users_view c sg"
  by (simp add: users_view_def users_db_again)

lemma load_opaque_record_state: "snd (load_opaque_record d sg) = snd (users_db sg)"
  by (simp add: load_opaque_record_def split: prod.split)

lemma load_opaque_record_same:
  assumes "same_store c sg sg'"
  shows "fst (load_opaque_record c sg') = fst (load_opaque_record c sg)"
proof -
  have "fst (load_opaque_record c (snd (users_db sg'))) = fst (load_opaque_record c (snd (users_db sg)))"
    by (rule load_opaque_record_cong) (use assms in \<open>simp_all add: same_store_def users_db_open users_view_def\<close>)
  then show ?thesis by (simp add: load_after_open)
qed

lemma store_opaque_record_view:
  assumes "users_ready sg"
  obtains sg' where "store_opaque_record d k pub env sg = (Inr (), sg')" "users_ready sg'"
    "\<And>c. users_view c sg' = (if c = d
      then Some (record_json \<lparr>or_oprf_key = k, or_client_pub = pub, or_envelope = env, or_credential_id = d\<rparr>)
      else users_view c sg)"
proof -
  from store_opaque_record_ok [OF users_db_open [OF assms], of d k pub env]
  obtain sg' where s: "store_opaque_record d k pub env sg = (Inr (), sg')" "users_open sg'"
    "users_dict sg' = (users_dict (snd (users_db sg)))(hex_str d \<mapsto>
       record_json \<lparr>or_oprf_key = k, or_client_pub = pub, or_envelope = env, or_credential_id = d\<rparr>)"
    by (auto simp: store_after_open)
  moreover have "users_dict (snd (users_db sg')) = users_dict sg'" using users_openD [OF s(2)] by auto
  ultimately show ?thesis by (intro that [OF s(1)]) (auto simp: users_open_ready users_view_def)
qed

lemma same_store_open: "same_store c sg sg' \<Longrightarrow> same_store c (snd (users_db sg)) sg'"
  by (simp add: same_store_def users_open_ready users_db_open)

lemma same_store_sym: "same_store c sg sg' \<Longrightarrow> same_store c sg' sg"
  by (auto simp: same_store_def)

lemma load_opaque_record_ready: "fst (load_opaque_record c sg) = Inr r \<Longrightarrow> users_ready sg"
  by (auto simp: load_opaque_record_def store_get_def bindE_eq_Inr read_raw_Inr users_ready_def users_db_def users_open_def
      file_ok_def json_store_new_def Let_def split: option.splits if_splits)

section \<open>Operations of a session\<close>

text \<open>
  Started on stores that are alike for the user \<open>c\<close>, the operation does the same and leaves stores that are
  alike (\<open>local_at\<close>); it leaves the user's record alone (\<open>spares\<close>); it does not use the store (\<open>storeless\<close>).
\<close>

definition local_at :: "bytes \<Rightarrow> (world, 'a) st_res \<Rightarrow> world \<Rightarrow> bool" where
  "local_at c m w \<longleftrightarrow> (\<forall>sg. same_store c (w_storage w) sg \<longrightarrow>
     (\<exists>sg'. m (w\<lparr>w_storage := sg\<rparr>) = (fst (m w), (snd (m w))\<lparr>w_storage := sg'\<rparr>) \<and> same_store c (w_storage (snd (m w))) sg'))"

definition spares :: "bytes \<Rightarrow> (world, 'a) st_res \<Rightarrow> world \<Rightarrow> bool" where
  "spares c m w \<longleftrightarrow> (\<forall>sg. same_store c (w_storage w) sg \<longrightarrow> same_store c (w_storage (snd (m w))) sg)"

definition storeless :: "(world, 'a) st_res \<Rightarrow> bool" where
  "storeless m \<longleftrightarrow> (\<forall>w sg. m (w\<lparr>w_storage := sg\<rparr>) = (fst (m w), (snd (m w))\<lparr>w_storage := sg\<rparr>))"

lemma storeless_keeps: "storeless m \<Longrightarrow> w_storage (snd (m w)) = w_storage w"
proof -
  assume "storeless m"
  then have "m (w\<lparr>w_storage := w_storage w\<rparr>) = (fst (m w), (snd (m w))\<lparr>w_storage := w_storage w\<rparr>)" by (simp only: storeless_def)
  then have "snd (m w) = (snd (m w))\<lparr>w_storage := w_storage w\<rparr>" by simp (metis snd_conv)
  then show ?thesis by (metis world.select_convs(3) world.surjective world.update_convs(3))
qed

lemma storeless_local: "storeless m \<Longrightarrow> local_at c m w" "storeless m \<Longrightarrow> spares c m w"
  by (auto simp: local_at_def spares_def storeless_keeps) (auto simp: storeless_def)

lemma storeless_ops:
  "storeless (liftS x)" "storeless (retS y)" "storeless (on_conn f)" "storeless (on_opaque g)" "storeless (send_alert msg)"
  by (simp_all add: storeless_def liftS_def retS_def on_conn_def on_opaque_def send_alert_def split: prod.splits)

lemma local_at_bindS:
  assumes "local_at c m w" and "\<And>x w'. m w = (Inr x, w') \<Longrightarrow> local_at c (f x) w'"
  shows "local_at c (bindS m f) w"
  unfolding local_at_def
proof (intro allI impI)
  fix sg assume "same_store c (w_storage w) sg"
  with assms(1) obtain sg' where s: "m (w\<lparr>w_storage := sg\<rparr>) = (fst (m w), (snd (m w))\<lparr>w_storage := sg'\<rparr>)"
    "same_store c (w_storage (snd (m w))) sg'" unfolding local_at_def by blast
  show "\<exists>sg'. bindS m f (w\<lparr>w_storage := sg\<rparr>) = (fst (bindS m f w), (snd (bindS m f w))\<lparr>w_storage := sg'\<rparr>) \<and>
      same_store c (w_storage (snd (bindS m f w))) sg'"
  proof (cases "m w")
    case (Pair r w')
    with s assms(2) show ?thesis unfolding local_at_def by (cases r) (auto simp: bindS_def)
  qed
qed

lemma local_at_tryS:
  assumes "local_at c m w" and "\<And>e w'. m w = (Inl e, w') \<Longrightarrow> local_at c (h e) w'"
    and "\<And>x w'. m w = (Inr x, w') \<Longrightarrow> local_at c (f x) w'"
  shows "local_at c (tryS m K h f) w"
  unfolding local_at_def
proof (intro allI impI)
  fix sg assume "same_store c (w_storage w) sg"
  with assms(1) obtain sg' where s: "m (w\<lparr>w_storage := sg\<rparr>) = (fst (m w), (snd (m w))\<lparr>w_storage := sg'\<rparr>)"
    "same_store c (w_storage (snd (m w))) sg'" unfolding local_at_def by blast
  show "\<exists>sg'. tryS m K h f (w\<lparr>w_storage := sg\<rparr>) = (fst (tryS m K h f w), (snd (tryS m K h f w))\<lparr>w_storage := sg'\<rparr>) \<and>
      same_store c (w_storage (snd (tryS m K h f w))) sg'"
  proof (cases "m w")
    case (Pair r w')
    with s assms(2,3) show ?thesis unfolding local_at_def by (cases r) (auto simp: tryS_def)
  qed
qed

lemma spares_bindS:
  "spares c m w \<Longrightarrow> (\<And>x w'. m w = (Inr x, w') \<Longrightarrow> spares c (f x) w') \<Longrightarrow> spares c (bindS m f) w"
  by (auto simp: spares_def bindS_def split: prod.splits sum.splits)

lemma spares_tryS:
  "spares c m w \<Longrightarrow> (\<And>e w'. m w = (Inl e, w') \<Longrightarrow> spares c (h e) w') \<Longrightarrow> (\<And>x w'. m w = (Inr x, w') \<Longrightarrow> spares c (f x) w') \<Longrightarrow>
    spares c (tryS m K h f) w"
  by (auto simp: spares_def tryS_def split: prod.splits sum.splits)

lemma prod_at: "(\<And>a b. x = (a, b) \<Longrightarrow> local_at c (f a b) w) \<Longrightarrow> local_at c (case x of (a, b) \<Rightarrow> f a b) w"
    "(\<And>a b. x = (a, b) \<Longrightarrow> spares c (f a b) w) \<Longrightarrow> spares c (case x of (a, b) \<Rightarrow> f a b) w"
  by (cases x, simp)+

lemmas storelessI = storeless_ops [THEN storeless_local(1)] storeless_ops [THEN storeless_local(2)]
lemmas local_rules = local_at_bindS local_at_tryS spares_bindS spares_tryS prod_at storelessI

lemma storeless_bindS: "storeless m \<Longrightarrow> (\<And>x. storeless (f x)) \<Longrightarrow> storeless (bindS m f)"
  unfolding storeless_def bindS_def by (auto split: prod.splits sum.splits)

lemma app_step_storeless: "app_step P s r (w\<lparr>w_storage := sg\<rparr>) =
    (fst (app_step P s r w), (snd (app_step P s r w))\<lparr>w_storage := sg\<rparr>)"
proof -
  have "storeless (bindS (liftS a) (\<lambda>m. on_conn (conn_send m)))" for a by (intro storeless_bindS storeless_ops)
  then have f: "bindS (liftS a) (\<lambda>m. on_conn (conn_send m)) (v\<lparr>w_storage := sg\<rparr>) =
      (fst (bindS (liftS a) (\<lambda>m. on_conn (conn_send m)) v), (snd (bindS (liftS a) (\<lambda>m. on_conn (conn_send m)) v))\<lparr>w_storage := sg\<rparr>)" for a v
    by (simp add: storeless_def)
  have g: "on_conn conn_recv (v\<lparr>w_storage := sg\<rparr>) = (fst (on_conn conn_recv v), (snd (on_conn conn_recv v))\<lparr>w_storage := sg\<rparr>)"
    "send_alert msg (v\<lparr>w_storage := sg\<rparr>) = (fst (send_alert msg v), (snd (send_alert msg v))\<lparr>w_storage := sg\<rparr>)" for v msg
    using storeless_ops(3) [of conn_recv] storeless_ops(5) [of msg] by (simp_all add: storeless_def)
  show ?thesis
    unfolding app_step_def g f by (simp add: g f split: prod.split sum.split)
qed

lemma app_loop_storeless: "storeless (app_loop P s r)"
  proof -
  have "app_loop P s r (w\<lparr>w_storage := sg\<rparr>) = (fst (app_loop P s r w), (snd (app_loop P s r w))\<lparr>w_storage := sg\<rparr>)" for w sg
  proof (induction P s r w rule: app_loop.induct)
    case (1 P s r w)
    obtain st w1 where st: "app_step P s r w = (st, w1)" by fastforce
    then have "app_step P s r (w\<lparr>w_storage := sg\<rparr>) = (st, w1\<lparr>w_storage := sg\<rparr>)" by (simp add: app_step_storeless)
    with 1 st show ?case by (subst (1 2 3) app_loop.simps) (simp split: loop_step.split)
  qed
  then show ?thesis by (simp add: storeless_def)
qed

text \<open>The two operations that use the store.\<close>

lemma login_start_local: "local_at c (on_storage (server_login_start P rnd c ke1)) w"
  proof -
  have *: "server_login_start P rnd c ke1 os sg = (case fst (load_opaque_record c sg) of
      Inl e \<Rightarrow> Inl e | Inr rec \<Rightarrow> server_login_reply P rnd (os_s_priv os) rec ke1, snd (users_db sg))" for os sg
    by (cases "load_opaque_record c sg")
      (use load_opaque_record_state [of c sg] in \<open>auto simp: server_login_start_def split: sum.splits\<close>)
  show ?thesis
    by (auto simp: local_at_def on_storage_def * load_opaque_record_same
        intro!: exI [of _ "snd (users_db _)"] same_store_open same_store_sym [OF same_store_open, OF same_store_sym])
qed

lemma login_start_spares: "spares c (on_storage (server_login_start P rnd d ke1)) w"
  proof -
  have "snd (server_login_start P rnd d ke1 os sg) = snd (users_db sg)" for os sg
    by (cases "load_opaque_record d sg")
      (use load_opaque_record_state [of d sg] in \<open>auto simp: server_login_start_def split: sum.splits\<close>)
  then show ?thesis
    by (auto simp: spares_def on_storage_def split: prod.splits intro: same_store_open) (metis same_store_open snd_conv)
qed

lemma registration_store_local: "local_at c (on_storage (registration_store c up)) w"
  proof -
  have "\<exists>sg2. registration_store c up os sg' = (fst (registration_store c up os sg), sg2) \<and>
      same_store c (snd (registration_store c up os sg)) sg2" if ss: "same_store c sg sg'" for os sg sg'
  proof -
    have r: "users_ready sg" "users_ready sg'" using ss by (simp_all add: same_store_def)
    show ?thesis
    proof (cases "\<exists>pend k. os_pending os = Some pend \<and> pend (hex_str c) = Some k")
      case True
      then obtain k where k: "registration_store c up os sg0 = store_opaque_record c k (slice up 0 65) (drop 65 up) sg0" for sg0
        by (auto simp: registration_store_def Let_def)
      show ?thesis unfolding k
        by (rule store_opaque_record_view [OF r(1), of c k "slice up 0 65" "drop 65 up"],
            rule store_opaque_record_view [OF r(2), of c k "slice up 0 65" "drop 65 up"]) (simp add: same_store_def)
    next
      case False
      with ss show ?thesis by (auto simp: registration_store_def Let_def raise_def split: option.splits)
    qed
  qed
  note reg = this
  show ?thesis
    unfolding local_at_def
  proof (intro allI impI)
    fix sg assume "same_store c (w_storage w) sg"
    from reg [OF this, of "w_opaque w"] show "\<exists>sg'. on_storage (registration_store c up) (w\<lparr>w_storage := sg\<rparr>) =
        (fst (on_storage (registration_store c up) w), (snd (on_storage (registration_store c up) w))\<lparr>w_storage := sg'\<rparr>) \<and>
        same_store c (w_storage (snd (on_storage (registration_store c up) w))) sg'"
      by (cases "registration_store c up (w_opaque w) (w_storage w)") (auto simp: on_storage_def)
  qed
qed

lemma registration_store_spares: "d \<noteq> c \<Longrightarrow> spares c (on_storage (registration_store d up)) w"
  proof -
  assume d: "d \<noteq> c"
  have "same_store c (snd (registration_store d up os sg)) sg'" if ss: "same_store c sg sg'" for os sg sg'
  proof (cases "\<exists>pend k. os_pending os = Some pend \<and> pend (hex_str d) = Some k")
    case True
    then obtain k where k: "registration_store d up os sg = store_opaque_record d k (slice up 0 65) (drop 65 up) sg"
      by (auto simp: registration_store_def Let_def)
    have "users_ready sg" using ss by (simp add: same_store_def)
    then show ?thesis unfolding k
      by (rule store_opaque_record_view [of _ d k "slice up 0 65" "drop 65 up"]) (use ss d in \<open>auto simp: same_store_def\<close>)
  next
    case False
    with ss show ?thesis by (auto simp: registration_store_def Let_def raise_def split: option.splits)
  qed
  then show ?thesis by (auto simp: spares_def on_storage_def split: prod.splits) (metis snd_conv)
qed

lemma login_exchange_local: "ch_credential_id ch = c \<Longrightarrow> local_at c (login_exchange P se rnd ch raw) w"
  unfolding login_exchange_def login_complete_def by (intro local_rules) (simp_all add: login_start_local)

lemma login_exchange_spares: "spares c (login_exchange P se rnd ch raw) w"
  unfolding login_exchange_def login_complete_def by (intro local_rules login_start_spares)

lemma handle_registration_local: "ch_credential_id ch = c \<Longrightarrow> local_at c (handle_registration P se rnd ch raw) w"
  unfolding handle_registration_def by (intro local_rules) (simp_all add: registration_store_local)

lemma handle_registration_spares: "ch_credential_id ch \<noteq> c \<Longrightarrow> spares c (handle_registration P se rnd ch raw) w"
  unfolding handle_registration_def by (intro local_rules registration_store_spares)

section \<open>Threads of one user\<close>

text \<open>The user a thread will ask the shared state for: before its first read, the one its ClientHello names.\<close>

definition hello_user :: "conn \<Rightarrow> bytes option" where
  "hello_user c = (case conn_recv c of
     (Inr raw, _) \<Rightarrow> (case decode_client_hello raw of Inr ch \<Rightarrow> Some (ch_credential_id ch) | Inl _ \<Rightarrow> None)
   | (Inl _, _) \<Rightarrow> None)"

fun use_user :: "limiter_use \<Rightarrow> bytes" where
  "use_user (ForAllow ch raw) = ch_credential_id ch"
| "use_user (ForReset ch s d) = ch_credential_id ch"

definition thread_user :: "thread \<Rightarrow> bytes option" where
  "thread_user t = (case th_pc t of
     Starting \<Rightarrow> hello_user (th_conn t)
   | Testing u \<Rightarrow> Some (use_user u)
   | Creating u \<Rightarrow> Some (use_user u)
   | Fetching u \<Rightarrow> Some (use_user u)
   | Calling i u \<Rightarrow> Some (use_user u)
   | Admitted ch raw \<Rightarrow> Some (ch_credential_id ch)
   | Echoing s d \<Rightarrow> None
   | Done e \<Rightarrow> None)"

lemma session_open_hello:
  assumes "session_open P se rnd w = (Inr (Some (ch, raw)), w')"
  shows "hello_user (w_conn w) = Some (ch_credential_id ch)"
  using assms unfolding session_open_def
  by (auto simp: st_res_Inr on_conn_eq hello_user_def split: if_splits prod.splits)

lemma session_open_local:
  assumes "hello_user (w_conn w) \<in> {None, Some c}"
  shows "local_at c (session_open P se rnd) w"
  proof -
  have reg: "local_at c (bindS (handle_registration P se rnd ch raw) (\<lambda>_. retS None)) v"
    if "conn_recv (w_conn w) = (Inr raw, c')" "decode_client_hello raw = Inr ch" for ch raw c' v
    by (intro local_rules handle_registration_local) (use assms that in \<open>auto simp: hello_user_def\<close>)
  show ?thesis
    unfolding session_open_def
    by (intro local_rules) (auto simp: liftS_def on_conn_eq intro!: local_rules reg)
qed

lemma session_open_spares:
  assumes "hello_user (w_conn w) \<noteq> Some c"
  shows "spares c (session_open P se rnd) w"
  proof -
  have reg: "spares c (bindS (handle_registration P se rnd ch raw) (\<lambda>_. retS None)) v"
    if "conn_recv (w_conn w) = (Inr raw, c')" "decode_client_hello raw = Inr ch" for ch raw c' v
    by (intro local_rules handle_registration_spares) (use assms that in \<open>auto simp: hello_user_def\<close>)
  show ?thesis
    unfolding session_open_def
    by (intro local_rules) (auto simp: liftS_def on_conn_eq intro!: local_rules reg)
qed

definition limiter_view :: "rate_limiter \<Rightarrow> limiter_key \<Rightarrow> int \<times> int \<times> int list" where
  "limiter_view rl k = (rl_window rl, rl_max rl, timestamps rl k)"

text \<open>One limiter, created before.\<close>

definition steady :: "thread \<Rightarrow> bool" where
  "steady t \<longleftrightarrow> refers 1 t \<and> (\<forall>u. th_pc t \<noteq> Creating u)"

definition same_shared :: "limiter_key \<Rightarrow> bytes \<Rightarrow> process_state \<Rightarrow> process_state \<Rightarrow> bool" where
  "same_shared k c sh sh' \<longleftrightarrow> length (sh_limiters sh) = 1 \<and> length (sh_limiters sh') = 1 \<and>
     sh_current sh = Some 0 \<and> sh_current sh' = Some 0 \<and>
     limiter_view (sh_limiters sh ! 0) k = limiter_view (sh_limiters sh' ! 0) k \<and> same_store c (sh_storage sh) (sh_storage sh')"

lemma perform_local:
  assumes "local_at c m (thread_world t sh)" and "same_shared k c sh sh'"
    and "perform m next t sh = (u, v)" and "perform m next t sh' = (u', v')"
  shows "u' = u \<and> same_shared k c v v'"
  proof -
  have w: "thread_world t sh' = (thread_world t sh)\<lparr>w_storage := sh_storage sh'\<rparr>" by (simp add: thread_world_def)
  have "same_store c (w_storage (thread_world t sh)) (sh_storage sh')"
    using assms(2) by (simp add: same_shared_def thread_world_def)
  with assms(1) obtain sg where "m (thread_world t sh') =
      (fst (m (thread_world t sh)), (snd (m (thread_world t sh)))\<lparr>w_storage := sg\<rparr>)"
    "same_store c (w_storage (snd (m (thread_world t sh)))) sg" unfolding local_at_def w by blast
  with assms(2-) show ?thesis by (cases "m (thread_world t sh)") (auto simp: perform_def same_shared_def)
qed

lemma perform_spares:
  assumes "spares c m (thread_world t sh)" and "same_shared k c sh sh'" and "perform m next t sh = (u, v)"
  shows "same_shared k c v sh'"
  using assms by (auto simp: perform_def same_shared_def spares_def thread_world_def split: prod.splits)

text \<open>A step stays with its thread's user, and the thread never creates a limiter once there is one.\<close>

lemma perform_user:
  assumes "perform m next t sh = (u, v)" and "\<And>x w. m (thread_world t sh) = (Inr x, w) \<Longrightarrow>
      (\<exists>e. next x = Done e) \<or> (\<exists>z. next x = Testing z \<and> thread_user t = Some (use_user z)) \<or> (\<exists>s d. next x = Echoing s d)"
  shows "thread_user u \<in> {None, thread_user t} \<and> steady u \<and> th_input u = th_input t"
  using assms by (auto simp: perform_def thread_user_def [of u] steady_def refers_def split: prod.splits sum.splits)

lemma thread_step_user:
  assumes "thread_step P t sh = (ev, u, v)" and "steady t" and "sh_current sh = Some 0"
  shows "thread_user u \<in> {None, thread_user t} \<and> steady u \<and> th_input u = th_input t"
proof (cases "th_pc t")
  case Starting
  let ?m = "session_open P (si_session (th_input t)) (si_random (th_input t))"
  have p: "perform ?m (\<lambda>r. case r of None \<Rightarrow> Done Completed | Some (ch, raw) \<Rightarrow> Testing (ForAllow ch raw)) t sh = (u, v)"
    using assms(1) Starting by (simp add: thread_step.simps Let_def)
  have "thread_user t = Some (ch_credential_id ch)" if "?m (thread_world t sh) = (Inr (Some (ch, raw)), w)" for ch raw w
    using session_open_hello [OF that] Starting by (simp add: thread_user_def thread_world_def)
  then show ?thesis by (intro perform_user [OF p]) (auto split: option.split)
next
  case (Calling i z)
  show ?thesis
  proof (cases z)
    case (ForAllow ch raw)
    let ?c = "Allow (sr_now_limiter (si_random (th_input t))) (se_ip (si_session (th_input t))) (ch_credential_id ch)"
    obtain b rl where b: "step_call ?c (sh_limiters sh ! i) = (b, rl)" by fastforce
    show ?thesis
    proof (cases b)
      case True
      with assms(1) Calling ForAllow b have "u = t\<lparr>th_pc := Admitted ch raw\<rparr>" by (simp add: thread_step.simps Let_def)
      with Calling ForAllow show ?thesis by (simp add: thread_user_def steady_def refers_def)
    next
      case False
      with assms(1) Calling ForAllow b have "perform (send_alert rate_message) (\<lambda>_. Done Completed) t
          (sh\<lparr>sh_limiters := (sh_limiters sh)[i := rl]\<rparr>) = (u, v)" by (simp add: thread_step.simps Let_def)
      then have "thread_user u \<in> {None, thread_user t} \<and> steady u \<and> th_input u = th_input t" by (rule perform_user) auto
      then show ?thesis .
    qed
  next
    case (ForReset ch s d)
    with assms(1) Calling have "u = t\<lparr>th_pc := Echoing s d\<rparr>" by (auto simp: thread_step.simps Let_def)
    then show ?thesis by (simp add: thread_user_def steady_def refers_def)
  qed
next
  case (Admitted ch raw)
  with assms(1) have "perform (login_exchange P (si_session (th_input t)) (si_random (th_input t)) ch raw)
      (\<lambda>r. case r of None \<Rightarrow> Done Completed | Some (s, d) \<Rightarrow> Testing (ForReset ch s d)) t sh = (u, v)"
    by (simp add: thread_step.simps Let_def)
  then show ?thesis by (rule perform_user) (use Admitted in \<open>auto simp: thread_user_def split: option.split\<close>)
next
  case (Echoing s d)
  with assms(1) have "perform (app_loop P s d) (\<lambda>_. Done Completed) t sh = (u, v)"
    by (simp add: thread_step.simps Let_def)
  then show ?thesis by (rule perform_user) auto
qed (use assms in \<open>auto simp: thread_step.simps Let_def thread_user_def steady_def refers_def split: if_splits option.splits\<close>)

text \<open>Calls at the limiter, seen by the user \<open>k\<close>.\<close>

lemma limiter_call_same:
  assumes "limiter_view rl k = limiter_view rl' k" and "call_key call = k"
    and "step_call call rl = (b, rl1)" and "step_call call rl' = (b', rl1')"
  shows "b' = b \<and> limiter_view rl1 k = limiter_view rl1' k"
  using limiter.own [of rl call rl'] assms by (simp add: limiter_view_def)

lemma limiter_call_other:
  "call_key call \<noteq> k \<Longrightarrow> step_call call rl = (b, rl1) \<Longrightarrow> limiter_view rl1 k = limiter_view rl k"
  using limiter.others [of k call rl] by (simp add: limiter_view_def)

lemma thread_step_local:
  assumes "thread_user t \<in> {None, Some c}" and "k = (se_ip (si_session (th_input t)), hex_str c)" and "steady t"
    and same: "same_shared k c sh sh'" and "thread_step P t sh = (ev, u, v)" and "thread_step P t sh' = (ev', u', v')"
  shows "u' = u \<and> same_shared k c v v'"
  proof (cases "th_pc t")
  case Starting
  let ?m = "session_open P (si_session (th_input t)) (si_random (th_input t))"
  let ?n = "\<lambda>r. case r of None \<Rightarrow> Done Completed | Some (ch, raw) \<Rightarrow> Testing (ForAllow ch raw)"
  have "local_at c ?m (thread_world t sh)"
    by (rule session_open_local) (use assms(1) Starting in \<open>simp add: thread_user_def thread_world_def\<close>)
  then show ?thesis
    by (rule perform_local [OF _ same, where ?next = ?n]) (use assms(5,6) Starting in \<open>simp_all add: thread_step.simps Let_def\<close>)
next
  case (Admitted ch raw)
  let ?m = "login_exchange P (si_session (th_input t)) (si_random (th_input t)) ch raw"
  let ?n = "\<lambda>r. case r of None \<Rightarrow> Done Completed | Some (s, d) \<Rightarrow> Testing (ForReset ch s d)"
  have "local_at c ?m (thread_world t sh)"
    by (rule login_exchange_local) (use assms(1) Admitted in \<open>simp add: thread_user_def\<close>)
  then show ?thesis
    by (rule perform_local [OF _ same, where ?next = ?n]) (use assms(5,6) Admitted in \<open>simp_all add: thread_step.simps Let_def\<close>)
next
  case (Echoing s d)
  have "local_at c (app_loop P s d) (thread_world t sh)" by (rule storeless_local(1) [OF app_loop_storeless])
  then show ?thesis
    by (rule perform_local [OF _ same, where ?next = "\<lambda>_. Done Completed"]) (use assms(5,6) Echoing in \<open>simp_all add: thread_step.simps Let_def\<close>)
next
  case (Calling i z)
  then have i: "i = 0" using assms(3) by (simp add: steady_def refers_def)
  have z: "use_user z = c" using assms(1) Calling by (simp add: thread_user_def)
  let ?ip = "se_ip (si_session (th_input t))"
  have upd: "same_shared k c (sh\<lparr>sh_limiters := (sh_limiters sh)[0 := rl]\<rparr>) (sh'\<lparr>sh_limiters := (sh_limiters sh')[0 := rl']\<rparr>)"
    if "limiter_view rl k = limiter_view rl' k" for rl rl' using same that by (simp add: same_shared_def)
  have v: "limiter_view (sh_limiters sh ! 0) k = limiter_view (sh_limiters sh' ! 0) k" using same by (simp add: same_shared_def)
  show ?thesis
  proof (cases z)
    case (ForAllow ch raw)
    let ?c = "Allow (sr_now_limiter (si_random (th_input t))) ?ip (ch_credential_id ch)"
    obtain b rl where b: "step_call ?c (sh_limiters sh ! 0) = (b, rl)" by fastforce
    obtain b' rl' where b': "step_call ?c (sh_limiters sh' ! 0) = (b', rl')" by fastforce
    have "call_key ?c = k" using z ForAllow assms(2) by simp
    from limiter_call_same [OF v this b b'] have e: "b' = b" "limiter_view rl k = limiter_view rl' k" by simp_all
    note s = upd [OF e(2)]
    show ?thesis
    proof (cases b)
      case True
      with assms(5,6) Calling ForAllow i b b' e s show ?thesis by (auto simp: thread_step.simps Let_def)
    next
      case False
      with assms(5,6) Calling ForAllow i b b' e
      have p: "perform (send_alert rate_message) (\<lambda>_. Done Completed) t (sh\<lparr>sh_limiters := (sh_limiters sh)[0 := rl]\<rparr>) = (u, v)"
        "perform (send_alert rate_message) (\<lambda>_. Done Completed) t (sh'\<lparr>sh_limiters := (sh_limiters sh')[0 := rl']\<rparr>) = (u', v')"
        by (simp_all add: thread_step.simps Let_def)
      show ?thesis by (rule perform_local [OF _ s p]) (rule storeless_local(1) [OF storeless_ops(5)])
    qed
  next
    case (ForReset ch s d)
    let ?c = "Reset ?ip (ch_credential_id ch)"
    have "call_key ?c = k" using z ForReset assms(2) by simp
    with limiter_call_same [OF v this prod.collapse [symmetric] prod.collapse [symmetric]]
    have "limiter_view (snd (step_call ?c (sh_limiters sh ! 0))) k = limiter_view (snd (step_call ?c (sh_limiters sh' ! 0))) k"
      by simp
    from upd [OF this] assms(5,6) Calling ForReset i show ?thesis by (auto simp: thread_step.simps Let_def)
  qed
qed (use assms in \<open>auto simp: thread_step.simps Let_def steady_def same_shared_def split: if_splits option.splits\<close>)

lemma thread_step_spares:
  assumes "thread_user t \<noteq> Some c" and "snd k = hex_str c" and "steady t"
    and same: "same_shared k c sh sh'" and "thread_step P t sh = (ev, u, v)"
  shows "same_shared k c v sh'"
  proof (cases "th_pc t")
  case Starting
  let ?m = "session_open P (si_session (th_input t)) (si_random (th_input t))"
  let ?n = "\<lambda>r. case r of None \<Rightarrow> Done Completed | Some (ch, raw) \<Rightarrow> Testing (ForAllow ch raw)"
  have "spares c ?m (thread_world t sh)"
    by (rule session_open_spares) (use assms(1) Starting in \<open>simp add: thread_user_def thread_world_def\<close>)
  then show ?thesis
    by (rule perform_spares [OF _ same, where ?next = ?n]) (use assms(5) Starting in \<open>simp add: thread_step.simps Let_def\<close>)
next
  case (Admitted ch raw)
  let ?n = "\<lambda>r. case r of None \<Rightarrow> Done Completed | Some (s, d) \<Rightarrow> Testing (ForReset ch s d)"
  have p: "perform (login_exchange P (si_session (th_input t)) (si_random (th_input t)) ch raw) ?n t sh = (u, v)"
    using assms(5) Admitted by (simp add: thread_step.simps Let_def)
  show ?thesis by (rule perform_spares [OF login_exchange_spares same p])
next
  case (Echoing s d)
  have p: "perform (app_loop P s d) (\<lambda>_. Done Completed) t sh = (u, v)"
    using assms(5) Echoing by (simp add: thread_step.simps Let_def)
  show ?thesis by (rule perform_spares [OF storeless_local(2) [OF app_loop_storeless] same p])
next
  case (Calling i z)
  then have i: "i = 0" using assms(3) by (simp add: steady_def refers_def)
  let ?ip = "se_ip (si_session (th_input t))"
  have upd: "same_shared k c (sh\<lparr>sh_limiters := (sh_limiters sh)[0 := rl]\<rparr>) sh'"
    if "step_call call (sh_limiters sh ! 0) = (b, rl)" "call_key call = (?ip, hex_str (use_user z))" for call b rl
  proof -
    have "use_user z \<noteq> c" using assms(1) Calling by (simp add: thread_user_def)
    then have "call_key call \<noteq> k" using that(2) assms(2) by (cases k) auto
    from limiter_call_other [OF this that(1)] show ?thesis using same by (simp add: same_shared_def)
  qed
  show ?thesis
  proof (cases z)
    case (ForAllow ch raw)
    let ?c = "Allow (sr_now_limiter (si_random (th_input t))) ?ip (ch_credential_id ch)"
    obtain b rl where b: "step_call ?c (sh_limiters sh ! 0) = (b, rl)" by fastforce
    have s: "same_shared k c (sh\<lparr>sh_limiters := (sh_limiters sh)[0 := rl]\<rparr>) sh'" by (rule upd [OF b]) (simp add: ForAllow)
    show ?thesis
    proof (cases b)
      case True
      with assms(5) Calling ForAllow i b s show ?thesis by (auto simp: thread_step.simps Let_def)
    next
      case False
      have p: "perform (send_alert rate_message) (\<lambda>_. Done Completed) t (sh\<lparr>sh_limiters := (sh_limiters sh)[0 := rl]\<rparr>) = (u, v)"
        using assms(5) Calling ForAllow i b False by (simp add: thread_step.simps Let_def)
      show ?thesis by (rule perform_spares [OF storeless_local(2) [OF storeless_ops(5)] s p])
    qed
  next
    case (ForReset ch s d)
    let ?c = "Reset ?ip (ch_credential_id ch)"
    have "same_shared k c (sh\<lparr>sh_limiters := (sh_limiters sh)[0 := snd (step_call ?c (sh_limiters sh ! 0))]\<rparr>) sh'"
      by (rule upd [OF prod.collapse [symmetric]]) (simp add: ForReset)
    with assms(5) Calling ForReset i show ?thesis by (auto simp: thread_step.simps Let_def)
  qed
qed (use assms in \<open>auto simp: thread_step.simps Let_def steady_def same_shared_def split: if_splits option.splits\<close>)

section \<open>The process as an interleaving\<close>

definition pstep :: "prims \<Rightarrow> thread \<Rightarrow> process_state \<Rightarrow> thread \<times> process_state" where
  "pstep P t sh = snd (thread_step P t sh)"

definition user_thread :: "pystr \<Rightarrow> bytes \<Rightarrow> thread \<Rightarrow> bool" where
  "user_thread ip c t \<longleftrightarrow> thread_user t \<in> {None, Some c} \<and> se_ip (si_session (th_input t)) = ip \<and> steady t"

definition other_thread :: "bytes \<Rightarrow> thread \<Rightarrow> bool" where
  "other_thread c t \<longleftrightarrow> thread_user t \<noteq> Some c \<and> steady t"

interpretation user: isolated_threads "pstep P" "same_shared (ip, hex_str c) c" "user_thread ip c" "other_thread c" for P ip c
proof
  fix t sh sh' u v u' v'
  assume t: "user_thread ip c t" and s: "same_shared (ip, hex_str c) c sh sh'" and "pstep P t sh = (u, v)" "pstep P t sh' = (u', v')"
  then obtain ev ev' where st: "thread_step P t sh = (ev, u, v)" "thread_step P t sh' = (ev', u', v')"
    by (auto simp: pstep_def) (metis prod.collapse)
  have "u' = u \<and> same_shared (ip, hex_str c) c v v'"
    by (rule thread_step_local [OF _ _ _ s st]) (use t in \<open>auto simp: user_thread_def\<close>)
  moreover have "thread_user u \<in> {None, thread_user t} \<and> steady u \<and> th_input u = th_input t"
    by (rule thread_step_user [OF st(1)]) (use t s in \<open>auto simp: user_thread_def same_shared_def\<close>)
  ultimately show "u' = u \<and> user_thread ip c u \<and> same_shared (ip, hex_str c) c v v'" using t by (auto simp: user_thread_def)
next
  fix t sh sh' u v
  assume t: "other_thread c t" and s: "same_shared (ip, hex_str c) c sh sh'" and "pstep P t sh = (u, v)"
  then obtain ev where st: "thread_step P t sh = (ev, u, v)" by (auto simp: pstep_def) (metis prod.collapse)
  have "same_shared (ip, hex_str c) c v sh'"
    by (rule thread_step_spares [OF _ _ _ s st]) (use t in \<open>auto simp: other_thread_def\<close>)
  moreover have "thread_user u \<in> {None, thread_user t} \<and> steady u \<and> th_input u = th_input t"
    by (rule thread_step_user [OF st]) (use t s in \<open>auto simp: other_thread_def same_shared_def\<close>)
  ultimately show "other_thread c u \<and> same_shared (ip, hex_str c) c v sh'" using t by (auto simp: other_thread_def)
qed

lemma thread_steps_solo: "thread_steps P n t sh = solo (pstep P) n t sh"
  by (induction n arbitrary: t sh) (simp_all add: pstep_def split: prod.split)

definition process_exec :: "prims \<Rightarrow> session_input turn list \<Rightarrow> process \<Rightarrow> process" where
  "process_exec P sched ps = (case exec (pstep P) (map (map_turn thread_new) sched) (ps_threads ps, ps_shared ps) of
     (ts, sh) \<Rightarrow> \<lparr>ps_threads = ts, ps_shared = sh\<rparr>)"

text \<open>The schedules give exactly the runs of the process.\<close>

lemma process_exec_Nil: "process_exec P [] ps = ps"
  by (simp add: process_exec_def)

lemma process_exec_Cons:
  "process_exec P (Arrive si # sched) ps = process_exec P sched (ps\<lparr>ps_threads := ps_threads ps @ [thread_new si]\<rparr>)"
  "i < length (ps_threads ps) \<Longrightarrow> thread_step P (ps_threads ps ! i) (ps_shared ps) = (ev, t, sh) \<Longrightarrow>
    process_exec P (Turn i # sched) ps = process_exec P sched (ps\<lparr>ps_threads := (ps_threads ps)[i := t], ps_shared := sh\<rparr>)"
  "\<not> i < length (ps_threads ps) \<Longrightarrow> process_exec P (Turn i # sched) ps = process_exec P sched ps"
  by (simp_all add: process_exec_def pstep_def)

lemma process_exec_runs: "process_run P ps0 es ps \<Longrightarrow> \<exists>es'. process_run P ps0 es' (process_exec P sched ps)"
proof (induction sched arbitrary: es ps)
  case (Cons ev sched)
  show ?case
  proof (cases ev)
    case (Arrive si)
    from Cons.IH [OF process_run.step [OF Cons.prems process_step.accept]] Arrive show ?thesis by (simp add: process_exec_Cons)
  next
    case (Turn i)
    show ?thesis
    proof (cases "i < length (ps_threads ps)")
      case True
      obtain e t sh where st: "thread_step P (ps_threads ps ! i) (ps_shared ps) = (e, t, sh)" by (metis prod_cases3)
      from Cons.IH [OF process_run.step [OF Cons.prems process_step.thread [OF True st]]] True st Turn show ?thesis
        by (simp add: process_exec_Cons)
    next
      case False
      with Cons Turn show ?thesis by (simp add: process_exec_Cons)
    qed
  qed
qed (auto simp: process_exec_Nil)

lemma process_exec_append: "process_exec P (sched @ sched') ps = process_exec P sched' (process_exec P sched ps)"
  by (simp add: process_exec_def exec_def split: prod.split)

lemma process_run_exec: "process_run P ps0 es ps \<Longrightarrow> \<exists>sched. ps = process_exec P sched ps0"
proof (induction rule: process_run.induct)
  case start
  show ?case by (rule exI [of _ "[]"]) (simp add: process_exec_Nil)
next
  case (step es ps ev ps')
  then obtain sched where s: "ps = process_exec P sched ps0" by blast
  from step(2) have "\<exists>t. ps' = process_exec P [t] ps"
  proof cases
    case (accept si)
    then show ?thesis by (intro exI [of _ "Arrive si"]) (simp add: process_exec_Cons process_exec_Nil)
  next
    case (thread i t sh)
    then show ?thesis by (intro exI [of _ "Turn i"]) (simp add: process_exec_Cons process_exec_Nil)
  qed
  with s show ?case by (metis process_exec_append)
qed

text \<open>A process whose limiter has been created and whose store is usable; it stays one.\<close>

definition settled :: "process \<Rightarrow> bool" where
  "settled ps \<longleftrightarrow> length (sh_limiters (ps_shared ps)) = 1 \<and> sh_current (ps_shared ps) = Some 0 \<and>
     users_ready (sh_storage (ps_shared ps)) \<and> (\<forall>t \<in> set (ps_threads ps). steady t)"

lemma steady_new: "steady (thread_new si)" "thread_user (thread_new si) = hello_user (si_conn si)"
  by (simp_all add: steady_def thread_new_def refers_def thread_user_def)

lemma settled_new: "users_ready sg \<Longrightarrow> settled (process_new True sg)"
  by (simp add: settled_def process_new_def shared_warm_def)

lemma settled_same: "settled ps \<Longrightarrow> same_shared k c (ps_shared ps) (ps_shared ps)"
  by (simp add: settled_def same_shared_def same_store_def)

lemma settled_run: "process_run P ps0 es ps \<Longrightarrow> settled ps0 \<Longrightarrow> settled ps"
proof (induction rule: process_run.induct)
  case (step es ps ev ps')
  from step(2) show ?case
  proof cases
    case (accept si)
    with step show ?thesis by (auto simp: settled_def steady_new)
  next
    case (thread i t sh)
    have s: "settled ps" using step by blast
    let ?t = "ps_threads ps ! i"
    have t: "steady ?t" using s thread(2) by (simp add: settled_def)
    obtain c :: bytes where "thread_user ?t \<noteq> Some c" by (metis list.distinct(1) option.inject)
    then have "same_shared ([], hex_str c) c sh (ps_shared ps)"
      by (rule thread_step_spares [OF _ _ t settled_same [OF s] thread(3)]) simp
    moreover have "steady t" using thread_step_user [OF thread(3) t] s by (simp add: settled_def)
    ultimately show ?thesis
      using s set_update_subset_insert [of "ps_threads ps" i t] by (auto simp: settled_def same_shared_def same_store_def thread(1))
  qed
qed

text \<open>A thread needs nine turns at most.\<close>

fun pc_rank :: "session_pc \<Rightarrow> nat" where
  "pc_rank Starting = 9"
| "pc_rank (Testing (ForAllow ch raw)) = 8"
| "pc_rank (Creating (ForAllow ch raw)) = 8"
| "pc_rank (Fetching (ForAllow ch raw)) = 7"
| "pc_rank (Calling i (ForAllow ch raw)) = 6"
| "pc_rank (Admitted ch raw) = 5"
| "pc_rank (Testing (ForReset ch s d)) = 4"
| "pc_rank (Creating (ForReset ch s d)) = 4"
| "pc_rank (Fetching (ForReset ch s d)) = 3"
| "pc_rank (Calling i (ForReset ch s d)) = 2"
| "pc_rank (Echoing s d) = 1"
| "pc_rank (Done e) = 0"

lemma perform_rank:
  assumes "perform m next t sh = (u, v)" and "\<And>x. pc_rank (next x) < n" and "0 < n"
  shows "pc_rank (th_pc u) < n"
  using assms by (auto simp: perform_def split: prod.splits sum.splits)

lemma thread_step_rank:
  assumes "thread_step P t sh = (ev, u, v)" and "steady t" and "sh_current sh = Some 0" and "0 < pc_rank (th_pc t)"
  shows "pc_rank (th_pc u) < pc_rank (th_pc t)"
proof (cases "th_pc t")
  case Starting
  then have p: "perform (session_open P (si_session (th_input t)) (si_random (th_input t)))
      (\<lambda>r. case r of None \<Rightarrow> Done Completed | Some (ch, raw) \<Rightarrow> Testing (ForAllow ch raw)) t sh = (u, v)"
    using assms(1) by (simp add: thread_step.simps Let_def)
  show ?thesis by (rule perform_rank [OF p]) (use Starting in \<open>auto split: option.split\<close>)
next
  case (Admitted ch raw)
  then have p: "perform (login_exchange P (si_session (th_input t)) (si_random (th_input t)) ch raw)
      (\<lambda>r. case r of None \<Rightarrow> Done Completed | Some (s, d) \<Rightarrow> Testing (ForReset ch s d)) t sh = (u, v)"
    using assms(1) by (simp add: thread_step.simps Let_def)
  show ?thesis by (rule perform_rank [OF p]) (use Admitted in \<open>auto split: option.split\<close>)
next
  case (Echoing s d)
  then have p: "perform (app_loop P s d) (\<lambda>_. Done Completed) t sh = (u, v)"
    using assms(1) by (simp add: thread_step.simps Let_def)
  show ?thesis by (rule perform_rank [OF p]) (use Echoing in auto)
next
  case (Calling i z)
  then show ?thesis
  proof (cases z)
    case (ForAllow ch raw)
    let ?c = "Allow (sr_now_limiter (si_random (th_input t))) (se_ip (si_session (th_input t))) (ch_credential_id ch)"
    obtain b rl where b: "step_call ?c (sh_limiters sh ! i) = (b, rl)" by fastforce
    show ?thesis
    proof (cases b)
      case True
      with assms(1) Calling ForAllow b show ?thesis by (auto simp: thread_step.simps Let_def)
    next
      case False
      with assms(1) Calling ForAllow b have p: "perform (send_alert rate_message) (\<lambda>_. Done Completed) t
          (sh\<lparr>sh_limiters := (sh_limiters sh)[i := rl]\<rparr>) = (u, v)" by (simp add: thread_step.simps Let_def)
      show ?thesis by (rule perform_rank [OF p]) (simp_all add: Calling ForAllow)
    qed
  next
    case (ForReset ch s d)
    with assms(1) Calling show ?thesis by (auto simp: thread_step.simps Let_def)
  qed
next
  case (Testing z)
  with assms(1,3) show ?thesis by (cases z) (auto simp: thread_step.simps Let_def)
next
  case (Fetching z)
  with assms(1,3) show ?thesis by (cases z) (auto simp: thread_step.simps Let_def)
qed (use assms in \<open>auto simp: steady_def\<close>)

lemma same_shared_refl: "same_shared k c sh sh' \<Longrightarrow> same_shared k c sh sh"
  by (simp add: same_shared_def same_store_def)

lemma thread_steps_done_after:
  assumes "steady t" and "same_shared k c sh sh" and "snd k = hex_str c" and "thread_user t \<noteq> Some c"
    and "pc_rank (th_pc t) \<le> n"
  shows "\<exists>e. th_pc (fst (thread_steps P n t sh)) = Done e"
  using assms
proof (induction n arbitrary: t sh)
  case 0
  then show ?case by (cases "th_pc t" rule: pc_rank.cases) simp_all
next
  case (Suc n)
  obtain ev u v where st: "thread_step P t sh = (ev, u, v)" by (metis prod_cases3)
  have c: "sh_current sh = Some 0" using Suc.prems by (simp add: same_shared_def)
  have "pc_rank (th_pc u) \<le> n"
  proof (cases "pc_rank (th_pc t)")
    case 0
    then obtain e where "th_pc t = Done e" by (cases "th_pc t" rule: pc_rank.cases) simp_all
    with st show ?thesis by (simp add: thread_step.simps)
  next
    case Suc
    with thread_step_rank [OF st Suc.prems(1) c] \<open>pc_rank (th_pc t) \<le> Suc n\<close> show ?thesis by simp
  qed
  moreover have "steady u" "thread_user u \<noteq> Some c" using thread_step_user [OF st Suc.prems(1) c] Suc.prems(4) by auto
  moreover have "same_shared k c v v"
    using thread_step_spares [OF Suc.prems(4,3,1,2) st] by (auto simp: same_shared_def same_store_def)
  ultimately show ?case using Suc.IH [of u v] Suc.prems(3) st by simp
qed

lemma thread_steps_finish:
  assumes "settled ps" and "steady t" and "9 \<le> n"
  shows "\<exists>e. th_pc (fst (thread_steps P n t (ps_shared ps))) = Done e"
proof -
  obtain c :: bytes where "thread_user t \<noteq> Some c" by (metis list.distinct(1) option.inject)
  moreover have "pc_rank pc \<le> 9" for pc by (cases pc rule: pc_rank.cases) simp_all
  ultimately show ?thesis
    using thread_steps_done_after [OF assms(2) settled_same [OF assms(1)], of "([], hex_str c)" c n P] assms(3)
    by (metis order_trans snd_conv)
qed

text \<open>Two runs of a thread alone that both ended are the same.\<close>

lemma thread_steps_add: "thread_steps P (m + n) t sh = (case thread_steps P m t sh of (t, sh) \<Rightarrow> thread_steps P n t sh)"
  by (simp add: thread_steps_solo solo_add)

lemma thread_steps_ended:
  assumes "th_pc (fst (thread_steps P m t sh)) = Done e" and "th_pc (fst (thread_steps P n t sh)) = Done e'"
  shows "thread_steps P m t sh = thread_steps P n t sh"
proof -
  have *: "thread_steps P (a + b) t sh = thread_steps P a t sh" if "th_pc (fst (thread_steps P a t sh)) = Done f" for a b f
    using that by (cases "thread_steps P a t sh") (simp add: thread_steps_add thread_steps_done)
  show ?thesis
    using *[OF assms(1), of "n - m"] *[OF assms(2), of "m - n"] by (cases "m \<le> n") (simp_all add: not_le)
qed

section \<open>Properties\<close>

lemma arrivals_map [simp]: "arrivals (map (map_turn f) sched) = map f (arrivals sched)"
  by (induction sched rule: arrivals.induct) simp_all

lemma turns_of_map [simp]: "turns_of i (map (map_turn f) sched) = turns_of i sched"
  by (induction i sched rule: turns_of.induct) simp_all

lemma isolated_thread:
  assumes "settled ps" and "i < length (ps_threads ps)" and "thread_user (ps_threads ps ! i) \<in> {None, Some c}"
    and "\<And>j. j < length (ps_threads ps) \<Longrightarrow> j \<noteq> i \<Longrightarrow> thread_user (ps_threads ps ! j) \<noteq> Some c"
    and "\<And>si. si \<in> set (arrivals sched) \<Longrightarrow> hello_user (si_conn si) \<noteq> Some c"
    and "thread_steps P (turns_of i sched) (ps_threads ps ! i) (ps_shared ps) = (t, sh)"
  shows "ps_threads (process_exec P sched ps) ! i = t \<and>
    same_shared (se_ip (si_session (th_input (ps_threads ps ! i))), hex_str c) c (ps_shared (process_exec P sched ps)) sh"
proof -
  obtain us v where e: "exec (pstep P) (map (map_turn thread_new) sched) (ps_threads ps, ps_shared ps) = (us, v)" by fastforce
  have st: "steady (ps_threads ps ! j)" if "j < length (ps_threads ps)" for j using assms(1) that by (simp add: settled_def)
  have "us ! i = t \<and> same_shared (se_ip (si_session (th_input (ps_threads ps ! i))), hex_str c) c v sh"
    by (rule user.isolated [OF assms(2) _ _ _ settled_same [OF assms(1)] e])
      (use assms(2-) st in \<open>auto simp: user_thread_def other_thread_def thread_steps_solo steady_new\<close>)
  with e show ?thesis by (simp add: process_exec_def)
qed

lemma session_served:
  assumes "settled ps" and "\<And>j. j < length (ps_threads ps) \<Longrightarrow> thread_user (ps_threads ps ! j) \<noteq> Some c"
    and "\<And>si'. si' \<in> set (arrivals sched) \<Longrightarrow> hello_user (si_conn si') \<noteq> Some c"
    and "hello_user (si_conn si) \<in> {None, Some c}" and "9 \<le> turns_of (length (ps_threads ps)) sched"
  shows "let t = ps_threads (process_exec P (Arrive si # sched) ps) ! length (ps_threads ps);
      (e, w) = run P (si_session si) (si_random si)
        (session_new (si_session si) (si_conn si) (current_limiter (ps_shared ps)) (sh_storage (ps_shared ps))) in
    th_pc t = Done e \<and> th_conn t = w_conn w"
proof -
  let ?i = "length (ps_threads ps)" and ?n = "turns_of (length (ps_threads ps)) sched"
  let ?ps = "ps\<lparr>ps_threads := ps_threads ps @ [thread_new si]\<rparr>"
  obtain t sh where t: "thread_steps P ?n (thread_new si) (ps_shared ps) = (t, sh)" by fastforce
  have "ps_threads (process_exec P sched ?ps) ! ?i = t"
    using isolated_thread [of ?ps ?i c sched P t sh] assms t by (auto simp: settled_def steady_new nth_append less_Suc_eq)
  moreover obtain n t' sh' e w where n: "thread_steps P n (thread_new si) (ps_shared ps) = (t', sh')"
    "run P (si_session si) (si_random si)
       (session_new (si_session si) (si_conn si) (current_limiter (ps_shared ps)) (sh_storage (ps_shared ps))) = (e, w)"
    "th_pc t' = Done e" "th_conn t' = w_conn w"
    using thread_alone_run [of "ps_shared ps", where P = P and si = si] assms(1) by (auto simp: settled_def current_ok_def)
  moreover have "t = t'"
    using thread_steps_finish [OF assms(1) steady_new(1) [of si] assms(5), where P = P]
      thread_steps_ended [of P ?n "thread_new si" "ps_shared ps" _ n] t n by auto
  ultimately show ?thesis by (simp add: process_exec_Cons)
qed

text \<open>
  C9: users are isolated from each other: in every interleaving of the server's threads, with any number of
  new connections, a thread whose user no other thread asks for is exactly where its own steps alone
  would have brought it, with the same frames sent, and the user's record in the store and attempts at
  the limiter are what these steps alone would have made them.  It holds from any state the process
  reaches once its limiter exists and its store is usable.
\<close>

theorem users_isolated:
  assumes "settled ps" and "i < length (ps_threads ps)" and "thread_user (ps_threads ps ! i) \<in> {None, Some c}"
    and "\<And>j. j < length (ps_threads ps) \<Longrightarrow> j \<noteq> i \<Longrightarrow> thread_user (ps_threads ps ! j) \<noteq> Some c"
    and "\<And>si. si \<in> set (arrivals sched) \<Longrightarrow> hello_user (si_conn si) \<noteq> Some c"
    and "k = (se_ip (si_session (th_input (ps_threads ps ! i))), hex_str c)"
  shows "let ps' = process_exec P sched ps; (t, sh) = thread_steps P (turns_of i sched) (ps_threads ps ! i) (ps_shared ps) in
    ps_threads ps' ! i = t \<and> users_view c (sh_storage (ps_shared ps')) = users_view c (sh_storage sh) \<and>
    limiter_view (sh_limiters (ps_shared ps') ! 0) k = limiter_view (sh_limiters sh ! 0) k"
  using isolated_thread [OF assms(1-5), where P = P] by (auto simp: assms(6) same_shared_def same_store_def Let_def)

lemma login_request_hello: "login_request si = Some (ch, raw, c) \<Longrightarrow> hello_user (si_conn si) = Some (ch_credential_id ch)"
  by (auto simp: login_request_def hello_user_def split: prod.splits sum.splits if_splits)

text \<open>A connection that sends nothing.\<close>

definition sample_silent :: session_input where
  "sample_silent = \<lparr>si_session = sample_session, si_random = sample_session_random, si_conn = fed []\<rparr>"

lemma sample_silent_user: "hello_user (si_conn sample_silent) = None"
proof -
  have "\<not> (\<exists>raw c'. conn_recv (fed []) = (Inr raw, c'))" using conn_recv_consumes [of "fed []"] by fastforce
  then show ?thesis by (auto simp: hello_user_def sample_silent_def split: prod.split sum.split)
qed

theorem users_isolated_witness:
  "\<exists>si sg. let ps = process_exec sample [Arrive si] (process_new True sg);
      ps' = process_exec sample [Arrive sample_silent, Turn 0, Turn 1, Turn 0] ps in
    ps_threads ps' ! 0 = fst (thread_steps sample 2 (thread_new si) (ps_shared ps))"
proof -
  from sample_guess obtain si ch raw c where si: "login_request si = Some (ch, raw, c)" by blast
  define ps where "ps = process_exec sample [Arrive si] (process_new True sample_storage)"
  have ps: "ps_threads ps = [thread_new si]" "ps_shared ps = shared_warm sample_storage"
    by (simp_all add: ps_def process_exec_Cons process_exec_Nil process_new_def)
  have "settled ps"
    using settled_new [OF sample_users_ready] steady_new by (simp add: settled_def ps process_new_def)
  from users_isolated [OF this, of 0 "ch_credential_id ch" "[Arrive sample_silent, Turn 0, Turn 1, Turn 0]" _ sample, OF _ _ _ _ refl]
  have "ps_threads (process_exec sample [Arrive sample_silent, Turn 0, Turn 1, Turn 0] ps) ! 0 =
      fst (thread_steps sample 2 (thread_new si) (ps_shared ps))"
    using login_request_hello [OF si] by (simp add: ps steady_new sample_silent_user Let_def numeral_2_eq_2 split: prod.splits)
  then show ?thesis unfolding ps_def Let_def by blast
qed

text \<open>
  C10: every session is served, whatever the other users do: a connection whose user nobody else asks for,
  opened at any moment of a running server, ends after at most nine turns of its thread as \<open>run\<close> ends
  on the limiter and the store it found, with the same frames sent.
\<close>

theorem sessions_served:
  assumes "settled ps" and "\<And>j. j < length (ps_threads ps) \<Longrightarrow> thread_user (ps_threads ps ! j) \<noteq> Some c"
    and "\<And>si'. si' \<in> set (arrivals sched) \<Longrightarrow> hello_user (si_conn si') \<noteq> Some c"
    and "hello_user (si_conn si) \<in> {None, Some c}" and "9 \<le> turns_of (length (ps_threads ps)) sched"
  shows "let t = ps_threads (process_exec P (Arrive si # sched) ps) ! length (ps_threads ps);
      (e, w) = run P (si_session si) (si_random si)
        (session_new (si_session si) (si_conn si) (current_limiter (ps_shared ps)) (sh_storage (ps_shared ps))) in
    th_pc t = Done e \<and> th_conn t = w_conn w"
  by (rule session_served [OF assms])

theorem sessions_served_witness:
  "\<exists>si e. th_pc (ps_threads (process_exec sample (Arrive si # Arrive sample_silent # Turn 1 # replicate 9 (Turn 0))
     (process_new True sample_storage)) ! 0) = Done e"
proof -
  from sample_guess obtain si ch raw c where si: "login_request si = Some (ch, raw, c)" by blast
  have a: "settled (process_new True sample_storage)" by (rule settled_new [OF sample_users_ready])
  define sched :: "session_input turn list" where "sched = Arrive sample_silent # Turn 1 # replicate 9 (Turn 0)"
  have n: "arrivals sched = [sample_silent]" "turns_of 0 sched = 9" by (simp_all add: sched_def numeral_eq_Suc)
  have t: "ps_threads (process_new True sample_storage) = []" by (simp add: process_new_def)
  have "\<exists>e. th_pc (ps_threads (process_exec sample (Arrive si # sched) (process_new True sample_storage)) ! 0) = Done e"
    using sessions_served [OF a, of "ch_credential_id ch" sched si sample] login_request_hello [OF si]
    by (auto simp: n t sample_silent_user Let_def split: prod.splits)
  then show ?thesis unfolding sched_def by blast
qed

end
