(* ===== verification/Failed_Logins.thy ===== *)
theory Failed_Logins
  imports Prelude Utf8 Codec Framing Connection Primitives Sample_Primitives Kdf Record_Layer Ratelimit Server_Config
    Storage Pki Opaque_Core Opaque Server Client Echo_Loop Handshake Registration Sample_Run Login_Security
    Concurrent Thread_Alone
begin

text \<open>
  Logins that fail, as runs of the client's program against the server's session: the rate limiter refuses
  the attempt, or the client cannot open the envelope it is sent, because the password is wrong or the
  user does not exist.  Both sides end in a defined way, and nothing but the attempt is recorded.
\<close>

section \<open>How a login starts\<close>

definition starts_login :: "prims \<Rightarrow> client_random \<Rightarrow> pystr \<Rightarrow> pystr \<Rightarrow> bytes \<Rightarrow> bytes \<Rightarrow> login_state \<Rightarrow> bool" where
  "starts_login P crnd username password cid ke1 lst \<longleftrightarrow> make_login_credential_id P username = Inr cid \<and>
     (\<exists>pw. utf8_encode password = Inr pw \<and>
        client_login_start P (cr_blind crnd) (cr_eph_priv crnd) (cr_nonce crnd) pw = Inr (ke1, lst))"

text \<open>Its ClientHello.\<close>

lemma starts_login_hello:
  assumes "sha512_ok P" and "ec_keys_ok P" and "length (cr_nonce crnd) = 32"
    and "starts_login P crnd username password cid ke1 lst"
  obtains ch t1 where "encode_client_hello 1 cid (ls_nonce_c lst) ke1 = Inr ch" "length ch \<le> 300" "ch \<noteq> []" "hd ch = 1"
    "decode_client_hello ch = Inr \<lparr>ch_version = 1, ch_credential_id = cid, ch_client_nonce = ls_nonce_c lst, ch_opaque_ke1 = ke1\<rparr>"
    "transcript_add (lit ''client_hello'') ch transcript_new = Inr t1"
proof -
  from assms(4) obtain pw where pw: "client_login_start P (cr_blind crnd) (cr_eph_priv crnd) (cr_nonce crnd) pw = Inr (ke1, lst)"
    and cid: "make_login_credential_id P username = Inr cid" by (auto simp: starts_login_def)
  have ke1: "length ke1 = 130" "ls_nonce_c lst = cr_nonce crnd"
    using pw assms(3) oprf_blind_length ec_keys_okD(2) [OF assms(2)] by (auto simp: client_login_start_Inr pack_ke1_def)
  have "length cid = 64" using cid length_hash_bytes [OF assms(1)] by (auto simp: make_login_credential_id_def bindE_eq_Inr)
  from client_hello_ok [OF this, of "ls_nonce_c lst" ke1 1] ke1 assms(3) obtain ch where
    ch: "encode_client_hello 1 cid (ls_nonce_c lst) ke1 = Inr ch" "length ch \<le> 300" "ch \<noteq> []" "hd ch = 1"
    "decode_client_hello ch = Inr \<lparr>ch_version = 1, ch_credential_id = cid, ch_client_nonce = ls_nonce_c lst, ch_opaque_ke1 = ke1\<rparr>"
    by auto
  moreover obtain t1 where "transcript_add (lit ''client_hello'') ch transcript_new = Inr t1"
    using transcript_add_label [of ch "''client_hello''"] ch(2) by auto
  ultimately show ?thesis by (rule that)
qed

text \<open>The client when it is answered with an alert, and when it cannot use the KE2 of an authentic ServerHello.\<close>

lemma client_answered:
  assumes "starts_login P crnd username password cid ke1 lst"
    and ch: "encode_client_hello 1 cid (ls_nonce_c lst) ke1 = Inr ch" "length ch \<le> 300"
    and t1: "transcript_add (lit ''client_hello'') ch transcript_new = Inr t1"
    and d: "delivers c [frame_of p]" and p: "length p \<le> MAX_FRAME" "p \<noteq> []"
  shows "uint (hd p) = TAG_ALERT \<Longrightarrow> decode_alert p = Inr al \<Longrightarrow>
      \<exists>c'. client_main P crnd now ca username password message c =
        (Inl (PyError RuntimeError (lit ''Server alert: '' @ al_message al)), c') \<and> cn_out c' = cn_out c @ [frame_of ch]"
    and "hd p = 2 \<Longrightarrow> transcript_add (lit ''server_hello'') p t1 = Inr t2 \<Longrightarrow> decode_server_hello p = Inr m \<Longrightarrow>
      authenticate_server P now ca ch m = Inr cert \<Longrightarrow> client_login_finish P lst (sh_opaque_ke2 m) = Inl e \<Longrightarrow>
      \<exists>c'. client_main P crnd now ca username password message c = (Inl e, c') \<and> cn_out c' = cn_out c @ [frame_of ch]"
proof -
  define c1 where "c1 = c\<lparr>cn_out := cn_out c @ [frame_of ch]\<rparr>"
  have 1: "conn_send ch c = (Inr (), c1)" using ch(2) d by (simp add: conn_send_ok c1_def delivers_def)
  from conn_recv_frame [of c1 p "[]"] d p(1) obtain i where i: "conn_recv c1 = (Inr p, c1\<lparr>cn_in := i\<rparr>)"
    by (auto simp: c1_def delivers_def)
  obtain pw u where n: "make_login_credential_id P username = Inr cid" "utf8_encode password = Inr pw" "utf8_encode username = Inr u"
    "client_login_start P (cr_blind crnd) (cr_eph_priv crnd) (cr_nonce crnd) pw = Inr (ke1, lst)"
    using assms(1) by (auto simp: starts_login_def make_login_credential_id_def bindE_eq_Inr)
  have o: "cn_out (c1\<lparr>cn_in := i\<rparr>) = cn_out c @ [frame_of ch]" by (simp add: c1_def)
  note simps = client_main_def client_login_def bindS_def liftS_def n ch(1) t1 1 i py_index_hd [OF p(2)]
  show "\<exists>c'. client_main P crnd now ca username password message c =
      (Inl (PyError RuntimeError (lit ''Server alert: '' @ al_message al)), c') \<and> cn_out c' = cn_out c @ [frame_of ch]"
    if "uint (hd p) = TAG_ALERT" "decode_alert p = Inr al"
    using that o by (simp add: simps alert_error_def)
  show "\<exists>c'. client_main P crnd now ca username password message c = (Inl e, c') \<and> cn_out c' = cn_out c @ [frame_of ch]"
    if "hd p = 2" "transcript_add (lit ''server_hello'') p t1 = Inr t2" "decode_server_hello p = Inr m"
      "authenticate_server P now ca ch m = Inr cert" "client_login_finish P lst (sh_opaque_ke2 m) = Inl e"
    using that o by (simp add: simps)
qed

section \<open>Refused by the rate limiter\<close>

lemma rate_alert:
  "\<exists>a. encode_alert ALERT_FATAL rate_message = Inr a \<and> length a \<le> 300 \<and>
     a \<noteq> [] \<and> uint (hd a) = TAG_ALERT \<and>
     decode_alert a = Inr \<lparr>al_level = ALERT_FATAL, al_message = rate_message\<rparr>"
proof -
  let ?m = rate_message
  obtain u where u: "utf8_encode ?m = Inr u" "length u \<le> 100" by (simp add: rate_message_def lit_def utf8_char_def)
  then have a: "encode_alert ALERT_FATAL ?m = Inr (5 # 2 # be_enc 2 (length u) @ u)"
    by (simp add: encode_alert_def p16_Inr bindE_eq_Inr byte_of_int_def)
  with dec_enc_alert [of "\<lparr>al_level = ALERT_FATAL, al_message = ?m\<rparr>" _ "[]"] u(2) show ?thesis
    by (simp add: enc_alert_def)
qed

lemma server_refuses:
  assumes "delivers d [frame_of ch]" and ch: "length ch \<le> 300" "ch \<noteq> []" "hd ch = 1" "decode_client_hello ch = Inr m" "ch_version m = 1"
    and "allow (sr_now_limiter rnd) (se_ip se) (ch_credential_id m) (get_limiter limiter) = (False, rl)"
    and a: "encode_alert ALERT_FATAL rate_message = Inr a" "length a \<le> 300"
  shows "\<exists>w'. run P se rnd (session_new se d limiter sg) = (Completed, w') \<and> cn_out (w_conn w') = cn_out d @ [frame_of a] \<and>
    w_limiter w' = Some rl \<and> w_storage w' = sg"
proof -
  let ?w = "session_new se d limiter sg"
  from session_hello [of ?w ch "[]" m P se rnd] assms(1) ch obtain i where
    i: "session_body P se rnd ?w = handle_login P se rnd m ch (?w\<lparr>w_conn := d\<lparr>cn_in := i\<rparr>\<rparr>)"
    by (auto simp: delivers_def session_new_def MAX_FRAME_def)
  have h: "handle_login P se rnd m ch (?w\<lparr>w_conn := d\<lparr>cn_in := i\<rparr>\<rparr>) = (Inr (), ?w\<lparr>w_limiter := Some rl,
      w_conn := d\<lparr>cn_in := i, cn_out := cn_out d @ [frame_of a]\<rparr>\<rparr>)"
    using assms(1,7) a
    by (simp add: handle_login_admitted send_alert_def bindS_def liftS_def on_conn_def session_new_def conn_send_ok delivers_def)
  show ?thesis unfolding run_def i h by (simp add: session_new_def)
qed

section \<open>An envelope that does not open\<close>

text \<open>
  The server answers with the record's envelope, or a fake one for an unknown user; \<open>k\<close>, \<open>c\<close> and \<open>env\<close> are what
  \<open>login_start\<close> works with.  The client derives \<open>rw\<close> from the answer and fails to open the envelope with it.
\<close>

definition wrong_secret :: "prims \<Rightarrow> session_random \<Rightarrow> client_random \<Rightarrow> bytes \<Rightarrow> login_state \<Rightarrow> storage \<Rightarrow> py_error \<Rightarrow> bool" where
  "wrong_secret P rnd crnd cid lst sg e \<longleftrightarrow> (\<exists>rec k c env Z rw.
     fst (load_opaque_record cid sg) = Inr rec \<and> login_inputs P (sr_login rnd) rec = (k, ec_public_bytes P c, env) \<and>
     length env \<le> 60000 \<and> p256_scalar_mult k (ls_M lst) = Inr Z \<and>
     oprf_finalize P (ls_password lst) (cr_blind crnd) Z = Inr rw \<and> envelope_open P rw env = Inl e \<and> err_kind e = ValueError)"

lemma conn_recv_eof: "live (cn_in c) \<Longrightarrow> stream (cn_in c) = [] \<Longrightarrow> \<exists>e. conn_recv c = (Inl e, c) \<and> err_kind e = ConnectionError"
proof -
  assume l: "live (cn_in c)" "stream (cn_in c) = []"
  have "parse_frame [] = Inl (PyError ConnectionError (closed_msg 0 4))" by (simp add: parse_frame_def take_exactly_def)
  with frames.rd_Inl [OF l(1)] l(2) show ?thesis by (auto simp: conn_recv_Inl)
qed

text \<open>The server's answer, and what the client makes of it.\<close>

lemma wrong_secret_exchange:
  assumes "ec_keys_ok P" and "run_random_ok P rnd crnd" and st: "starts_login P crnd username password cid ke1 lst"
    and ws: "wrong_secret P rnd crnd cid lst sg e"
  obtains ke2 ss where "server_login_start P (sr_login rnd) cid ke1 (opaque_server_new key) sg = (Inr (ke2, ss), snd (users_db sg))"
    "length ke2 < 65536" "client_login_finish P lst ke2 = Inl (PyError ValueError (lit ''Login failed: '' @ err_msg e))"
proof -
  from ws obtain rec k c env Z rw where r: "fst (load_opaque_record cid sg) = Inr rec"
    "login_inputs P (sr_login rnd) rec = (k, ec_public_bytes P c, env)" "length env \<le> 60000" "p256_scalar_mult k (ls_M lst) = Inr Z"
    "oprf_finalize P (ls_password lst) (cr_blind crnd) Z = Inr rw" "envelope_open P rw env = Inl e" "err_kind e = ValueError"
    unfolding wrong_secret_def by blast
  from st obtain pw M eph where M: "oprf_blind P (cr_blind crnd) pw = Inr (cr_blind crnd, M)" "priv_bytes (cr_eph_priv crnd) = Inr eph"
    and ke1: "ke1 = pack_ke1 M (cr_nonce crnd) (ec_public_bytes P (cr_eph_priv crnd))"
    and lst: "lst = \<lparr>ls_blind = cr_blind crnd, ls_password = pw, ls_c_eph_priv = eph,
       ls_c_eph_pub = ec_public_bytes P (cr_eph_priv crnd), ls_nonce_c = cr_nonce crnd, ls_M = M\<rparr>"
    by (auto simp: starts_login_def client_login_start_Inr)
  have len: "length (cr_nonce crnd) = 32" "length (lr_nonce_s (sr_login rnd)) = 32" "valid_priv P (cr_eph_priv crnd)"
    "length M = 33" "length Z = 33" "length env < 2 ^ 24"
    using assms(2) oprf_blind_length [OF M(1)] scalar_mult_length [OF r(4)] r(3) by (simp_all add: run_random_ok_def)
  have Z: "p256_scalar_mult k M = Inr Z" using r(4) lst by simp
  let ?spub = "ec_public_bytes P (lr_s_eph_priv (sr_login rnd))"
  from server_login_reply_exists [OF assms(1) len(4,1) r(2) len(6) Z, of key "cr_eph_priv crnd"] obtain ke2 ss where
    reply: "server_login_reply P (sr_login rnd) key rec ke1 = Inr (ke2, ss)" unfolding ke1 by blast
  from server_login_reply_Inr [OF this] r(2) Z unpack_pack_ke1 [OF len(4,1)]
  have ke2: "server_login_reply P (sr_login rnd) key rec ke1 = Inr (ke2, ss)"
    "pack_ke2 Z env (lr_nonce_s (sr_login rnd)) ?spub (ss_server_mac ss) = Inr ke2" "length (ss_server_mac ss) = 64"
    using reply by (auto simp: ke1)
  have start: "server_login_start P (sr_login rnd) cid ke1 (opaque_server_new key) sg = (Inr (ke2, ss), snd (users_db sg))"
    using r(1) ke2(1) by (cases "load_opaque_record cid sg")
      (auto simp: server_login_start_def opaque_server_new_def load_opaque_record_def split: prod.splits)
  have "unpack_ke2 ke2 = (Z, env, lr_nonce_s (sr_login rnd), ?spub, ss_server_mac ss)"
    using unpack_pack_ke2 [OF ke2(2) len(5,2) ec_keys_okD(2) [OF assms(1)], of "[]"] ke2(3) by simp
  moreover have "load_priv P eph = Inr (cr_eph_priv crnd)" using priv_bytes_valid [OF len(3)] M(2) by auto
  ultimately have "client_login_finish P lst ke2 = Inl (PyError ValueError (lit ''Login failed: '' @ err_msg e))"
    using r(5-7) by (simp add: client_login_finish_def lst)
  moreover have "length ke2 < 65536"
    using pack_ke2_length [OF ke2(2)] r(3) len(2,5) ec_keys_okD(2) [OF assms(1)] ke2(3) by simp
  ultimately show ?thesis using that [OF start] by blast
qed

lemma server_abandoned:
  assumes d: "delivers d [frame_of ch]" and ch: "length ch \<le> 300" "ch \<noteq> []" "hd ch = 1" "decode_client_hello ch = Inr m" "ch_version m = 1"
    and "allow (sr_now_limiter rnd) (se_ip se) (ch_credential_id m) (get_limiter limiter) = (True, rl)"
    and t1: "transcript_add (lit ''client_hello'') ch transcript_new = Inr t1"
    and start: "server_login_start P (sr_login rnd) (ch_credential_id m) (ch_opaque_ke1 m) (opaque_server_new (se_server_key se)) sg =
      (Inr (ke2, ss), sg')"
    and sh: "build_signed_server_hello P se rnd t1 ke2 = Inr sh" "length sh \<le> MAX_FRAME"
    and t2: "transcript_add (lit ''server_hello'') sh t1 = Inr t2"
  shows "\<exists>e w'. run P se rnd (session_new se d limiter sg) = (Connection_error e, w') \<and>
    cn_out (w_conn w') = cn_out d @ [frame_of sh] \<and> w_limiter w' = Some rl \<and> w_storage w' = sg'"
proof -
  let ?w = "session_new se d limiter sg"
  from session_hello [of ?w ch "[]" m P se rnd] d ch obtain i where
    i: "session_body P se rnd ?w = handle_login P se rnd m ch (?w\<lparr>w_conn := d\<lparr>cn_in := i\<rparr>\<rparr>)" "stream i = []" "live i"
    by (auto simp: delivers_def session_new_def MAX_FRAME_def)
  define c where "c = d\<lparr>cn_in := i, cn_out := cn_out d @ [frame_of sh]\<rparr>"
  have snd: "conn_send sh (d\<lparr>cn_in := i\<rparr>) = (Inr (), c)"
    using d sh(2) by (simp add: c_def conn_send_ok delivers_def MAX_FRAME_def)
  obtain e where e: "conn_recv c = (Inl e, c)" "err_kind e = ConnectionError"
    using conn_recv_eof [of c] i(2,3) by (auto simp: c_def)
  have h: "handle_login P se rnd m ch (?w\<lparr>w_conn := d\<lparr>cn_in := i\<rparr>\<rparr>) = (Inl e, ?w\<lparr>w_limiter := Some rl, w_storage := sg', w_conn := c\<rparr>)"
    using assms(7)
    by (simp add: handle_login_admitted login_exchange_def login_complete_def bindS_def tryS_def liftS_def on_conn_def on_storage_def
        session_new_def t1 start sh(1) t2 snd e(1))
  show ?thesis unfolding run_def i(1) h using e(2) by (simp add: session_new_def c_def)
qed

section \<open>Properties\<close>

text \<open>
  C18: a login the rate limiter refuses: whatever the password, fed with each other's frames the client's
  program ends with the server's alert as its error, after the ClientHello alone, and the session ends
  normally after the alert alone; the store has not been looked at and the refused attempt is not counted.
\<close>

theorem login_refused:
  assumes "sha512_ok P" and "ec_keys_ok P" and "length (cr_nonce crnd) = 32"
    and "starts_login P crnd username password cid ke1 lst"
    and "allow (sr_now_limiter rnd) (se_ip se) cid (get_limiter limiter) = (False, rl)"
  shows "\<exists>c_out s_out. length c_out = 1 \<and> length s_out = 1 \<and>
    (\<forall>c now ca. delivers c s_out \<longrightarrow>
       (\<exists>c'. client_main P crnd now ca username password message c =
          (Inl (PyError RuntimeError (lit ''Server alert: '' @ rate_message)), c') \<and> cn_out c' = cn_out c @ c_out)) \<and>
    (\<forall>d sg. delivers d c_out \<longrightarrow>
       (\<exists>w'. run P se rnd (session_new se d limiter sg) = (Completed, w') \<and> cn_out (w_conn w') = cn_out d @ s_out \<and>
          w_limiter w' = Some rl \<and> w_storage w' = sg))"
proof -
  from assms(4) have cid: "make_login_credential_id P username = Inr cid" by (simp add: starts_login_def)
  obtain ch t1 where ch: "encode_client_hello 1 cid (ls_nonce_c lst) ke1 = Inr ch" "length ch \<le> 300" "ch \<noteq> []" "hd ch = 1"
    "decode_client_hello ch = Inr \<lparr>ch_version = 1, ch_credential_id = cid, ch_client_nonce = ls_nonce_c lst, ch_opaque_ke1 = ke1\<rparr>"
    "transcript_add (lit ''client_hello'') ch transcript_new = Inr t1"
    by (rule starts_login_hello [OF assms(1-4)])
  obtain a where a: "encode_alert ALERT_FATAL rate_message = Inr a" "length a \<le> 300" "a \<noteq> []" "uint (hd a) = TAG_ALERT"
    "decode_alert a = Inr \<lparr>al_level = ALERT_FATAL, al_message = rate_message\<rparr>"
    using rate_alert by blast
  have "length a \<le> MAX_FRAME" using a(2) by (simp add: MAX_FRAME_def)
  note c = client_answered(1) [OF assms(4) ch(1,2,6) _ this a(3-5)]
  note s = server_refuses [OF _ ch(2-5) _ _ a(1,2)]
  show ?thesis
    by (rule exI [of _ "[frame_of ch]"], rule exI [of _ "[frame_of a]"]) (use c s assms(5) in simp)
qed

lemma sample_starts:
  "\<exists>cid lst. starts_login sample sample_client_random [97] [112, 119] cid sample_ke1 lst \<and> ls_M lst = sample_point \<and>
     ls_password lst = [112, 119]"
proof -
  obtain lst where lst: "client_login_start sample (cr_blind sample_client_random) (cr_eph_priv sample_client_random)
     (cr_nonce sample_client_random) [112, 119] = Inr (sample_ke1, lst)" "ls_M lst = sample_point"
    using sample_client_start by blast
  moreover have "ls_password lst = [112, 119]" using lst(1) by (auto simp: client_login_start_Inr)
  ultimately show ?thesis
    using sample_names(1,2) by (auto simp: starts_login_def make_login_credential_id_def)
qed

text \<open>A limiter that has admitted ten attempts of the user at the time 0.\<close>

definition sample_exhausted :: rate_limiter where
  "sample_exhausted = \<lparr>rl_window = 60 * 10 ^ 9, rl_max = 10, rl_history = (\<lambda>_. Some (replicate 10 0))\<rparr>"

theorem login_refused_witness:
  "\<exists>c_out s_out c' w'. client_main sample sample_client_random sample_times (Inr sample_ca) [97] [112, 119] [104, 105] (fed s_out) =
     (Inl (PyError RuntimeError (lit ''Server alert: '' @ rate_message)), c') \<and> cn_out c' = c_out \<and>
     run sample sample_session sample_session_random (session_new sample_session (fed c_out) (Some sample_exhausted) sample_storage) =
       (Completed, w') \<and> cn_out (w_conn w') = s_out"
proof -
  obtain cid lst where st: "starts_login sample sample_client_random [97] [112, 119] cid sample_ke1 lst" using sample_starts by blast
  obtain rl where "allow (sr_now_limiter sample_session_random) (se_ip sample_session) cid (get_limiter (Some sample_exhausted)) = (False, rl)"
    by (simp add: allow_def Let_def get_limiter_def sample_exhausted_def timestamps_def sample_session_random_def)
  from login_refused [OF _ _ _ st this] obtain c_out s_out where
    "\<forall>c now ca. delivers c s_out \<longrightarrow> (\<exists>c'. client_main sample sample_client_random now ca [97] [112, 119] [104, 105] c =
          (Inl (PyError RuntimeError (lit ''Server alert: '' @ rate_message)), c') \<and> cn_out c' = cn_out c @ c_out)"
    "\<forall>d sg. delivers d c_out \<longrightarrow> (\<exists>w'. run sample sample_session sample_session_random
       (session_new sample_session d (Some sample_exhausted) sg) = (Completed, w') \<and> cn_out (w_conn w') = cn_out d @ s_out)"
    by (fastforce simp: sample_client_random_def)
  from this [rule_format, OF fed_delivers] show ?thesis unfolding fed_simps(4) append_Nil by blast
qed

text \<open>
  C19: a login with a wrong password and a login of an unknown user go the same way: if the envelope does
  not open under the secret the client derives from the answer, then, fed with each other's frames, the
  client's program ends with the reason it could not open it, having sent its ClientHello and no KE3,
  and the session ends when the connection closes, having sent its ServerHello; the attempt stays
  counted and the store holds what it held.
\<close>

theorem login_fails:
  assumes "primitives_ok P" and "good_identity P se ca (ct_now_chain now)" and "run_random_ok P rnd crnd" and "clocks_ok rnd now"
    and "starts_login P crnd username password cid ke1 lst" and "wrong_secret P rnd crnd cid lst sg e"
    and "allow (sr_now_limiter rnd) (se_ip se) cid (get_limiter limiter) = (True, rl)"
  shows "\<exists>c_out s_out. length c_out = 1 \<and> length s_out = 1 \<and>
    (\<forall>c. delivers c s_out \<longrightarrow>
       (\<exists>c'. client_main P crnd now (Inr ca) username password message c =
          (Inl (PyError ValueError (lit ''Login failed: '' @ err_msg e)), c') \<and> cn_out c' = cn_out c @ c_out)) \<and>
    (\<forall>d. delivers d c_out \<longrightarrow>
       (\<exists>e' w'. run P se rnd (session_new se d limiter sg) = (Connection_error e', w') \<and> cn_out (w_conn w') = cn_out d @ s_out \<and>
          w_limiter w' = Some rl \<and> w_storage w' = snd (users_db sg)))"
proof -
  have P: "sha512_ok P" "ec_keys_ok P" "ecdsa_ok P" using assms(1) by (simp_all add: primitives_ok_def)
  have len: "length (cr_nonce crnd) = 32" "length (sr_server_nonce rnd) = 32" using assms(3) by (simp_all add: run_random_ok_def)
  obtain ch t1 where ch: "encode_client_hello 1 cid (ls_nonce_c lst) ke1 = Inr ch" "length ch \<le> 300" "ch \<noteq> []" "hd ch = 1"
    "decode_client_hello ch = Inr \<lparr>ch_version = 1, ch_credential_id = cid, ch_client_nonce = ls_nonce_c lst, ch_opaque_ke1 = ke1\<rparr>"
    "transcript_add (lit ''client_hello'') ch transcript_new = Inr t1"
    by (rule starts_login_hello [OF P(1,2) len(1) assms(5)])
  obtain ke2 ss where ke2: "server_login_start P (sr_login rnd) cid ke1 (opaque_server_new (se_server_key se)) sg = (Inr (ke2, ss), snd (users_db sg))"
    "length ke2 < 65536" "client_login_finish P lst ke2 = Inl (PyError ValueError (lit ''Login failed: '' @ err_msg e))"
    by (rule wrong_secret_exchange [OF P(2) assms(3,5,6)])
  from server_hello_accepted [OF P(3) assms(2) _ _ _ len(2) ke2(2) ch(6)] assms(4) obtain sh m where
    sh: "build_signed_server_hello P se rnd t1 ke2 = Inr sh" "decode_server_hello sh = Inr m" "sh_opaque_ke2 m = ke2"
    "authenticate_server P now (Inr ca) ch m = Inr (se_server_cert se)" "length sh \<le> MAX_FRAME" "sh \<noteq> []" "hd sh = 2"
    unfolding clocks_ok_def by blast
  obtain t2 where t2: "transcript_add (lit ''server_hello'') sh t1 = Inr t2"
    using transcript_add_label [of sh "''server_hello''"] sh(5) by (auto simp: MAX_FRAME_def)
  note c = client_answered(2) [OF assms(5) ch(1,2,6) _ sh(5-7) t2 sh(2,4) ke2(3) [folded sh(3)]]
  note s = server_abandoned [OF _ ch(2-5) _ _ ch(6) _ sh(1,5) t2]
  show ?thesis
    by (rule exI [of _ "[frame_of ch]"], rule exI [of _ "[frame_of sh]"]) (use c s assms(7) ke2(1) in simp)
qed

text \<open>The sample user is unknown to an empty store, and the fake envelope does not open.\<close>

lemma sample_wrong_secret:
  assumes "ls_M lst = sample_point" and "ls_password lst = [112, 119]"
  shows "wrong_secret sample sample_session_random sample_client_random cid lst sample_storage (PyError ValueError env_failed_msg)"
proof -
  obtain rw where rw: "oprf_finalize sample [112, 119] 1 sample_point = Inr rw" using sample_finalize by blast
  let ?env = "[1] @ replicate 16 1 @ replicate 12 2 @ replicate 113 1 :: bytes"
  have r: "fst (load_opaque_record cid sample_storage) = Inr None"
    by (simp add: load_opaque_record_def store_get_def sample_storage_def users_db_def json_store_new_def Let_def read_raw_def)
  have i: "login_inputs sample (sr_login sample_session_random) None = (1, ec_public_bytes sample 11, ?env)"
    by (simp add: login_inputs_def sample_session_random_def sample_random_def)
  have "slice ?env 0 1 = [1]" "slice ?env 1 17 = replicate 16 1" "slice ?env 17 29 = replicate 12 2" "drop 29 ?env = replicate 113 1"
    by (simp_all add: slice_def numeral_eq_Suc)
  moreover obtain ks where ks: "ksf sample rw (replicate 16 1) = Inr ks" using ksf_ok [of sample "replicate 16 1" rw] by auto
  moreover obtain k where k: "derive_env_key sample ks = Inr k" "aesgcm_new sample k = Inr k"
    using env_key_ok [of sample ks] by auto
  moreover have "fit 16 ([1] @ replicate 12 2 @ k) ! 1 = (2 :: byte)" by (simp add: fit_def numeral_eq_Suc)
  then have "replicate 16 1 \<noteq> fit 16 ([1] @ replicate 12 2 @ k)"
    by (intro notI) (drule arg_cong [of _ _ "\<lambda>l. l ! 1"], simp)
  ultimately have e: "envelope_open sample rw ?env = Inl (PyError ValueError env_failed_msg)"
    by (simp add: envelope_open_def Let_def sample_open_def raise_def)
  show ?thesis unfolding wrong_secret_def
    by (rule exI [of _ None], rule exI [of _ 1], rule exI [of _ 11], rule exI [of _ ?env], rule exI [of _ sample_point], rule exI [of _ rw])
      (use r i rw e sample_point_mult assms in \<open>simp add: sample_client_random_def del: One_nat_def\<close>)
qed

theorem login_fails_witness:
  "\<exists>c_out s_out c' e' w'. client_main sample sample_client_random sample_times (Inr sample_ca) [97] [112, 119] [104, 105] (fed s_out) =
     (Inl (PyError ValueError (lit ''Login failed: '' @ env_failed_msg)), c') \<and> cn_out c' = c_out \<and>
     run sample sample_session sample_session_random (session_new sample_session (fed c_out) None sample_storage) =
       (Connection_error e', w') \<and> cn_out (w_conn w') = s_out"
proof -
  obtain cid lst where st: "starts_login sample sample_client_random [97] [112, 119] cid sample_ke1 lst"
    "ls_M lst = sample_point" "ls_password lst = [112, 119]" using sample_starts by blast
  obtain rl where rl: "allow (sr_now_limiter sample_session_random) (se_ip sample_session) cid (get_limiter None) = (True, rl)"
    using sample_allow by blast
  from login_fails [OF sample_primitives_ok sample_identity sample_run_random sample_clocks st(1) sample_wrong_secret [OF st(2,3)] rl,
      of "[104, 105]"]
  obtain c_out s_out where run:
    "\<And>c. delivers c s_out \<Longrightarrow> \<exists>c'. client_main sample sample_client_random sample_times (Inr sample_ca) [97] [112, 119] [104, 105] c =
          (Inl (PyError ValueError (lit ''Login failed: '' @ err_msg (PyError ValueError env_failed_msg))), c') \<and> cn_out c' = cn_out c @ c_out"
    "\<And>d. delivers d c_out \<Longrightarrow> \<exists>e' w'. run sample sample_session sample_session_random
       (session_new sample_session d None sample_storage) = (Connection_error e', w') \<and> cn_out (w_conn w') = cn_out d @ s_out \<and>
       w_limiter w' = Some rl \<and> w_storage w' = snd (users_db sample_storage)"
    by (elim exE conjE) (rule that; drule spec; erule (1) mp)
  from run(1) [OF fed_delivers] obtain c' where c: "client_main sample sample_client_random sample_times (Inr sample_ca) [97] [112, 119] [104, 105] (fed s_out) =
      (Inl (PyError ValueError (lit ''Login failed: '' @ env_failed_msg)), c')" "cn_out c' = c_out"
    unfolding fed_simps(4) append_Nil py_error.sel by (elim exE conjE)
  from run(2) [OF fed_delivers] obtain e' w' where w: "run sample sample_session sample_session_random
      (session_new sample_session (fed c_out) None sample_storage) = (Connection_error e', w')" "cn_out (w_conn w') = s_out"
    unfolding fed_simps(4) append_Nil by (elim exE conjE)
  show ?thesis
    by (rule exI [of _ c_out], rule exI [of _ s_out], rule exI [of _ c'], rule exI [of _ e'], rule exI [of _ w'], intro conjI)
      (rule c w)+
qed

end
