(* ===== verification/Client_Safety.thy ===== *)
theory Client_Safety
  imports Prelude Hex Utf8 Codec Framing Connection Primitives Kdf Record_Layer
    Server_Config Storage Pki Opaque_Core Opaque Client
begin

text \<open>
  What the client programs give away: the second message of a login or a registration, the only one
  that depends on the password, is sent only to a server that has authenticated itself.
\<close>

section \<open>An authentic ServerHello\<close>

text \<open>
  The certificate is certified by the pinned CA for \<open>localhost\<close> and valid now, its key signed the
  configuration, which is fresh and names this service, and the ServerHello together with the very
  ClientHello that was sent.
\<close>

definition authentic :: "prims \<Rightarrow> check_times \<Rightarrow> x509_cert res \<Rightarrow> bytes \<Rightarrow> parsed_server_hello \<Rightarrow> x509_cert \<Rightarrow> bool" where
  "authentic P now ca ch parsed cert \<longleftrightarrow> (\<exists>pinned cfg pre core.
     ca = Inr pinned \<and> good_server_cert P pinned (lit ''localhost'') (ct_now_chain now) cert \<and>
     verify_server_config_signature P (sh_server_config parsed) (sh_server_config_sig parsed) cert = Inr () \<and>
     decode_server_config (sh_server_config parsed) = Inr cfg \<and> sc_server_name cfg = SERVER_ID \<and>
     \<bar>ct_now_config now - sc_timestamp cfg\<bar> \<le> SERVER_CONFIG_MAX_AGE_S \<and>
     transcript_add (lit ''client_hello'') ch transcript_new = Inr pre \<and>
     encode_server_hello_core (sh_version parsed) (sh_server_nonce parsed) (sh_certificate_chain parsed)
       (sh_server_config parsed) (sh_opaque_ke2 parsed) = Inr core \<and>
     verify_certificate_verify_signature P (sh_cert_verify_sig parsed) (transcript_digest P pre) core cert = Inr ())"

lemma authenticate_authentic: "authenticate_server P now ca ch parsed = Inr cert \<Longrightarrow> authentic P now ca ch parsed cert"
  unfolding authenticate_server_Inr verify_certificate_chain_Inr validate_server_config_Inr authentic_def
  by auto

text \<open>
  \<open>guarded_output P now ca R i out\<close>: a program reading from \<open>i\<close> has written \<open>out\<close>, which is nothing, one
  message \<open>ch\<close>, or \<open>ch\<close> and a message \<open>cf\<close> after an authentic ServerHello to which \<open>R\<close> relates it.
\<close>

definition guarded_output :: "prims \<Rightarrow> check_times \<Rightarrow> x509_cert res \<Rightarrow>
    (parsed_server_hello \<Rightarrow> x509_cert \<Rightarrow> bytes \<Rightarrow> bool) \<Rightarrow> sock_in \<Rightarrow> bytes list \<Rightarrow> bool" where
  "guarded_output P now ca R i out \<longleftrightarrow> out = [] \<or> (\<exists>ch. out = [frame_of ch]) \<or>
     (\<exists>ch cf sh j parsed cert. out = [frame_of ch, frame_of cf] \<and> recv_frame i = Inr (sh, j) \<and>
        decode_server_hello sh = Inr parsed \<and> authentic P now ca ch parsed cert \<and> R parsed cert cf)"

lemma guarded_outputI:
  "guarded_output P now ca R i []" "guarded_output P now ca R i [frame_of ch]"
  "recv_frame i = Inr (sh, j) \<Longrightarrow> decode_server_hello sh = Inr parsed \<Longrightarrow>
    authenticate_server P now ca ch parsed = Inr cert \<Longrightarrow> R parsed cert cf \<Longrightarrow>
    guarded_output P now ca R i [frame_of ch, frame_of cf]"
  unfolding guarded_output_def using authenticate_authentic by blast+

section \<open>Following a program to its end\<close>

lemma bindS_E:
  assumes "bindS m f s = (r, s')"
  obtains (raises) e where "m s = (Inl e, s')" "r = Inl e" | (continues) x s1 where "m s = (Inr x, s1)" "f x s1 = (r, s')"
  using assms by (cases "m s") (auto simp: bindS_def split: sum.splits)

lemma case_prod_E:
  assumes "(case p of (a, b) \<Rightarrow> f a b) s = r"
  obtains a b where "p = (a, b)" "f a b s = r"
  using assms by (cases p) auto

lemma if_E:
  assumes "(if b then m else n) s = r"
  obtains "b" "m s = r" | "\<not> b" "n s = r"
  using assms by (cases b) auto

lemma conn_recv_out:
  "conn_recv c = (r, c') \<Longrightarrow> cn_out c' = cn_out c \<and> (\<forall>m. r = Inr m \<longrightarrow> (\<exists>j. recv_frame (cn_in c) = Inr (m, j)))"
  by (auto simp: conn_recv_def split: sum.splits)

lemmas program_E = bindS_E case_prod_E if_E
lemmas program_out = conn_send_Inr conn_send_Inl conn_recv_out liftS_eq [THEN iffD1] retS_eq [THEN iffD1]

text \<open>The ClientFinish of a login answers the KE2 of the ServerHello.\<close>

definition login_finish_for :: "prims \<Rightarrow> parsed_server_hello \<Rightarrow> x509_cert \<Rightarrow> bytes \<Rightarrow> bool" where
  "login_finish_for P parsed cert cf \<longleftrightarrow> (\<exists>st sk ek ke3.
     client_login_finish P st (sh_opaque_ke2 parsed) = Inr (sk, ek, ke3) \<and> encode_client_finish ke3 = Inr cf)"

lemma login_finish_forI:
  "client_login_finish P st (sh_opaque_ke2 parsed) = Inr (sk, ek, ke3) \<Longrightarrow> encode_client_finish ke3 = Inr cf \<Longrightarrow>
    login_finish_for P parsed cert cf"
  unfolding login_finish_for_def by blast

lemma client_login_out:
  assumes "client_login P rnd now ca username password c = (r, c')"
  shows "\<exists>out. cn_out c' = cn_out c @ out \<and> guarded_output P now ca (login_finish_for P) (cn_in c) out"
  using assms unfolding client_login_def
  by (elim program_E) (auto dest!: program_out intro: guarded_outputI(1,2) guarded_outputI(3) [OF _ _ _ login_finish_forI])

text \<open>The record a registration uploads is sealed for the key that the certificate certifies.\<close>

definition upload_for :: "prims \<Rightarrow> parsed_server_hello \<Rightarrow> x509_cert \<Rightarrow> bytes \<Rightarrow> bool" where
  "upload_for P parsed cert cf \<longleftrightarrow> (\<exists>st priv salt nonce record.
     crt_public_key cert = EcKey (drop POINT_LEN (sh_opaque_ke2 parsed)) \<and>
     registration_finish P st priv salt nonce (sh_opaque_ke2 parsed) = Inr record \<and> encode_client_finish record = Inr cf)"

lemma upload_forI:
  "cert_public_key_bytes cert = Inr (drop 33 (sh_opaque_ke2 parsed)) \<Longrightarrow>
    registration_finish P st priv salt nonce (sh_opaque_ke2 parsed) = Inr record \<Longrightarrow> encode_client_finish record = Inr cf \<Longrightarrow>
    upload_for P parsed cert cf"
  unfolding upload_for_def by (simp add: cert_public_key_bytes_def split: public_key.splits) blast

lemma register_out:
  assumes "register P rnd now ca username password c = (r, c')"
  shows "\<exists>out. cn_out c' = cn_out c @ out \<and> guarded_output P now ca (upload_for P) (cn_in c) out"
  using assms unfolding register_def Let_def
  by (elim program_E) (auto dest!: program_out intro: guarded_outputI(1,2) guarded_outputI(3) [OF _ _ _ upload_forI])

section \<open>What both programs promise\<close>

text \<open>
  C17: the client programs authenticate the server before anything that depends on the password beyond
  the blinded OPRF input leaves them: on any input and with any socket faults, a login or a
  registration has sent nothing, its ClientHello, or its ClientHello and, for an authentic ServerHello
  to exactly that ClientHello, its ClientFinish; a login's finish answers that ServerHello's KE2, and a
  registration uploads a record only for the server key that the certificate certifies.
\<close>

theorem clients_authenticate_first:
  "(\<exists>out. cn_out (snd (client_login P rnd now ca username password c)) = cn_out c @ out \<and>
     guarded_output P now ca (login_finish_for P) (cn_in c) out) \<and>
   (\<exists>out. cn_out (snd (register P rrnd now ca username password c)) = cn_out c @ out \<and>
     guarded_output P now ca (upload_for P) (cn_in c) out)"
  using client_login_out register_out by (metis prod.collapse)

end
