(* ===== verification/Trace_Checker.thy ===== *)
theory Trace_Checker
  imports Prelude Connection Primitives Sample_Primitives Kdf Storage Opaque_Core Opaque Client "HOL-Library.Sublist"
begin

text \<open>
  The trace checker (\<open>formal/trace_checker.py\<close>): it runs the OPAQUE exchange in one process, records
  events and the messages on the channel, and evaluates each of its lemmas on the log.  Printing is
  left out; the random values of every protocol run are arguments.
\<close>

section \<open>Event log and channel\<close>

record event =
  ev_name :: string
  ev_args :: "bytes list"

text \<open>The module's globals, the server object and its record store.\<close>

record checker =
  ck_log :: "event list"
  ck_channel :: "bytes list"
  ck_results :: "(string \<times> bool \<times> string) list"
  ck_server :: opaque_server
  ck_storage :: storage

definition emit :: "string \<Rightarrow> bytes list \<Rightarrow> (checker, unit) st_res" where
  "emit name args s = (Inr (), s\<lparr>ck_log := ck_log s @ [\<lparr>ev_name = name, ev_args = args\<rparr>]\<rparr>)"

definition send :: "bytes \<Rightarrow> (checker, unit) st_res" where
  "send data s = (Inr (), s\<lparr>ck_channel := ck_channel s @ [data]\<rparr>)"

text \<open>\<open>secret in msg\<close> on byte strings.\<close>

fun is_prefix_of :: "bytes \<Rightarrow> bytes \<Rightarrow> bool" where
  "is_prefix_of [] _ = True"
| "is_prefix_of (x # xs) [] = False"
| "is_prefix_of (x # xs) (y # ys) = (x = y \<and> is_prefix_of xs ys)"

fun occurs_in :: "bytes \<Rightarrow> bytes \<Rightarrow> bool" where
  "occurs_in secret [] = (secret = [])"
| "occurs_in secret (y # ys) = (is_prefix_of secret (y # ys) \<or> occurs_in secret ys)"

definition attacker_knows :: "bytes \<Rightarrow> bytes list \<Rightarrow> bool" where
  "attacker_knows secret channel = list_ex (occurs_in secret) channel"

definition check :: "string \<Rightarrow> bool \<Rightarrow> string \<Rightarrow> (checker, unit) st_res" where
  "check lem holds reason s = (Inr (), s\<lparr>ck_results := ck_results s @ [(lem, holds, reason)]\<rparr>)"

text \<open>Operations of the server object inside the checker's state.\<close>

definition on_server :: "(opaque_server, 'a) st_res \<Rightarrow> (checker, 'a) st_res" where
  "on_server m s = (case m (ck_server s) of (r, os) \<Rightarrow> (r, s\<lparr>ck_server := os\<rparr>))"

definition on_store :: "(opaque_server \<Rightarrow> (storage, 'a) st_res) \<Rightarrow> (checker, 'a) st_res" where
  "on_store m s = (case m (ck_server s) (ck_storage s) of (r, sg) \<Rightarrow> (r, s\<lparr>ck_storage := sg\<rparr>))"

definition readS :: "('s \<Rightarrow> 'a) \<Rightarrow> ('s, 'a) st_res" where
  "readS f s = (Inr (f s), s)"

section \<open>Protocol helpers\<close>

definition cred :: "prims \<Rightarrow> bytes \<Rightarrow> bytes" where
  "cred P username = hash_bytes P [CONTEXT_STRING @ username]"

text \<open>The random values of one registration and of one login, on both sides.\<close>

record trace_reg_random =
  tr_blind :: nat
  tr_c_priv :: int
  tr_salt :: bytes
  tr_nonce :: bytes
  tr_oprf_key :: nat

record trace_login_random =
  tl_blind :: nat
  tl_eph_priv :: int
  tl_nonce :: bytes
  tl_server :: login_random

definition trace_register :: "prims \<Rightarrow> trace_reg_random \<Rightarrow> bytes \<Rightarrow> bytes \<Rightarrow> (checker, unit) st_res" where
  "trace_register P rnd username password =
     (let cid = cred P username in
      bindS (liftS (registration_start P (tr_blind rnd) password)) (\<lambda>(req, st).
      bindS (send req) (\<lambda>_.
      bindS (on_server (registration_respond P (tr_oprf_key rnd) cid req)) (\<lambda>resp.
      bindS (send resp) (\<lambda>_.
      bindS (liftS (registration_finish P st (tr_c_priv rnd) (tr_salt rnd) (tr_nonce rnd) resp)) (\<lambda>rec.
      bindS (send rec) (\<lambda>_.
      bindS (on_store (registration_store cid rec)) (\<lambda>_.
      bindS (readS (\<lambda>s. ec_public_bytes P (os_s_priv (ck_server s)))) (\<lambda>pub.
      bindS (emit ''RegistrationComplete'' [username, pub]) (\<lambda>_.
        emit ''PwRecordStored'' [cid]))))))))))"

definition trace_login :: "prims \<Rightarrow> trace_login_random \<Rightarrow> bytes \<Rightarrow> bytes \<Rightarrow> (checker, bytes \<times> bytes) st_res" where
  "trace_login P rnd username password =
     (let cid = cred P username in
      bindS (liftS (client_login_start P (tl_blind rnd) (tl_eph_priv rnd) (tl_nonce rnd) password)) (\<lambda>(ke1, state).
      bindS (send ke1) (\<lambda>_.
      bindS (emit ''ClientStarted'' [username, cid]) (\<lambda>_.
      bindS (on_store (server_login_start P (tl_server rnd) cid ke1)) (\<lambda>(ke2, srv_state).
      bindS (send ke2) (\<lambda>_.
      bindS (emit ''ServerResponded'' [username, cid]) (\<lambda>_.
      bindS (liftS (client_login_finish P state ke2)) (\<lambda>(sk_c, ek_c, ke3).
      bindS (send ke3) (\<lambda>_.
      bindS (emit ''ClientFinished'' [username, cid, sk_c]) (\<lambda>_.
      bindS (liftS (server_login_finish P srv_state ke3)) (\<lambda>(sk_s, ek_s).
      bindS (emit ''ServerFinished'' [username, cid, sk_s]) (\<lambda>_.
        retS (sk_c, sk_s)))))))))))))"

section \<open>The lemmas on the log\<close>

definition events :: "string \<Rightarrow> event list \<Rightarrow> event list" where
  "events name lg = filter (\<lambda>e. ev_name e = name) lg"

text \<open>L2: for each \<open>ServerFinished\<close> exactly one \<open>ClientFinished\<close> with the same key.\<close>

definition l2_agreement :: "event list \<Rightarrow> bool" where
  "l2_agreement lg = list_all (\<lambda>sf.
     length (filter (\<lambda>e. ev_args e ! 2 = ev_args sf ! 2) (events ''ClientFinished'' lg)) = 1) (events ''ServerFinished'' lg)"

text \<open>L3: for each \<open>ClientFinished\<close> a \<open>ServerResponded\<close> for the same user and credential.\<close>

definition l3_agreement :: "event list \<Rightarrow> bool" where
  "l3_agreement lg = list_all (\<lambda>cf.
     filter (\<lambda>e. ev_args e ! 0 = ev_args cf ! 0 \<and> ev_args e ! 1 = ev_args cf ! 1) (events ''ServerResponded'' lg) \<noteq> [])
     (events ''ClientFinished'' lg)"

text \<open>\<open>list.index\<close>: the first position of an element that is in the list.\<close>

fun index_of :: "'a \<Rightarrow> 'a list \<Rightarrow> nat" where
  "index_of x [] = 0"
| "index_of x (y # ys) = (if x = y then 0 else Suc (index_of x ys))"

text \<open>L4: every \<open>PwRecordStored\<close> after every \<open>RegistrationComplete\<close>, by their first positions.\<close>

definition l4_registration :: "event list \<Rightarrow> bool" where
  "l4_registration lg = list_all (\<lambda>rc.
     list_all (\<lambda>i. index_of rc lg < i) (map (\<lambda>e. index_of e lg) (events ''PwRecordStored'' lg)))
     (events ''RegistrationComplete'' lg)"

section \<open>The run of all checks\<close>

definition checker_password :: bytes where "checker_password = blit ''correcthorsebatterystaple''"
definition checker_username :: bytes where "checker_username = blit ''alice''"

record checks_random =
  cx_server_key :: int
  cx_register :: trace_reg_random
  cx_login :: trace_login_random
  cx_replay :: trace_login_random
  cx_fake_cid :: bytes
  cx_fake :: trace_login_random
  cx_wrong :: trace_login_random
  cx_first :: trace_login_random
  cx_second :: trace_login_random

definition is_value_error :: "py_error \<Rightarrow> bool" where
  "is_value_error e = (err_kind e = ValueError \<or> err_kind e = UnicodeEncodeError \<or> err_kind e = UnicodeDecodeError)"

definition check_registration :: "prims \<Rightarrow> trace_reg_random \<Rightarrow> (checker, unit) st_res" where
  "check_registration P rnd =
     bindS (trace_register P rnd checker_username checker_password) (\<lambda>_.
     bindS (readS (\<lambda>s. attacker_knows checker_password (ck_channel s))) (\<lambda>pw_on_wire.
       check ''L9  password_not_on_wire'' (\<not> pw_on_wire) ''Password bytes found in channel (registration phase)''))"

definition check_login :: "prims \<Rightarrow> trace_login_random \<Rightarrow> (checker, bytes) st_res" where
  "check_login P rnd =
     bindS (trace_login P rnd checker_username checker_password) (\<lambda>(sk_c, sk_s).
     bindS (readS (\<lambda>s. attacker_knows sk_c (ck_channel s))) (\<lambda>known.
     bindS (check ''L1  session_key_secrecy'' (\<not> known) ''Session key found verbatim in channel messages'') (\<lambda>_.
     bindS (readS (\<lambda>s. attacker_knows checker_password (ck_channel s))) (\<lambda>pw_on_wire.
     bindS (check ''L9  password_not_on_wire (login)'' (\<not> pw_on_wire) ''Password bytes found in channel (login phase)'') (\<lambda>_.
       retS sk_c)))))"

definition check_log :: "(checker, unit) st_res" where
  "check_log =
     bindS (readS ck_log) (\<lambda>lg.
     bindS (check ''L2  client_to_server_agreement'' (l2_agreement lg)
              ''ServerFinished without exactly one matching ClientFinished'') (\<lambda>_.
     bindS (check ''L3  server_to_client_agreement'' (l3_agreement lg)
              ''ClientFinished without prior ServerResponded'') (\<lambda>_.
       check ''L4  registration_authenticity'' (l4_registration lg)
              ''PwRecordStored before RegistrationComplete in event log'')))"

definition check_forward_secrecy :: "prims \<Rightarrow> bytes \<Rightarrow> (checker, unit) st_res" where
  "check_forward_secrecy P sk_c =
     bindS (readS (\<lambda>s. attacker_knows sk_c (ck_channel s @ [ec_public_bytes P (os_s_priv (ck_server s))]))) (\<lambda>known.
       check ''L5  forward_secrecy'' (\<not> known) ''Session key derivable from long-term server key + channel data'')"

definition check_replay :: "prims \<Rightarrow> trace_login_random \<Rightarrow> (checker, unit) st_res" where
  "check_replay P rnd =
     bindS (readS (\<lambda>s. filter (\<lambda>m. length m = 64) (ck_channel s))) (\<lambda>ke3_events.
     bindS (case ke3_events of [] \<Rightarrow> retS True
            | ke3 # _ \<Rightarrow>
              bindS (liftS (client_login_start P (tl_blind rnd) (tl_eph_priv rnd) (tl_nonce rnd) checker_password))
                (\<lambda>(ke1_new, st_new).
              bindS (on_store (server_login_start P (tl_server rnd) (cred P checker_username) ke1_new))
                (\<lambda>(ke2_new, srv_st_new).
              retS (case server_login_finish P srv_st_new ke3 of Inr _ \<Rightarrow> False | Inl _ \<Rightarrow> True)))) (\<lambda>replay_rejected.
       check ''L6  replay_resistance'' replay_rejected ''Replayed KE3 from a previous session was accepted''))"

definition check_fake_user :: "prims \<Rightarrow> bytes \<Rightarrow> trace_login_random \<Rightarrow> (checker, unit) st_res" where
  "check_fake_user P fake_cid rnd =
     bindS (liftS (client_login_start P (tl_blind rnd) (tl_eph_priv rnd) (tl_nonce rnd) (blit ''pw''))) (\<lambda>(ke1_f, st_f).
     bindS (tryS (on_store (server_login_start P (tl_server rnd) fake_cid ke1_f)) (\<lambda>_. True)
              (\<lambda>_. retS False) (\<lambda>(ke2_f, srv_st_f). retS (ss_is_fake srv_st_f))) (\<lambda>fake_path_ok.
       check ''L7  fake_user_path_exists'' fake_path_ok ''Server crashed or raised on unknown-user login_start''))"

definition check_wrong_password :: "prims \<Rightarrow> trace_login_random \<Rightarrow> (checker, unit) st_res" where
  "check_wrong_password P rnd =
     bindS (liftS (client_login_start P (tl_blind rnd) (tl_eph_priv rnd) (tl_nonce rnd) (blit ''WRONGPASSWORD'')))
       (\<lambda>(ke1_wp, st_wp).
     bindS (on_store (server_login_start P (tl_server rnd) (cred P checker_username) ke1_wp)) (\<lambda>(ke2_wp, ss_wp).
     bindS (tryS (liftS (client_login_finish P st_wp ke2_wp)) is_value_error (\<lambda>_. retS True) (\<lambda>_. retS False))
       (\<lambda>wrong_pw_rejected.
       check ''L8  wrong_password_rejected'' wrong_pw_rejected ''login_finish succeeded with wrong password'')))"

definition check_transcript_binding :: "prims \<Rightarrow> trace_login_random \<Rightarrow> trace_login_random \<Rightarrow> (checker, unit) st_res" where
  "check_transcript_binding P rnd1 rnd2 =
     bindS (trace_login P rnd1 checker_username checker_password) (\<lambda>(sk1, _).
     bindS (trace_login P rnd2 checker_username checker_password) (\<lambda>(sk2, _).
       check ''L10 transcript_binding'' (sk1 \<noteq> sk2)
         ''Two separate logins produced identical session keys (missing transcript entropy)''))"

text \<open>The log and the channel start empty, the results do not; the result is the number of violations.\<close>

definition run_all_checks :: "prims \<Rightarrow> checks_random \<Rightarrow> (checker, nat) st_res" where
  "run_all_checks P rnd s =
     (let s = s\<lparr>ck_log := [], ck_channel := [], ck_server := opaque_server_new (cx_server_key rnd)\<rparr> in
      bindS (check_registration P (cx_register rnd)) (\<lambda>_.
      bindS (check_login P (cx_login rnd)) (\<lambda>sk_c.
      bindS check_log (\<lambda>_.
      bindS (check_forward_secrecy P sk_c) (\<lambda>_.
      bindS (check_replay P (cx_replay rnd)) (\<lambda>_.
      bindS (check_fake_user P (cx_fake_cid rnd) (cx_fake rnd)) (\<lambda>_.
      bindS (check_wrong_password P (cx_wrong rnd)) (\<lambda>_.
      bindS (check_transcript_binding P (cx_first rnd) (cx_second rnd)) (\<lambda>_.
        readS (\<lambda>s. length (filter (\<lambda>(_, holds, _). \<not> holds) (ck_results s))))))))))) s)"

text \<open>The number of violations among the results, and the exit status of the program, which is that number.\<close>

definition violations :: "(string \<times> bool \<times> string) list \<Rightarrow> nat" where
  "violations results = length (filter (\<lambda>(_, holds, _). \<not> holds) results)"

text \<open>
  What the program prints, line by line: what \<open>check\<close> prints for the result it appends, the banner, and the
  verdict over all results.
\<close>

definition check_lines :: "string \<times> bool \<times> string \<Rightarrow> pystr list" where
  "check_lines = (\<lambda>(lem, holds, reason).
     (lit ''  ['' @ (if holds then lit ''HOLDS  '' else lit ''VIOLATED'') @ lit ''] '' @ lit lem) #
     (if holds then [] else [lit ''           !! '' @ lit reason]))"

definition banner_lines :: "pystr list" where
  "banner_lines = [replicate 65 61, lit ''  VAULTTLS: Symbolic Trace Checker'',
     lit ''  Mechanized lemma verification on concrete protocol runs'', replicate 65 61, []]"

definition verdict_lines :: "(string \<times> bool \<times> string) list \<Rightarrow> nat \<Rightarrow> pystr list" where
  "verdict_lines results bad = (
     let total = length results; passed = int total - int bad in
     [[], lit ''Results: '' @ int_str passed @ lit ''/'' @ nat_str total @ lit '' lemmas hold, '' @ nat_str bad @ lit '' violations'', []] @
     (if bad = 0
      then [lit ''All security lemmas HOLD on the concrete protocol trace.'',
        lit ''NOTE: This is NOT a full formal proof. It demonstrates that the'',
        lit ''      implementation satisfies the stated lemmas on concrete runs.'',
        lit ''      Machine-checked proofs require Tamarin/ProVerif + crypto lib.'']
      else lit ''WARNING: One or more security lemmas are VIOLATED.'' #
        concat (map (\<lambda>(name, holds, reason).
          if \<not> holds then [lit ''  VIOLATED: '' @ lit name, lit ''    Reason: '' @ lit reason] else []) results)) @ [[]])"

text \<open>
  The program: its exit status, what it prints, and the state it leaves.  An exception that leaves
  \<open>run_all_checks\<close> ends the interpreter with status 1, after the lines of the checks that were made.
\<close>

definition checker_main :: "prims \<Rightarrow> checks_random \<Rightarrow> checker \<Rightarrow> int \<times> pystr list \<times> checker" where
  "checker_main P rnd s = (
     let (r, s') = run_all_checks P rnd s;
         out = banner_lines @ concat (map check_lines (drop (length (ck_results s)) (ck_results s'))) in
     case r of
       Inr n \<Rightarrow> (int n, out @ verdict_lines (ck_results s') n, s')
     | Inl e \<Rightarrow> (1, out, s'))"

section \<open>What a run leaves in the log\<close>

lemma on_store_eq: "on_store m s = (r, s') \<longleftrightarrow> (\<exists>sg. m (ck_server s) (ck_storage s) = (r, sg) \<and> s' = s\<lparr>ck_storage := sg\<rparr>)"
  by (cases "m (ck_server s) (ck_storage s)") (auto simp: on_store_def)

lemma on_server_eq: "on_server m s = (r, s') \<longleftrightarrow> (\<exists>os. m (ck_server s) = (r, os) \<and> s' = s\<lparr>ck_server := os\<rparr>)"
  by (cases "m (ck_server s)") (auto simp: on_server_def)

lemma case_prod_apply: "(case p of (a, b) \<Rightarrow> f a b) s = (case p of (a, b) \<Rightarrow> f a b s)"
  by (cases p) simp

lemmas checker_run = bindS_Inr liftS_eq retS_eq on_store_eq on_server_eq emit_def send_def check_def readS_def case_prod_apply

definition registration_events :: "prims \<Rightarrow> int \<Rightarrow> bytes \<Rightarrow> event list" where
  "registration_events P key username =
     [\<lparr>ev_name = ''RegistrationComplete'', ev_args = [username, ec_public_bytes P key]\<rparr>,
      \<lparr>ev_name = ''PwRecordStored'', ev_args = [cred P username]\<rparr>]"

definition login_events :: "prims \<Rightarrow> bytes \<Rightarrow> bytes \<times> bytes \<Rightarrow> event list" where
  "login_events P username keys =
     [\<lparr>ev_name = ''ClientStarted'', ev_args = [username, cred P username]\<rparr>,
      \<lparr>ev_name = ''ServerResponded'', ev_args = [username, cred P username]\<rparr>,
      \<lparr>ev_name = ''ClientFinished'', ev_args = [username, cred P username, fst keys]\<rparr>,
      \<lparr>ev_name = ''ServerFinished'', ev_args = [username, cred P username, snd keys]\<rparr>]"

lemma trace_register_log:
  assumes "trace_register P rnd username password s = (Inr u, s')"
  shows "ck_log s' = ck_log s @ registration_events P (os_s_priv (ck_server s)) username \<and>
    os_s_priv (ck_server s') = os_s_priv (ck_server s)"
  using assms unfolding trace_register_def Let_def registration_events_def
  by (auto simp: checker_run dest!: registration_respond_Inr)

lemma trace_login_log:
  assumes "trace_login P rnd username password s = (Inr keys, s')"
  shows "ck_log s' = ck_log s @ login_events P username keys \<and> ck_server s' = ck_server s"
  using assms unfolding trace_login_def Let_def login_events_def
  by (auto simp: checker_run)

text \<open>A sequence of logins of one user.\<close>

fun trace_logins :: "prims \<Rightarrow> trace_login_random list \<Rightarrow> bytes \<Rightarrow> bytes \<Rightarrow> (checker, (bytes \<times> bytes) list) st_res" where
  "trace_logins P [] username password = retS []"
| "trace_logins P (rnd # rnds) username password =
     bindS (trace_login P rnd username password) (\<lambda>keys.
     bindS (trace_logins P rnds username password) (\<lambda>rest. retS (keys # rest)))"

lemma trace_logins_log:
  "trace_logins P rnds username password s = (Inr ks, s') \<Longrightarrow> ck_log s' = ck_log s @ concat (map (login_events P username) ks)"
  by (induction rnds arbitrary: ks s) (auto simp: bindS_Inr retS_eq dest!: trace_login_log)

section \<open>What the lemmas say about such a log\<close>

lemma events_append: "events n (xs @ ys) = events n xs @ events n ys"
  by (simp add: events_def)

lemma events_registration:
  "events ''RegistrationComplete'' (registration_events P key u) = [hd (registration_events P key u)]"
  "events ''PwRecordStored'' (registration_events P key u) = [registration_events P key u ! 1]"
  "events ''ServerResponded'' (registration_events P key u) = []"
  "events ''ClientFinished'' (registration_events P key u) = []" "events ''ServerFinished'' (registration_events P key u) = []"
  by (simp_all add: events_def registration_events_def)

lemma events_login:
  "events ''ServerResponded'' (login_events P u k) = [\<lparr>ev_name = ''ServerResponded'', ev_args = [u, cred P u]\<rparr>]"
  "events ''ClientFinished'' (login_events P u k) = [\<lparr>ev_name = ''ClientFinished'', ev_args = [u, cred P u, fst k]\<rparr>]"
  "events ''ServerFinished'' (login_events P u k) = [\<lparr>ev_name = ''ServerFinished'', ev_args = [u, cred P u, snd k]\<rparr>]"
  "events ''RegistrationComplete'' (login_events P u k) = []" "events ''PwRecordStored'' (login_events P u k) = []"
  by (simp_all add: events_def login_events_def)

lemma events_Nil: "events n [] = []"
  by (simp add: events_def)

lemma events_logins:
  "events ''ServerResponded'' (concat (map (login_events P u) ks)) =
     map (\<lambda>k. \<lparr>ev_name = ''ServerResponded'', ev_args = [u, cred P u]\<rparr>) ks"
  "events ''ClientFinished'' (concat (map (login_events P u) ks)) =
     map (\<lambda>k. \<lparr>ev_name = ''ClientFinished'', ev_args = [u, cred P u, fst k]\<rparr>) ks"
  "events ''ServerFinished'' (concat (map (login_events P u) ks)) =
     map (\<lambda>k. \<lparr>ev_name = ''ServerFinished'', ev_args = [u, cred P u, snd k]\<rparr>) ks"
  "events ''RegistrationComplete'' (concat (map (login_events P u) ks)) = []"
  "events ''PwRecordStored'' (concat (map (login_events P u) ks)) = []"
  by (induction ks) (simp_all add: events_append events_login events_Nil)

lemma filter_distinct_one:
  "distinct (map f xs) \<Longrightarrow> x \<in> set xs \<Longrightarrow> filter (\<lambda>y. f y = f x) xs = [x]"
  by (induction xs) (auto simp: filter_empty_conv image_iff)

lemma honest_log_verdicts:
  assumes "list_all (\<lambda>(a, b). a = b) ks" and "distinct (map fst ks)"
  shows "l2_agreement (registration_events P key u @ concat (map (login_events P u) ks))"
    "l3_agreement (registration_events P key u @ concat (map (login_events P u) ks))"
    "l4_registration (registration_events P key u @ concat (map (login_events P u) ks))"
proof -
  have eq: "k \<in> set ks \<Longrightarrow> snd k = fst k" for k using assms(1) by (auto simp: list_all_iff)
  have "length (filter (\<lambda>y. fst y = snd k) ks) = 1" if "k \<in> set ks" for k
    using filter_distinct_one [OF assms(2) that] eq [OF that] by simp
  then show "l2_agreement (registration_events P key u @ concat (map (login_events P u) ks))"
    by (simp add: l2_agreement_def events_append events_registration events_logins list_all_iff filter_map o_def)
  show "l3_agreement (registration_events P key u @ concat (map (login_events P u) ks))"
    by (auto simp: l3_agreement_def events_append events_registration events_logins list_all_iff filter_empty_conv)
  show "l4_registration (registration_events P key u @ concat (map (login_events P u) ks))"
    by (simp add: l4_registration_def events_append events_registration events_logins) (simp add: registration_events_def)
qed

section \<open>An honest run goes through\<close>

lemma trace_register_ok:
  assumes "ec_keys_ok P" and "hkdf_expand_ok P" and "aesgcm_ok P" and "argon2_ok P" and "valid_priv P (tr_c_priv rnd)"
    and "length (tr_salt rnd) = 16" and "length (tr_nonce rnd) = 12" and "users_ready (ck_storage s)"
    and "tr_oprf_key rnd < 2 ^ 256" and "registration_start P (tr_blind rnd) password = Inr (M, rst)"
    and "p256_scalar_mult (tr_oprf_key rnd) M = Inr Z" and "oprf_finalize P password (tr_blind rnd) Z = Inr rw"
  shows "\<exists>s' env. trace_register P rnd username password s = (Inr (), s') \<and> users_ready (ck_storage s') \<and>
    load_opaque_record (cred P username) (ck_storage s') = (Inr (Some \<lparr>or_oprf_key = be_enc 32 (tr_oprf_key rnd),
      or_client_pub = ec_public_bytes P (tr_c_priv rnd), or_envelope = env, or_credential_id = cred P username\<rparr>), ck_storage s') \<and>
    length env = 142 \<and> envelope_open P rw env = Inr (tr_c_priv rnd, ec_public_bytes P (os_s_priv (ck_server s)))"
proof -
  let ?key = "os_s_priv (ck_server s)" and ?cid = "cred P username"
  from assms(9,11) obtain os m where os: "registration_respond P (tr_oprf_key rnd) ?cid M (ck_server s) =
      (Inr (Z @ ec_public_bytes P ?key), os)" "os_pending os = Some m" "m (hex_str ?cid) = Some (be_enc 32 (tr_oprf_key rnd))"
    by (auto simp: registration_respond_def oprf_evaluate_def int_to_bytes_def Let_def)
  from registration_upload [OF assms(1-7) scalar_mult_length [OF assms(11)] assms(12), of ?key] assms(10) obtain env where
    env: "registration_finish P rst (tr_c_priv rnd) (tr_salt rnd) (tr_nonce rnd) (Z @ ec_public_bytes P ?key) =
      Inr (ec_public_bytes P (tr_c_priv rnd) @ env)" "length env = 142"
    "envelope_open P rw env = Inr (tr_c_priv rnd, ec_public_bytes P ?key)"
    by (auto simp: registration_start_Inr)
  from registration_store_ok [OF assms(8) os(2,3) ec_keys_okD(2) [OF assms(1)], of "tr_c_priv rnd" env] obtain sg where
    sg: "registration_store ?cid (ec_public_bytes P (tr_c_priv rnd) @ env) os (ck_storage s) = (Inr (), sg)" "users_open sg"
    "load_opaque_record ?cid sg = (Inr (Some \<lparr>or_oprf_key = be_enc 32 (tr_oprf_key rnd),
      or_client_pub = ec_public_bytes P (tr_c_priv rnd), or_envelope = env, or_credential_id = ?cid\<rparr>), sg)" by blast
  have "\<exists>s'. trace_register P rnd username password s = (Inr (), s') \<and> ck_storage s' = sg"
    by (simp add: trace_register_def Let_def bindS_def liftS_def assms(10) send_def on_server_def os(1) env(1) on_store_def
        sg(1) readS_def emit_def)
  with sg(2,3) env(2,3) users_open_ready show ?thesis by blast
qed

lemma trace_login_ok:
  assumes "ecdh_ok P" and "ec_keys_ok P" and "valid_priv P (tl_eph_priv rnd)" and "length (tl_nonce rnd) = 32"
    and "length (lr_nonce_s (tl_server rnd)) = 32"
    and "client_login_start P (tl_blind rnd) (tl_eph_priv rnd) (tl_nonce rnd) password = Inr (ke1, lst)"
    and "load_opaque_record (cred P username) (ck_storage s) = (Inr (Some rec), ck_storage s)"
    and "or_oprf_key rec = be_enc 32 k" and "k < 2 ^ 256" and "or_client_pub rec = ec_public_bytes P c"
    and "length (or_envelope rec) = 142" and "p256_scalar_mult k (ls_M lst) = Inr Z"
    and "oprf_finalize P password (tl_blind rnd) Z = Inr rw"
    and "envelope_open P rw (or_envelope rec) = Inr (c, ec_public_bytes P (os_s_priv (ck_server s)))"
  shows "\<exists>sk s'. trace_login P rnd username password s = (Inr (sk, sk), s')"
proof -
  have i: "login_inputs P (tl_server rnd) (Some rec) = (k, ec_public_bytes P c, or_envelope rec)"
    using assms(8-10) by (simp add: login_inputs_def)
  have "length (or_envelope rec) < 2 ^ 24" using assms(11) by simp
  from login_agrees [OF assms(1-6) i this assms(12-14)] obtain ke2 ss sk ek ke3 where
    "server_login_reply P (tl_server rnd) (os_s_priv (ck_server s)) (Some rec) ke1 = Inr (ke2, ss)"
    "client_login_finish P lst ke2 = Inr (sk, ek, ke3)" "server_login_finish P ss ke3 = Inr (sk, ek)" by blast
  then show ?thesis
    using assms(6,7)
    by (simp add: trace_login_def Let_def bindS_def liftS_def retS_def send_def emit_def on_store_def server_login_start_def)
qed

section \<open>Sample runs\<close>

definition sample_checker :: checker where
  "sample_checker = \<lparr>ck_log = [], ck_channel = [], ck_results = [], ck_server = opaque_server_new 5, ck_storage = sample_storage\<rparr>"

definition sample_trace_reg :: trace_reg_random where
  "sample_trace_reg = \<lparr>tr_blind = 1, tr_c_priv = 7, tr_salt = replicate 16 1, tr_nonce = replicate 12 2, tr_oprf_key = 1\<rparr>"

definition sample_trace_login :: trace_login_random where
  "sample_trace_login = \<lparr>tl_blind = 1, tl_eph_priv = 3, tl_nonce = replicate 32 9, tl_server = sample_random 1\<rparr>"

lemma sample_trace_register:
  assumes "users_ready (ck_storage s)"
  shows "\<exists>s' env rw. trace_register sample sample_trace_reg u [112, 119] s = (Inr (), s') \<and> users_ready (ck_storage s') \<and>
    load_opaque_record (cred sample u) (ck_storage s') = (Inr (Some \<lparr>or_oprf_key = be_enc 32 1,
      or_client_pub = ec_public_bytes sample 7, or_envelope = env, or_credential_id = cred sample u\<rparr>), ck_storage s') \<and>
    length env = 142 \<and> oprf_finalize sample [112, 119] 1 sample_point = Inr rw \<and>
    envelope_open sample rw env = Inr (7, ec_public_bytes sample (os_s_priv (ck_server s)))"
proof -
  obtain rw where rw: "oprf_finalize sample [112, 119] 1 sample_point = Inr rw" using sample_finalize by blast
  have r: "tr_blind sample_trace_reg = 1" "tr_c_priv sample_trace_reg = 7" "tr_salt sample_trace_reg = replicate 16 1"
    "tr_nonce sample_trace_reg = replicate 12 2" "tr_oprf_key sample_trace_reg = 1"
    by (simp_all add: sample_trace_reg_def)
  have st: "registration_start sample 1 [112, 119] = Inr (sample_point, \<lparr>rs_blind = 1, rs_password = [112, 119]\<rparr>)"
    unfolding registration_start_Inr using sample_blind by blast
  from trace_register_ok [of sample sample_trace_reg s "[112, 119]" sample_point _ sample_point rw u, unfolded r]
    assms st sample_point_mult rw sample_valid_priv [of 7]
  show ?thesis by (simp del: One_nat_def)
qed

lemma sample_checker_ready: "users_ready (ck_storage sample_checker)"
  by (simp add: sample_checker_def users_ready_def sample_storage_def)

lemma sample_trace:
  "\<exists>s1 s2 sk. trace_register sample sample_trace_reg u [112, 119] sample_checker = (Inr (), s1) \<and>
     trace_login sample sample_trace_login u [112, 119] s1 = (Inr (sk, sk), s2)"
proof -
  obtain s1 env rw where s1: "trace_register sample sample_trace_reg u [112, 119] sample_checker = (Inr (), s1)"
    "load_opaque_record (cred sample u) (ck_storage s1) = (Inr (Some \<lparr>or_oprf_key = be_enc 32 1,
      or_client_pub = ec_public_bytes sample 7, or_envelope = env, or_credential_id = cred sample u\<rparr>), ck_storage s1)"
    "length env = 142" "oprf_finalize sample [112, 119] 1 sample_point = Inr rw"
    "envelope_open sample rw env = Inr (7, ec_public_bytes sample (os_s_priv (ck_server sample_checker)))"
    using sample_trace_register [OF sample_checker_ready] by blast
  have k: "os_s_priv (ck_server s1) = os_s_priv (ck_server sample_checker)" using trace_register_log [OF s1(1)] by blast
  have r: "tl_blind sample_trace_login = 1" "tl_eph_priv sample_trace_login = 3" "tl_nonce sample_trace_login = replicate 32 9"
    "tl_server sample_trace_login = sample_random 1" by (simp_all add: sample_trace_login_def)
  obtain lst where lst: "client_login_start sample 1 3 (replicate 32 9) [112, 119] = Inr (sample_ke1, lst)"
    "ls_M lst = sample_point" using sample_login_start by blast
  have m: "p256_scalar_mult 1 (ls_M lst) = Inr sample_point" unfolding lst(2) by (rule sample_point_mult)
  from trace_login_ok [of sample sample_trace_login "[112, 119]" sample_ke1 lst u s1 _ 1 7 sample_point rw, unfolded r k,
      OF _ _ _ _ _ lst(1) s1(2) _ _ _ _ m s1(4)] s1(3,5) sample_valid_priv [of 3]
  have "\<exists>sk s2. trace_login sample sample_trace_login u [112, 119] s1 = (Inr (sk, sk), s2)"
    by (simp del: One_nat_def)
  with s1(1) show ?thesis by blast
qed

section \<open>Properties\<close>

text \<open>
  The checker's lemmas on the log accept every honest run: after one registration and any number
  of logins of the user in which both sides got the same key, and never the same key twice, the
  agreement lemmas L2 and L3 and the registration lemma L4 hold, and all three results say so.
\<close>

theorem checker_accepts_honest_runs:
  assumes "ck_log s = []" and "trace_register P rnd u pw s = (Inr (), s1)" and "trace_logins P rnds u pw s1 = (Inr ks, s2)"
    and "list_all (\<lambda>(a, b). a = b) ks" and "distinct (map fst ks)"
  shows "map (\<lambda>(lem, holds, _). holds) (ck_results (snd (check_log s2))) =
     map (\<lambda>(lem, holds, _). holds) (ck_results s2) @ [True, True, True]"
proof -
  have "ck_log s2 = registration_events P (os_s_priv (ck_server s)) u @ concat (map (login_events P u) ks)"
    using trace_register_log [OF assms(2)] trace_logins_log [OF assms(3)] assms(1) by simp
  with honest_log_verdicts [OF assms(4,5)] show ?thesis
    by (simp add: check_log_def bindS_def readS_def check_def)
qed

theorem checker_accepts_honest_runs_witness:
  "\<exists>s1 s2 ks. trace_register sample sample_trace_reg [97] [112, 119] sample_checker = (Inr (), s1) \<and>
     trace_logins sample [sample_trace_login] [97] [112, 119] s1 = (Inr ks, s2) \<and> length ks = 1 \<and>
     map (\<lambda>(lem, holds, _). holds) (ck_results (snd (check_log s2))) =
       map (\<lambda>(lem, holds, _). holds) (ck_results s2) @ [True, True, True]"
proof -
  obtain s1 s2 sk where s: "trace_register sample sample_trace_reg [97] [112, 119] sample_checker = (Inr (), s1)"
    "trace_login sample sample_trace_login [97] [112, 119] s1 = (Inr (sk, sk), s2)" using sample_trace by blast
  have l: "trace_logins sample [sample_trace_login] [97] [112, 119] s1 = (Inr [(sk, sk)], s2)"
    by (simp add: bindS_def retS_def s(2))
  have "ck_log sample_checker = []" by (simp add: sample_checker_def)
  from checker_accepts_honest_runs [OF this s(1) l] s(1) l show ?thesis by auto
qed

text \<open>
  The registration lemma L4 gives a false alarm as soon as two users register: it compares every
  \<open>PwRecordStored\<close> event with every \<open>RegistrationComplete\<close> event, not with the one of the same
  registration, so after two registrations it holds only when they are of the same user.
\<close>

theorem registration_check_false_alarm:
  assumes "ck_log s = []" and "trace_register P r1 u1 pw1 s = (Inr (), s1)" and "trace_register P r2 u2 pw2 s1 = (Inr (), s2)"
  shows "l4_registration (ck_log s2) \<longleftrightarrow> u1 = u2"
proof -
  let ?key = "os_s_priv (ck_server s)"
  have "ck_log s2 = registration_events P ?key u1 @ registration_events P ?key u2"
    using trace_register_log [OF assms(2)] trace_register_log [OF assms(3)] assms(1) by simp
  then show ?thesis
    by (simp add: l4_registration_def events_append events_registration) (auto simp: registration_events_def)
qed

theorem registration_check_false_alarm_witness:
  "\<exists>s1 s2. trace_register sample sample_trace_reg [97] [112, 119] sample_checker = (Inr (), s1) \<and>
     trace_register sample sample_trace_reg [98] [112, 119] s1 = (Inr (), s2) \<and> \<not> l4_registration (ck_log s2)"
proof -
  obtain s1 where s1: "trace_register sample sample_trace_reg [97] [112, 119] sample_checker = (Inr (), s1)"
    "users_ready (ck_storage s1)" using sample_trace_register [OF sample_checker_ready] by blast
  obtain s2 where s2: "trace_register sample sample_trace_reg [98] [112, 119] s1 = (Inr (), s2)"
    using sample_trace_register [OF s1(2)] by blast
  have "ck_log sample_checker = []" by (simp add: sample_checker_def)
  from registration_check_false_alarm [OF this s1(1) s2] s1(1) s2 show ?thesis by auto
qed

section \<open>The report of all checks\<close>

text \<open>
  \<open>reports ns m\<close>: an operation that returns has recorded results of the lemmas \<open>ns\<close>, in this order; one
  that raises has recorded the first few of them.
\<close>

definition reports :: "string list \<Rightarrow> (checker, 'a) st_res \<Rightarrow> bool" where
  "reports ns m \<longleftrightarrow> (\<forall>s. \<exists>rs. ck_results (snd (m s)) = ck_results s @ rs \<and>
     (case fst (m s) of Inl _ \<Rightarrow> prefix (map fst rs) ns | Inr _ \<Rightarrow> map fst rs = ns))"

lemma reportsD:
  assumes "reports ns m"
  shows "m s = (Inr x, s') \<Longrightarrow> \<exists>rs. ck_results s' = ck_results s @ rs \<and> map fst rs = ns"
    and "m s = (Inl e, s') \<Longrightarrow> \<exists>rs. ck_results s' = ck_results s @ rs \<and> prefix (map fst rs) ns"
proof -
  obtain rs where rs: "ck_results (snd (m s)) = ck_results s @ rs"
    "case fst (m s) of Inl _ \<Rightarrow> prefix (map fst rs) ns | Inr _ \<Rightarrow> map fst rs = ns"
    using assms unfolding reports_def by blast
  then show "m s = (Inr x, s') \<Longrightarrow> \<exists>rs. ck_results s' = ck_results s @ rs \<and> map fst rs = ns"
    "m s = (Inl e, s') \<Longrightarrow> \<exists>rs. ck_results s' = ck_results s @ rs \<and> prefix (map fst rs) ns" by auto
qed

lemma reportsI:
  assumes "\<And>s x s'. m s = (Inr x, s') \<Longrightarrow> \<exists>rs. ck_results s' = ck_results s @ rs \<and> map fst rs = ns"
    and "\<And>s e s'. m s = (Inl e, s') \<Longrightarrow> \<exists>rs. ck_results s' = ck_results s @ rs \<and> prefix (map fst rs) ns"
  shows "reports ns m"
  unfolding reports_def
proof
  fix s
  show "\<exists>rs. ck_results (snd (m s)) = ck_results s @ rs \<and>
      (case fst (m s) of Inl _ \<Rightarrow> prefix (map fst rs) ns | Inr _ \<Rightarrow> map fst rs = ns)"
    using assms [of s] by (cases "m s"; cases "fst (m s)") auto
qed

lemma reports_ops:
  "reports [] (liftS x)" "reports [] (retS y)" "reports [] (on_server f)" "reports [] (on_store g)" "reports [] (readS h)"
  "reports [] (emit n a)" "reports [] (send d)" "reports [n] (check n b r)"
  by (auto simp: reports_def liftS_def retS_def on_server_def on_store_def readS_def emit_def send_def check_def
      split: prod.splits sum.splits)

lemma reports_bindS:
  assumes "reports ns m" and "\<And>x. reports ns' (f x)"
  shows "reports (ns @ ns') (bindS m f)"
proof (rule reportsI)
  fix s x s' assume "bindS m f s = (Inr x, s')"
  then obtain y s1 where 1: "m s = (Inr y, s1)" "f y s1 = (Inr x, s')" by (auto simp: bindS_Inr)
  from reportsD(1) [OF assms(1) 1(1)] reportsD(1) [OF assms(2) 1(2)]
  show "\<exists>rs. ck_results s' = ck_results s @ rs \<and> map fst rs = ns @ ns'" by (metis append_assoc map_append)
next
  fix s e s' assume "bindS m f s = (Inl e, s')"
  then consider "m s = (Inl e, s')" | y s1 where "m s = (Inr y, s1)" "f y s1 = (Inl e, s')" by (auto simp: bindS_Inl)
  then show "\<exists>rs. ck_results s' = ck_results s @ rs \<and> prefix (map fst rs) (ns @ ns')"
  proof cases
    case 1
    from reportsD(2) [OF assms(1) 1] show ?thesis by (metis prefix_prefix)
  next
    case (2 y s1)
    from reportsD(1) [OF assms(1) 2(1)] reportsD(2) [OF assms(2) 2(2)] obtain rs rs' where
      "ck_results s' = ck_results s @ rs @ rs'" "map fst rs = ns" "prefix (map fst rs') ns'" by auto
    then show ?thesis by (intro exI [of _ "rs @ rs'"]) simp
  qed
qed

lemma reports_silent: "reports [] m \<Longrightarrow> (\<And>x. reports ns (f x)) \<Longrightarrow> reports ns (bindS m f)"
  using reports_bindS [of "[]" m ns f] by simp

lemma reports_first: "reports [n] m \<Longrightarrow> (\<And>x. reports ns (f x)) \<Longrightarrow> reports (n # ns) (bindS m f)"
  using reports_bindS [of "[n]" m ns f] by simp

lemma reports_case:
  "(\<And>a b. reports ns (f a b)) \<Longrightarrow> reports ns (case x of (a, b) \<Rightarrow> f a b)"
  "reports ns n \<Longrightarrow> (\<And>a as. reports ns (c a as)) \<Longrightarrow> reports ns (case l of [] \<Rightarrow> n | a # as \<Rightarrow> c a as)"
  by (cases x, simp) (cases l, simp_all)

lemma reports_try:
  assumes "reports [] m" and "\<And>e. reports ns (h e)" and "\<And>x. reports ns (f x)"
  shows "reports ns (tryS m K h f)"
  unfolding reports_def
proof
  fix s
  obtain r s1 where m: "m s = (r, s1)" by fastforce
  then have k: "ck_results s1 = ck_results s" using reportsD [OF assms(1)] by (cases r) auto
  show "\<exists>rs. ck_results (snd (tryS m K h f s)) = ck_results s @ rs \<and>
      (case fst (tryS m K h f s) of Inl _ \<Rightarrow> prefix (map fst rs) ns | Inr _ \<Rightarrow> map fst rs = ns)"
  proof (cases r)
    case (Inl e)
    have "\<exists>rs. ck_results (snd (h e s1)) = ck_results s1 @ rs \<and>
        (case fst (h e s1) of Inl _ \<Rightarrow> prefix (map fst rs) ns | Inr _ \<Rightarrow> map fst rs = ns)"
      using assms(2) [of e] by (simp add: reports_def)
    with Inl m k show ?thesis by (cases "K e") (simp_all add: tryS_step)
  next
    case (Inr x)
    with assms(3) [of x] m k show ?thesis unfolding reports_def by (simp add: tryS_step) (metis)
  qed
qed

lemmas reports_rules = reports_ops reports_silent reports_case reports_try

lemma trace_register_reports: "reports [] (trace_register P rnd u pw)"
  unfolding trace_register_def Let_def by (intro reports_rules)

lemma trace_login_reports: "reports [] (trace_login P rnd u pw)"
  unfolding trace_login_def Let_def by (intro reports_rules)

lemma single_checks_report:
  "reports [''L9  password_not_on_wire''] (check_registration P r)"
  "reports [''L5  forward_secrecy''] (check_forward_secrecy P k)" "reports [''L6  replay_resistance''] (check_replay P r1)"
  "reports [''L7  fake_user_path_exists''] (check_fake_user P cid r2)"
  "reports [''L8  wrong_password_rejected''] (check_wrong_password P r3)"
  "reports [''L10 transcript_binding''] (check_transcript_binding P r4 r5)"
  unfolding check_registration_def check_forward_secrecy_def check_replay_def check_fake_user_def check_wrong_password_def
    check_transcript_binding_def
  by (intro reports_rules trace_login_reports trace_register_reports)+

lemma check_login_reports:
  "reports [''L1  session_key_secrecy'', ''L9  password_not_on_wire (login)''] (check_login P r)"
  unfolding check_login_def
  by (intro reports_silent [OF trace_login_reports] reports_case reports_silent [OF reports_ops(5)] reports_first reports_ops)


text \<open>The names of the eleven checks: up to the first login, on the log, and after.\<close>

definition first_names :: "string list" where
  "first_names = [''L9  password_not_on_wire'', ''L1  session_key_secrecy'', ''L9  password_not_on_wire (login)'']"

definition log_names :: "string list" where
  "log_names = [''L2  client_to_server_agreement'', ''L3  server_to_client_agreement'', ''L4  registration_authenticity'']"

definition last_names :: "string list" where
  "last_names = [''L5  forward_secrecy'', ''L6  replay_resistance'', ''L7  fake_user_path_exists'', ''L8  wrong_password_rejected'',
     ''L10 transcript_binding'']"

definition first_checks :: "prims \<Rightarrow> checks_random \<Rightarrow> (checker, bytes) st_res" where
  "first_checks P rnd = bindS (check_registration P (cx_register rnd)) (\<lambda>_. check_login P (cx_login rnd))"

definition last_checks :: "prims \<Rightarrow> checks_random \<Rightarrow> bytes \<Rightarrow> (checker, unit) st_res" where
  "last_checks P rnd sk_c =
     bindS (check_forward_secrecy P sk_c) (\<lambda>_.
     bindS (check_replay P (cx_replay rnd)) (\<lambda>_.
     bindS (check_fake_user P (cx_fake_cid rnd) (cx_fake rnd)) (\<lambda>_.
     bindS (check_wrong_password P (cx_wrong rnd)) (\<lambda>_.
       check_transcript_binding P (cx_first rnd) (cx_second rnd)))))"

lemma run_all_parts:
  "run_all_checks P rnd s = bindS (first_checks P rnd) (\<lambda>sk_c. bindS check_log (\<lambda>_. bindS (last_checks P rnd sk_c) (\<lambda>_.
     readS (\<lambda>s. violations (ck_results s))))) (s\<lparr>ck_log := [], ck_channel := [], ck_server := opaque_server_new (cx_server_key rnd)\<rparr>)"
  by (simp add: run_all_checks_def first_checks_def last_checks_def violations_def bindS_laws Let_def)

lemma first_checks_report: "reports first_names (first_checks P rnd)"
  unfolding first_names_def first_checks_def
  by (rule reports_first [OF single_checks_report(1) check_login_reports])

lemma last_checks_report: "reports last_names (last_checks P rnd k)"
  unfolding last_names_def last_checks_def
  by (intro reports_first single_checks_report)

lemma first_checks_log:
  assumes "first_checks P rnd s = (Inr k, s')"
  shows "\<exists>keys. ck_log s' = ck_log s @ registration_events P (os_s_priv (ck_server s)) checker_username @
    login_events P checker_username keys"
proof -
  from assms obtain s1 where s1: "check_registration P (cx_register rnd) s = (Inr (), s1)" "check_login P (cx_login rnd) s1 = (Inr k, s')"
    by (auto simp: first_checks_def bindS_Inr)
  from s1(1) have "ck_log s1 = ck_log s @ registration_events P (os_s_priv (ck_server s)) checker_username"
    unfolding check_registration_def by (auto simp: checker_run dest!: trace_register_log)
  moreover obtain keys s2 where "trace_login P (cx_login rnd) checker_username checker_password s1 = (Inr keys, s2)" "ck_log s' = ck_log s2"
    using s1(2) unfolding check_login_def by (auto simp: checker_run)
  ultimately show ?thesis using trace_login_log by fastforce
qed

lemma check_log_verdicts:
  "check_log s = (Inr (), s\<lparr>ck_results := ck_results s @
     [(''L2  client_to_server_agreement'', l2_agreement (ck_log s), ''ServerFinished without exactly one matching ClientFinished''),
      (''L3  server_to_client_agreement'', l3_agreement (ck_log s), ''ClientFinished without prior ServerResponded''),
      (''L4  registration_authenticity'', l4_registration (ck_log s), ''PwRecordStored before RegistrationComplete in event log'')]\<rparr>)"
  by (simp add: check_log_def bindS_def readS_def check_def)

lemma one_login_log:
  "l3_agreement (registration_events P key u @ login_events P u ks)"
  "l4_registration (registration_events P key u @ login_events P u ks)"
  by (simp add: l3_agreement_def events_append events_registration events_login)
    (simp add: l4_registration_def events_append events_registration events_login, simp add: registration_events_def)

text \<open>The results of the lemmas L3 and L4.\<close>

definition order_results :: "(string \<times> bool \<times> string) list \<Rightarrow> bool list" where
  "order_results rs = map (\<lambda>(_, holds, _). holds) (filter (\<lambda>(n, _). n \<in> set (tl log_names)) rs)"

lemma order_results_none: "set (map fst rs) \<inter> set (tl log_names) = {} \<Longrightarrow> order_results rs = []"
  by (auto simp: order_results_def filter_empty_conv)

lemma names_disjoint: "set first_names \<inter> set (tl log_names) = {}" "set last_names \<inter> set (tl log_names) = {}"
  by (simp_all add: first_names_def last_names_def log_names_def)

lemma prefix_none: "prefix (map fst rs) ns \<Longrightarrow> set ns \<inter> set (tl log_names) = {} \<Longrightarrow> order_results rs = []"
  by (rule order_results_none) (use set_mono_prefix in blast)

lemma order_results_append: "order_results (xs @ ys) = order_results xs @ order_results ys"
  by (simp add: order_results_def)

lemma checks_after_first:
  assumes "first_checks P rnd (s\<lparr>ck_log := [], ck_channel := [], ck_server := opaque_server_new (cx_server_key rnd)\<rparr>) = (Inr k, s1)"
  shows "\<exists>rs. ck_results (snd (run_all_checks P rnd s)) = ck_results s @ rs \<and>
     (case fst (run_all_checks P rnd s) of
        Inr n \<Rightarrow> map fst rs = first_names @ log_names @ last_names \<and> n = violations (ck_results s @ rs) \<and>
          order_results rs = [True, True]
      | Inl _ \<Rightarrow> prefix (map fst rs) (first_names @ log_names @ last_names) \<and> order_results rs \<in> {[], [True, True]})"
proof -
  let ?s = "s\<lparr>ck_log := [], ck_channel := [], ck_server := opaque_server_new (cx_server_key rnd)\<rparr>"
  note first = assms
  from reportsD(1) [OF first_checks_report, of P rnd ?s k s1] first obtain rs where
    rs: "ck_results s1 = ck_results s @ rs" "map fst rs = first_names" by auto
  have n1: "order_results rs = []" by (rule order_results_none) (simp only: rs(2) names_disjoint(1))
  obtain s2 where s2: "check_log s1 = (Inr (), s2)" "s2 = snd (check_log s1)" using check_log_verdicts [of s1] by simp
  have v: "l3_agreement (ck_log s1)" "l4_registration (ck_log s1)"
    using first_checks_log [of P rnd ?s k s1] first one_login_log by auto
  obtain ls where ls: "ck_results s2 = ck_results s1 @ ls" "map fst ls = log_names" "order_results ls = [True, True]"
    using s2 v by (simp add: check_log_verdicts log_names_def order_results_def)
  obtain r' s' where last: "last_checks P rnd k s2 = (r', s')" by fastforce
  have run: "run_all_checks P rnd s = (map_sum id (\<lambda>_. violations (ck_results s')) r', s')"
    using first s2(1) last by (cases r') (simp_all add: run_all_parts bindS_def readS_def)
  show ?thesis
  proof (cases r')
    case (Inl e)
    with reportsD(2) [OF last_checks_report, of P rnd k s2 e s'] last obtain us where
      us: "ck_results s' = ck_results s2 @ us" "prefix (map fst us) last_names" by auto
    with rs ls run Inl n1 prefix_none [OF us(2) names_disjoint(2)] show ?thesis
      by (intro exI [of _ "rs @ ls @ us"]) (simp add: order_results_append)
  next
    case (Inr u)
    with reportsD(1) [OF last_checks_report, of P rnd k s2 u s'] last obtain us where
      us: "ck_results s' = ck_results s2 @ us" "map fst us = last_names" by auto
    have "order_results us = []" by (rule order_results_none) (simp only: us(2) names_disjoint(2))
    with rs ls run Inr n1 us show ?thesis
      by (intro exI [of _ "rs @ ls @ us"]) (simp add: order_results_append)
  qed
qed

lemma count_violations: "violations rs = 0 \<longleftrightarrow> (\<forall>(_, holds, _) \<in> set rs. holds)"
  by (auto simp: violations_def filter_empty_conv)

lemma lit_eq: "lit a = lit b \<longleftrightarrow> a = b"
  by (simp add: lit_def inj_def)

text \<open>A lemma is named in what the program prints exactly when it has been found violated.\<close>

definition violated_line :: "string \<Rightarrow> pystr" where
  "violated_line n = lit ''  VIOLATED: '' @ lit n"

lemma no_violated_line:
  "violated_line n \<notin> set banner_lines" "violated_line n \<notin> set (check_lines r)"
  by (auto simp: violated_line_def banner_lines_def check_lines_def lit_simps numeral_eq_Suc split: prod.splits if_splits)

lemma verdict_names:
  "violated_line n \<in> set (verdict_lines rs (violations rs)) \<longleftrightarrow> (\<exists>reason. (n, False, reason) \<in> set rs)"
proof (cases "violations rs = 0")
  case True
  then have "\<not> (\<exists>reason. (n, False, reason) \<in> set rs)" by (auto simp: count_violations)
  with True show ?thesis by (simp add: violated_line_def verdict_lines_def lit_simps Let_def)
next
  case False
  then have "violated_line n \<in> set (verdict_lines rs (violations rs)) \<longleftrightarrow>
    (\<exists>(name, holds, reason) \<in> set rs. \<not> holds \<and> lit n = lit name)"
    by (auto simp: violated_line_def verdict_lines_def lit_simps Let_def split: if_splits)
  then show ?thesis by (auto simp: lit_eq)
qed

lemma printed_violations:
  assumes "run_all_checks P rnd s = (Inr (violations (ck_results s')), s')" and "checker_main P rnd s = (status, out, s'')"
  shows "status = int (violations (ck_results s'))"
    and "violated_line n \<in> set out \<longleftrightarrow> (\<exists>reason. (n, False, reason) \<in> set (ck_results s'))"
  using assms no_violated_line by (auto simp: checker_main_def Let_def verdict_names)

lemma checks_recorded:
  "\<exists>rs. ck_results (snd (run_all_checks P rnd s)) = ck_results s @ rs \<and>
     (case fst (run_all_checks P rnd s) of
        Inr n \<Rightarrow> map fst rs = first_names @ log_names @ last_names \<and> n = violations (ck_results s @ rs) \<and>
          order_results rs = [True, True]
      | Inl _ \<Rightarrow> prefix (map fst rs) (first_names @ log_names @ last_names) \<and> order_results rs \<in> {[], [True, True]})"
proof -
  let ?s = "s\<lparr>ck_log := [], ck_channel := [], ck_server := opaque_server_new (cx_server_key rnd)\<rparr>"
  obtain r s1 where first: "first_checks P rnd ?s = (r, s1)" by fastforce
  show ?thesis
  proof (cases r)
    case (Inl e)
    with reportsD(2) [OF first_checks_report, of P rnd ?s e s1] first obtain rs where
      rs: "ck_results s1 = ck_results s @ rs" "prefix (map fst rs) first_names" by auto
    have "run_all_checks P rnd s = (Inl e, s1)" using first Inl by (simp add: run_all_parts bindS_def)
    moreover have "prefix (map fst rs) (first_names @ log_names @ last_names)" using rs(2) by (rule prefix_prefix)
    ultimately show ?thesis using rs prefix_none [OF rs(2) names_disjoint(1)] by (intro exI [of _ rs]) simp
  next
    case (Inr k)
    with first show ?thesis by (intro checks_after_first) simp
  qed
qed

text \<open>
  C36: the report of \<open>run_all_checks\<close>, however the protocol runs end: the new results are of the eleven checks
  in their order, of all of them when it returns, and then the program's exit status is the number of
  violations among all results recorded so far and what it prints names exactly the violated lemmas; an
  exception leaves the results of the first few and the status 1.  The lemmas L3 and L4 never fail: the
  run registers one user, and a login it has logged has its events in order.
\<close>

theorem checks_reported:
  "\<exists>rs status out s'. checker_main P rnd s = (status, out, s') \<and> ck_results s' = ck_results s @ rs \<and>
     (case fst (run_all_checks P rnd s) of
        Inr _ \<Rightarrow> map fst rs = first_names @ log_names @ last_names \<and> order_results rs = [True, True] \<and>
          status = int (violations (ck_results s @ rs)) \<and>
          (\<forall>n. violated_line n \<in> set out \<longleftrightarrow> (\<exists>reason. (n, False, reason) \<in> set (ck_results s @ rs)))
      | Inl _ \<Rightarrow> prefix (map fst rs) (first_names @ log_names @ last_names) \<and> order_results rs \<in> {[], [True, True]} \<and>
          status = 1)"
proof -
  obtain r s' status out s'' where run: "run_all_checks P rnd s = (r, s')" "checker_main P rnd s = (status, out, s'')"
    using prod_cases3 surj_pair by metis
  then have "s'' = s'" by (auto simp: checker_main_def Let_def split: sum.splits)
  from checks_recorded [of P rnd s] obtain rs where rs: "ck_results s' = ck_results s @ rs"
    "case r of
       Inr n \<Rightarrow> map fst rs = first_names @ log_names @ last_names \<and> n = violations (ck_results s') \<and> order_results rs = [True, True]
     | Inl _ \<Rightarrow> prefix (map fst rs) (first_names @ log_names @ last_names) \<and> order_results rs \<in> {[], [True, True]}"
    using run(1) by (cases r) auto
  show ?thesis
  proof (cases r)
    case (Inl e)
    with run have "status = 1" by (simp add: checker_main_def)
    with Inl rs run \<open>s'' = s'\<close> show ?thesis by auto
  next
    case (Inr n)
    with run(1) rs have r: "run_all_checks P rnd s = (Inr (violations (ck_results s')), s')" by simp
    note p = printed_violations [OF r run(2)]
    from Inr rs run p \<open>s'' = s'\<close> show ?thesis by (intro exI [of _ rs] exI [of _ status] exI [of _ out] exI [of _ s'']) simp
  qed
qed

text \<open>The agreement lemma L3 asks for a response, not for one before the client finished.\<close>

lemma l3_ignores_order: "l3_agreement (rev lg) = l3_agreement lg"
  by (auto simp: l3_agreement_def events_def list_all_iff filter_empty_conv)

end
