(* ===== verification/Fuzz.thy ===== *)
theory Fuzz
  imports Prelude Codec "HOL-Library.Multiset"
begin

unbundle bit_operations_syntax

text \<open>
  The robustness campaign for the decoders (\<open>tools/fuzz_codec.py\<close>).  The draws of the random number
  generator are data: the campaign is a function of them.  Argument parsing and the report file are
  left out.
\<close>

section \<open>Mutations\<close>

text \<open>The action \<open>_mutate\<close> draws, with its positions; a mutation is legal if the code can draw it.\<close>

datatype mutation = Flip "(nat \<times> byte) list" | Truncate nat | Extend bytes | Splice nat nat

fun flips :: "(nat \<times> byte) list \<Rightarrow> bytes \<Rightarrow> bytes" where
  "flips [] buf = buf"
| "flips ((i, x) # ps) buf = flips ps (buf[i := buf ! i XOR x])"

definition mutate :: "bytes \<Rightarrow> bytes \<Rightarrow> mutation \<Rightarrow> bytes" where
  "mutate data fresh action =
     (if data = [] then fresh
      else case action of
        Flip ps \<Rightarrow> flips ps data
      | Truncate n \<Rightarrow> take n data
      | Extend ext \<Rightarrow> data @ ext
      | Splice i j \<Rightarrow> take i data @ drop j data)"

fun legal :: "bytes \<Rightarrow> mutation \<Rightarrow> bool" where
  "legal data (Flip ps) = (1 \<le> length ps \<and> length ps \<le> min 4 (length data) \<and>
     list_all (\<lambda>(i, x). i < length data \<and> x \<noteq> 0) ps)"
| "legal data (Truncate n) = (n \<le> length data)"
| "legal data (Extend ext) = (1 \<le> length ext \<and> length ext \<le> 16)"
| "legal data (Splice i j) = (i \<le> j \<and> j < length data)"

lemma length_flips [simp]: "length (flips ps buf) = length buf"
  by (induction ps buf rule: flips.induct) simp_all

text \<open>Not every legal mutation makes an input malformed: a splice of nothing returns the seed.\<close>

lemma legal_identity: "data \<noteq> [] \<Longrightarrow> legal data (Splice i i) \<longleftrightarrow> i < length data" "mutate data data (Splice i i) = data"
  by (simp_all add: mutate_def)

section \<open>Seeds\<close>

text \<open>The random bytes of the seeds, in the order in which they are drawn.\<close>

record seed_random =
  sd_credential :: bytes
  sd_client_nonce :: bytes
  sd_server_nonce :: bytes
  sd_config_sig :: bytes
  sd_verify_sig :: bytes
  sd_ciphertext :: bytes

definition seed_inputs :: "seed_random \<Rightarrow> (string \<times> bytes list) list res" where
  "seed_inputs rnd =
     bindE (encode_client_hello 1 (sd_credential rnd) (sd_client_nonce rnd) (blit ''ke1'')) (\<lambda>client_hello.
     bindE (encode_server_hello_core 1 (sd_server_nonce rnd) (blit ''cert'') (blit ''cfg'') (blit ''ke2'')) (\<lambda>core.
     bindE (encode_server_hello core (sd_config_sig rnd) (sd_verify_sig rnd)) (\<lambda>server_hello.
     bindE (encode_client_finish (blit ''ke3'')) (\<lambda>client_finish.
     bindE (encode_app_data 7 (sd_ciphertext rnd)) (\<lambda>app_data.
     bindE (encode_alert 2 (lit ''fatal'')) (\<lambda>alert.
       Inr [(''decode_client_hello'', [client_hello]), (''decode_server_hello'', [server_hello]),
            (''decode_client_finish'', [client_finish]), (''decode_app_data'', [app_data]),
            (''decode_alert'', [alert])]))))))"

section \<open>The campaign\<close>

text \<open>The table of decoders; only whether a decoder returns matters.\<close>

definition decoders :: "(string \<times> (bytes \<Rightarrow> unit res)) list" where
  "decoders =
     [(''decode_client_hello'', \<lambda>d. bindE (decode_client_hello d) (\<lambda>_. Inr ())),
      (''decode_server_hello'', \<lambda>d. bindE (decode_server_hello d) (\<lambda>_. Inr ())),
      (''decode_client_finish'', \<lambda>d. bindE (decode_client_finish d) (\<lambda>_. Inr ())),
      (''decode_app_data'', \<lambda>d. bindE (decode_app_data d) (\<lambda>_. Inr ())),
      (''decode_alert'', \<lambda>d. bindE (decode_alert d) (\<lambda>_. Inr ()))]"

text \<open>One iteration mutates a seed of the corpus or takes random bytes.\<close>

datatype draw = Mutated nat bytes mutation | Random bytes

fun draw_data :: "bytes list \<Rightarrow> draw \<Rightarrow> bytes" where
  "draw_data corpus (Mutated k fresh action) = mutate (corpus ! k) fresh action"
| "draw_data corpus (Random data) = data"

text \<open>The counter of a decoder is a multiset of outcomes.\<close>

datatype outcome = Accepted | Raised exn_kind

type_synonym sample = "string \<times> exn_kind \<times> pystr"

definition expected_exception :: "exn_kind \<Rightarrow> bool" where
  "expected_exception k \<longleftrightarrow>
     k \<in> {AssertionError, ValueError, UnicodeDecodeError, UnicodeEncodeError, StructError}"

definition fuzz_step ::
  "string \<Rightarrow> (bytes \<Rightarrow> unit res) \<Rightarrow> bytes \<Rightarrow> outcome multiset \<times> sample list \<Rightarrow> outcome multiset \<times> sample list" where
  "fuzz_step name fn data st = (case st of (counter, unexpected) \<Rightarrow>
     (case fn data of
       Inr _ \<Rightarrow> (add_mset Accepted counter, unexpected)
     | Inl e \<Rightarrow> (add_mset (Raised (err_kind e)) counter,
         if expected_exception (err_kind e) then unexpected else unexpected @ [(name, err_kind e, err_msg e)])))"

fun fuzz_decoder ::
  "string \<Rightarrow> (bytes \<Rightarrow> unit res) \<Rightarrow> bytes list \<Rightarrow> draw list \<Rightarrow> outcome multiset \<times> sample list \<Rightarrow>
   outcome multiset \<times> sample list" where
  "fuzz_decoder name fn corpus [] st = st"
| "fuzz_decoder name fn corpus (d # ds) st = fuzz_decoder name fn corpus ds (fuzz_step name fn (draw_data corpus d) st)"

text \<open>The loop over the decoders; the unexpected samples of all of them are collected in one list.\<close>

fun campaign_loop ::
  "(string \<Rightarrow> bytes list) \<Rightarrow> (string \<Rightarrow> draw list) \<Rightarrow> (string \<times> (bytes \<Rightarrow> unit res)) list \<Rightarrow> sample list \<Rightarrow>
   (string \<times> outcome multiset) list \<times> sample list" where
  "campaign_loop seeds draws [] unexpected = ([], unexpected)"
| "campaign_loop seeds draws ((name, fn) # ds) unexpected =
     (case fuzz_decoder name fn (seeds name) (draws name) ({#}, unexpected) of (counter, unexpected) \<Rightarrow>
        case campaign_loop seeds draws ds unexpected of (counters, unexpected) \<Rightarrow> ((name, counter) # counters, unexpected))"

definition fuzz_campaign :: "seed_random \<Rightarrow> (string \<Rightarrow> draw list) \<Rightarrow>
    ((string \<times> outcome multiset) list \<times> sample list) res" where
  "fuzz_campaign rnd draws =
     bindE (seed_inputs rnd) (\<lambda>seeds.
       case campaign_loop (\<lambda>name. case map_of seeds name of Some c \<Rightarrow> c | None \<Rightarrow> []) draws decoders [] of
         (counters, unexpected) \<Rightarrow> Inr (counters, take 20 unexpected))"

section \<open>What a campaign reports\<close>

lemma fuzz_decoder_result:
  assumes "\<And>d. fails_only {AssertionError, ValueError} (fn d)"
  shows "\<exists>c. fuzz_decoder name fn corpus ds (counter, unexpected) = (counter + c, unexpected) \<and> size c = length ds \<and>
    set_mset c \<subseteq> {Accepted, Raised AssertionError, Raised ValueError}"
proof (induction ds arbitrary: counter)
  case Nil
  show ?case by simp
next
  case (Cons d ds)
  obtain oc where oc: "fuzz_step name fn (draw_data corpus d) (counter, unexpected) = (add_mset oc counter, unexpected)"
    "oc \<in> {Accepted, Raised AssertionError, Raised ValueError}"
    using assms [of "draw_data corpus d"]
    by (auto simp: fuzz_step_def fails_only_def expected_exception_def split: sum.splits)
  from Cons.IH [of "add_mset oc counter"] obtain c where
    "fuzz_decoder name fn corpus ds (add_mset oc counter, unexpected) = (add_mset oc counter + c, unexpected)"
    "size c = length ds" "set_mset c \<subseteq> {Accepted, Raised AssertionError, Raised ValueError}" by blast
  with oc show ?case by (intro exI [of _ "add_mset oc c"]) simp
qed

lemma decoders_fail: "(name, fn) \<in> set decoders \<Longrightarrow> fails_only {AssertionError, ValueError} (fn d)"
  by (auto simp: decoders_def intro: decode_client_hello_fails decode_server_hello_fails decode_client_finish_fails
      decode_app_data_fails decode_alert_fails)

lemma campaign_loop_result:
  "(\<And>name fn d. (name, fn) \<in> set ds \<Longrightarrow> fails_only {AssertionError, ValueError} (fn d)) \<Longrightarrow>
   \<exists>counters. campaign_loop seeds draws ds unexpected = (counters, unexpected) \<and> map fst counters = map fst ds \<and>
     list_all (\<lambda>(name, c). size c = length (draws name) \<and>
       set_mset c \<subseteq> {Accepted, Raised AssertionError, Raised ValueError}) counters"
proof (induction ds)
  case Nil
  show ?case by simp
next
  case (Cons d ds)
  obtain name fn where d: "d = (name, fn)" by fastforce
  from fuzz_decoder_result [of fn name "seeds name" "draws name" "{#}" unexpected] Cons.prems d obtain c where
    "fuzz_decoder name fn (seeds name) (draws name) ({#}, unexpected) = (c, unexpected)" "size c = length (draws name)"
    "set_mset c \<subseteq> {Accepted, Raised AssertionError, Raised ValueError}" by auto
  moreover have "(n, f) \<in> set ds \<Longrightarrow> fails_only {AssertionError, ValueError} (f x)" for n f x
    by (rule Cons.prems [of n f]) simp
  ultimately show ?case using Cons.IH d by auto
qed

section \<open>Property\<close>

text \<open>
  C37: the campaign can only report that the decoders are robust: whatever bytes are drawn, every
  iteration is counted, as accepted or as an AssertionError or a ValueError of the decoder, and the
  list of unexpected exceptions stays empty.  (The campaign starts whenever its seeds encode.)
\<close>

theorem fuzz_campaign_clean:
  assumes "seed_inputs rnd = Inr seeds"
  shows "\<exists>counters. fuzz_campaign rnd draws = Inr (counters, []) \<and> map fst counters = map fst decoders \<and>
    list_all (\<lambda>(name, c). size c = length (draws name) \<and>
      set_mset c \<subseteq> {Accepted, Raised AssertionError, Raised ValueError}) counters"
  using campaign_loop_result [of decoders "\<lambda>name. case map_of seeds name of Some c \<Rightarrow> c | None \<Rightarrow> []" draws "[]"] decoders_fail
  by (fastforce simp: fuzz_campaign_def assms)

definition sample_seeds :: seed_random where
  "sample_seeds = \<lparr>sd_credential = replicate 64 1, sd_client_nonce = replicate 32 2, sd_server_nonce = replicate 32 3,
     sd_config_sig = replicate 71 4, sd_verify_sig = replicate 71 5, sd_ciphertext = replicate 64 6\<rparr>"

theorem fuzz_campaign_clean_witness:
  "\<exists>counters. fuzz_campaign sample_seeds (\<lambda>_. [Random [], Mutated 0 [] (Truncate 3)]) = Inr (counters, []) \<and>
     map fst counters = map fst decoders \<and> list_all (\<lambda>(name, c). size c = 2) counters"
proof -
  obtain seeds where "seed_inputs sample_seeds = Inr seeds"
    by (simp add: seed_inputs_def sample_seeds_def encode_client_hello_def encode_server_hello_core_def
        encode_server_hello_def encode_client_finish_def encode_app_data_def encode_alert_def bindE_def
        p16_def p24_def utf8_char_def eval_simps)
  from fuzz_campaign_clean [OF this, of "\<lambda>_. [Random [], Mutated 0 [] (Truncate 3)]"] show ?thesis
    by (auto simp: list_all_iff numeral_2_eq_2)
qed

end
