(* ===== verification/Summaries.thy ===== *)
theory Summaries
  imports Complex_Main Prelude "HOL-Library.Multiset"
begin

text \<open>
  The statistics of the measuring tools (\<open>tools/benchmark_artifact.py\<close> and
  \<open>tools/measure_fake_user_timing.py\<close>).  Floats are taken as the numbers they denote and their
  arithmetic as exact; what selects samples (minimum, maximum, percentile) does not depend on that.
\<close>

section \<open>Module \<open>statistics\<close>\<close>

text \<open>For non-empty data; the tools never pass an empty list.\<close>

definition mean :: "real list \<Rightarrow> real" where
  "mean xs = sum_list xs / real (length xs)"

definition median :: "real list \<Rightarrow> real" where
  "median xs = (let data = sort xs; n = length data in
     if n mod 2 = 1 then data ! (n div 2) else (data ! (n div 2 - 1) + data ! (n div 2)) / 2)"

definition pstdev :: "real list \<Rightarrow> real" where
  "pstdev xs = sqrt ((\<Sum>x\<leftarrow>xs. (x - mean xs)\<^sup>2) / real (length xs))"

section \<open>Summaries\<close>

record summary =
  sm_count :: nat
  sm_mean :: "real option"
  sm_stdev :: "real option"
  sm_min :: "real option"
  sm_median :: "real option"
  sm_p95 :: "real option"
  sm_max :: "real option"

definition no_summary :: summary where
  "no_summary = \<lparr>sm_count = 0, sm_mean = None, sm_stdev = None, sm_min = None, sm_median = None, sm_p95 = None, sm_max = None\<rparr>"

text \<open>The percentile of the benchmark, of a sorted list.\<close>

definition percentile :: "real list \<Rightarrow> real \<Rightarrow> real" where
  "percentile values p =
     (if length values = 1 then values ! 0
      else let idx = min (int (length values) - 1) (max 0 (\<lceil>p * real (length values)\<rceil> - 1)) in values ! nat idx)"

text \<open>\<open>_summary\<close> of the benchmark, in milliseconds.\<close>

definition bench_summary :: "real list \<Rightarrow> summary" where
  "bench_summary values = (let values = sort values in
     if values = [] then no_summary
     else \<lparr>sm_count = length values, sm_mean = Some (1000 * mean values),
       sm_stdev = Some (1000 * (if length values > 1 then pstdev values else 0)),
       sm_min = Some (1000 * values ! 0), sm_median = Some (1000 * median values),
       sm_p95 = Some (1000 * percentile values (95 / 100)), sm_max = Some (1000 * last values)\<rparr>)"

text \<open>\<open>_summary\<close> of the timing study.\<close>

definition timing_summary :: "real list \<Rightarrow> summary" where
  "timing_summary values = (let vals = sort values in
     if vals = [] then no_summary
     else \<lparr>sm_count = length vals, sm_mean = Some (mean vals),
       sm_stdev = Some (if length vals > 1 then pstdev vals else 0), sm_min = Some (vals ! 0),
       sm_median = Some (median vals), sm_p95 = Some (vals ! nat (max 0 (\<lceil>95 / 100 * real (length vals)\<rceil> - 1))),
       sm_max = Some (last vals)\<rparr>)"

text \<open>The entry \<open>app_round_trip\<close> of the benchmark's report, of averages that are milliseconds already.\<close>

definition round_trip_summary :: "real list \<Rightarrow> summary" where
  "round_trip_summary ms = \<lparr>sm_count = length ms,
     sm_mean = (if ms \<noteq> [] then Some (mean ms) else None),
     sm_stdev = Some (if length ms > 1 then pstdev ms else 0),
     sm_min = (if ms \<noteq> [] then Some (Min (set ms)) else None),
     sm_median = (if ms \<noteq> [] then Some (median ms) else None),
     sm_p95 = (if ms \<noteq> [] then Some (sort ms ! nat (max 0 (\<lceil>95 / 100 * real (length ms)\<rceil> - 1))) else None),
     sm_max = (if ms \<noteq> [] then Some (Max (set ms)) else None)\<rparr>"

text \<open>The entry \<open>throughput\<close>, which has no percentile.\<close>

definition throughput_summary :: "real list \<Rightarrow> summary" where
  "throughput_summary mib_s = \<lparr>sm_count = length mib_s,
     sm_mean = (if mib_s \<noteq> [] then Some (mean mib_s) else None),
     sm_stdev = Some (if length mib_s > 1 then pstdev mib_s else 0),
     sm_min = (if mib_s \<noteq> [] then Some (Min (set mib_s)) else None),
     sm_median = (if mib_s \<noteq> [] then Some (median mib_s) else None), sm_p95 = None,
     sm_max = (if mib_s \<noteq> [] then Some (Max (set mib_s)) else None)\<rparr>"

text \<open>The figures of one benchmark run.\<close>

definition average_rtt_ms :: "real \<Rightarrow> nat \<Rightarrow> real" where
  "average_rtt_ms app_elapsed app_rounds = 1000 * app_elapsed / real (max 1 app_rounds)"

definition throughput_mib_s :: "nat \<Rightarrow> nat \<Rightarrow> real \<Rightarrow> real" where
  "throughput_mib_s message_size app_rounds app_elapsed =
     real (message_size * app_rounds) / max app_elapsed (1 / 10 ^ 9) / (1024 * 1024)"

text \<open>The report of the timing study: the lengths of the ServerHello frames and the times to failure.\<close>

record timing_report =
  tr_wrong_lengths :: summary
  tr_unknown_lengths :: summary
  tr_all_equal :: bool
  tr_unique_wrong :: "nat list"
  tr_unique_unknown :: "nat list"
  tr_wrong_times :: summary
  tr_unknown_times :: summary
  tr_mean_gap :: "real option"

definition study_report :: "nat list \<Rightarrow> nat list \<Rightarrow> real list \<Rightarrow> real list \<Rightarrow> timing_report" where
  "study_report wrong_lengths unknown_lengths wrong_times unknown_times =
     \<lparr>tr_wrong_lengths = timing_summary (map real wrong_lengths),
      tr_unknown_lengths = timing_summary (map real unknown_lengths),
      tr_all_equal = (wrong_lengths = unknown_lengths),
      tr_unique_wrong = sort (remdups wrong_lengths), tr_unique_unknown = sort (remdups unknown_lengths),
      tr_wrong_times = timing_summary wrong_times, tr_unknown_times = timing_summary unknown_times,
      tr_mean_gap = (if wrong_times \<noteq> [] \<and> unknown_times \<noteq> [] then Some \<bar>mean wrong_times - mean unknown_times\<bar> else None)\<rparr>"

lemma summary_counts [simp]:
  "sm_count (bench_summary xs) = length xs" "sm_count (timing_summary xs) = length xs"
  "sm_count (round_trip_summary xs) = length xs" "sm_count (throughput_summary xs) = length xs"
proof -
  have "sort xs = [] \<longleftrightarrow> xs = []" by (metis length_0_conv length_sort)
  then show "sm_count (bench_summary xs) = length xs" "sm_count (timing_summary xs) = length xs"
    by (simp_all add: bench_summary_def timing_summary_def no_summary_def Let_def)
qed (simp_all add: round_trip_summary_def throughput_summary_def)

section \<open>Order statistics\<close>

lemma sorted_bounds:
  fixes xs :: "real list"
  assumes "sorted xs" and "i < length xs"
  shows "xs ! 0 \<le> xs ! i" and "xs ! i \<le> last xs"
proof -
  show "xs ! 0 \<le> xs ! i" by (rule sorted_nth_mono) (use assms in auto)
  have "xs ! i \<le> xs ! (length xs - 1)" by (rule sorted_nth_mono) (use assms in auto)
  moreover have "last xs = xs ! (length xs - 1)" using assms(2) by (intro last_conv_nth) auto
  ultimately show "xs ! i \<le> last xs" by simp
qed

lemma hd_sorted_Min: "sorted xs \<Longrightarrow> xs \<noteq> [] \<Longrightarrow> hd xs = Min (set xs)" for xs :: "real list"
  by (cases xs) (auto intro!: Min_eqI [symmetric])

lemma last_sorted_Max:
  fixes xs :: "real list"
  assumes "sorted xs" and "xs \<noteq> []"
  shows "last xs = Max (set xs)"
proof (rule Max_eqI [symmetric])
  fix y assume "y \<in> set xs"
  then obtain i where "i < length xs" "y = xs ! i" by (auto simp: in_set_conv_nth)
  with sorted_bounds(2) [OF assms(1)] show "y \<le> last xs" by simp
qed (use assms(2) in auto)

lemma sorted_below:
  fixes xs :: "real list"
  assumes "sorted xs" and "i < length xs"
  shows "length (filter (\<lambda>x. x < xs ! i) xs) \<le> i" and "i < length (filter (\<lambda>x. x \<le> xs ! i) xs)"
proof -
  have d: "xs = take i xs @ drop i xs" by simp
  have "filter (\<lambda>x. x < xs ! i) (drop i xs) = []"
    using assms by (auto simp: filter_empty_conv in_set_conv_nth not_less intro!: sorted_nth_mono)
  then have "filter (\<lambda>x. x < xs ! i) xs = filter (\<lambda>x. x < xs ! i) (take i xs)"
    by (subst d) (simp only: filter_append append_Nil2)
  then show "length (filter (\<lambda>x. x < xs ! i) xs) \<le> i"
    using length_filter_le [of "\<lambda>x. x < xs ! i" "take i xs"] by simp
  have "filter (\<lambda>x. x \<le> xs ! i) (take (Suc i) xs) = take (Suc i) xs"
    using assms by (auto simp: filter_id_conv in_set_conv_nth intro!: sorted_nth_mono)
  then have "filter (\<lambda>x. x \<le> xs ! i) xs = take (Suc i) xs @ filter (\<lambda>x. x \<le> xs ! i) (drop (Suc i) xs)"
    by (subst append_take_drop_id [of "Suc i" xs, symmetric]) (simp only: filter_append)
  then show "i < length (filter (\<lambda>x. x \<le> xs ! i) xs)" using assms(2) by simp
qed

lemma mean_bounds:
  assumes "xs \<noteq> []" and "\<forall>x \<in> set xs. a \<le> x \<and> x \<le> b"
  shows "a \<le> mean xs" and "mean xs \<le> b"
proof -
  have n: "0 < real (length xs)" using assms(1) by simp
  have "a * real (length xs) \<le> sum_list xs \<and> sum_list xs \<le> b * real (length xs)"
    using assms(2) by (induction xs) (auto simp: algebra_simps)
  then show "a \<le> mean xs" "mean xs \<le> b" using n by (simp_all add: mean_def field_simps)
qed

lemma mean_sort [simp]: "mean (sort xs) = mean xs"
proof -
  have "sum_list (sort xs) = sum_list xs"
    by (metis mset_sort sum_mset_sum_list)
  then show ?thesis by (simp add: mean_def)
qed

lemma median_bounds:
  assumes "xs \<noteq> []"
  shows "sort xs ! 0 \<le> median xs" and "median xs \<le> last (sort xs)"
proof -
  let ?d = "sort xs"
  have n: "length ?d div 2 < length ?d" "length ?d div 2 - 1 < length ?d" using assms by (cases xs; auto)+
  note b = sorted_bounds [OF sorted_sort n(1)] sorted_bounds [OF sorted_sort n(2)]
  show "sort xs ! 0 \<le> median xs" "median xs \<le> last (sort xs)"
    using b by (auto simp: median_def Let_def)
qed

text \<open>The index of the 95th percentile.\<close>

definition p95_index :: "nat \<Rightarrow> nat" where
  "p95_index n = nat (\<lceil>95 / 100 * real n\<rceil> - 1)"

lemma p95_index_bounds:
  assumes "0 < n"
  shows "p95_index n < n" and "real (p95_index n) < 95 / 100 * real n" and "95 / 100 * real n \<le> real (p95_index n) + 1"
    and "nat (max 0 (\<lceil>95 / 100 * real n\<rceil> - 1)) = p95_index n"
    and "nat (min (int n - 1) (max 0 (\<lceil>95 / 100 * real n\<rceil> - 1))) = p95_index n"
proof -
  let ?c = "\<lceil>95 / 100 * real n\<rceil>"
  have c: "1 \<le> ?c" "?c \<le> int n" using assms by (simp_all add: ceiling_le_iff less_ceiling_iff)
  have r: "real_of_int ?c - 1 < 95 / 100 * real n" "95 / 100 * real n \<le> real_of_int ?c" by linarith+
  have i: "int (p95_index n) = ?c - 1" using c(1) by (simp add: p95_index_def)
  show "p95_index n < n" using i c(2) by linarith
  show "real (p95_index n) < 95 / 100 * real n" "95 / 100 * real n \<le> real (p95_index n) + 1"
    using i r by linarith+
  show "nat (max 0 (?c - 1)) = p95_index n" "nat (min (int n - 1) (max 0 (?c - 1))) = p95_index n"
    using c by (simp_all add: p95_index_def)
qed

lemma percentile_index: "xs \<noteq> [] \<Longrightarrow> percentile xs (95 / 100) = xs ! p95_index (length xs)"
  using p95_index_bounds(1,5) [of "length xs"] by (auto simp: percentile_def Let_def)

section \<open>Properties\<close>

text \<open>
  C40: the two tools compute the same statistics, the benchmark in milliseconds, although they write the
  percentile differently; and they are what they are called: minimum, median, percentile, mean and
  maximum are in order, the percentile is a sample, at least 95 percent of the samples are up to it
  and fewer than 95 percent are below it.
\<close>

theorem summaries_sound:
  assumes "values \<noteq> []"
  shows "\<exists>lo md p hi mn sd. timing_summary values = \<lparr>sm_count = length values, sm_mean = Some mn, sm_stdev = Some sd,
      sm_min = Some lo, sm_median = Some md, sm_p95 = Some p, sm_max = Some hi\<rparr> \<and>
    bench_summary values = \<lparr>sm_count = length values, sm_mean = Some (1000 * mn), sm_stdev = Some (1000 * sd),
      sm_min = Some (1000 * lo), sm_median = Some (1000 * md), sm_p95 = Some (1000 * p), sm_max = Some (1000 * hi)\<rparr> \<and>
    lo = Min (set values) \<and> hi = Max (set values) \<and> lo \<le> md \<and> md \<le> hi \<and> lo \<le> mn \<and> mn \<le> hi \<and> p \<in> set values \<and>
    real (length (filter (\<lambda>x. x < p) values)) < 95 / 100 * real (length values) \<and>
    95 / 100 * real (length values) \<le> real (length (filter (\<lambda>x. x \<le> p) values))"
proof -
  let ?v = "sort values"
  let ?i = "p95_index (length values)"
  have ne: "?v \<noteq> []" using assms by (metis length_sort length_0_conv)
  have n: "0 < length values" using assms by simp
  note i = p95_index_bounds [OF n]
  have lo: "?v ! 0 = Min (set values)"
    using hd_sorted_Min [of ?v] ne by (simp add: hd_conv_nth)
  have hi: "last ?v = Max (set values)"
    using last_sorted_Max [of ?v] ne by simp
  have m: "?v ! 0 \<le> mean values" "mean values \<le> last ?v"
    unfolding lo hi using mean_bounds [OF assms, of "Min (set values)" "Max (set values)"] by simp_all
  have p: "?v ! ?i \<in> set values" using i(1) by (metis length_sort nth_mem set_sort)
  have f: "length (filter P ?v) = length (filter P values)" for P :: "real \<Rightarrow> bool"
    by (metis filter_sort length_sort)
  have "length (filter (\<lambda>x. x < ?v ! ?i) values) \<le> ?i" "?i < length (filter (\<lambda>x. x \<le> ?v ! ?i) values)"
    using sorted_below [of ?v ?i] i(1) by (simp_all add: f)
  with i(2,3) have r: "real (length (filter (\<lambda>x. x < ?v ! ?i) values)) < 95 / 100 * real (length values)"
    "95 / 100 * real (length values) \<le> real (length (filter (\<lambda>x. x \<le> ?v ! ?i) values))" by linarith+
  have md: "median ?v = median values" by (simp add: median_def sorted_sort_id Let_def)
  have t: "timing_summary values = \<lparr>sm_count = length values, sm_mean = Some (mean values),
      sm_stdev = Some (if length values > 1 then pstdev ?v else 0), sm_min = Some (?v ! 0), sm_median = Some (median values),
      sm_p95 = Some (?v ! ?i), sm_max = Some (last ?v)\<rparr>"
    using ne i(4) by (simp add: timing_summary_def Let_def md)
  have b: "bench_summary values = \<lparr>sm_count = length values, sm_mean = Some (1000 * mean values),
      sm_stdev = Some (1000 * (if length values > 1 then pstdev ?v else 0)), sm_min = Some (1000 * ?v ! 0),
      sm_median = Some (1000 * median values), sm_p95 = Some (1000 * ?v ! ?i), sm_max = Some (1000 * last ?v)\<rparr>"
    using ne percentile_index [OF ne] by (simp add: bench_summary_def Let_def md)
  show ?thesis
  proof (intro exI conjI)
    show "?v ! 0 \<le> median values" "median values \<le> last ?v" by (rule median_bounds [OF assms])+
  qed (rule t b lo hi m p r)+
qed

theorem summaries_sound_witness:
  "sm_p95 (timing_summary [4, 2, 3]) = Some 4 \<and> sm_median (bench_summary [4, 2, 3]) = Some 3000 \<and>
   sm_min (bench_summary [4, 2, 3]) = Some 2000"
proof -
  from summaries_sound [of "[4, 2, 3 :: real]"] obtain lo md p mn sd where
    s: "timing_summary [4, 2, 3] = \<lparr>sm_count = 3, sm_mean = Some mn, sm_stdev = Some sd,
      sm_min = Some lo, sm_median = Some md, sm_p95 = Some p, sm_max = Some 4\<rparr>"
    "bench_summary [4, 2, 3] = \<lparr>sm_count = 3, sm_mean = Some (1000 * mn), sm_stdev = Some (1000 * sd),
      sm_min = Some (1000 * lo), sm_median = Some (1000 * md), sm_p95 = Some (1000 * p), sm_max = Some (1000 * 4)\<rparr>"
    "lo = 2" "p \<in> {4, 2, 3}" "95 / 100 * 3 \<le> real (length (filter (\<lambda>x. x \<le> p) [4, 2, 3 :: real]))" by auto
  have "median [4, 2, 3] = 3" by (simp add: median_def Let_def)
  then have "md = 3" using s(1) by (simp add: timing_summary_def Let_def) (simp add: median_def)
  moreover have "p = 4" using s(4,5) by auto
  ultimately show ?thesis using s(1-3) by simp
qed

end
