(* ===== verification/Harness.thy ===== *)
theory Harness
  imports Complex_Main Prelude Utf8 Codec Connection Primitives Storage File_System Pki Pki_Files Opaque Client
begin

text \<open>
  What the two measuring programs (\<open>tools/benchmark_artifact.py\<close>, \<open>tools/measure_fake_user_timing.py\<close>)
  share: a process with a disk, a clock, one socket at a time, and a child process that runs the
  server.  Their context managers put the database back and stop the server however the measurements
  end; the wait for the server ends because the time it sleeps passes.
\<close>

section \<open>The process\<close>

text \<open>
  The network is what the calls of \<open>connect\<close> meet, in order: a connection or an exception.  The two
  clocks (\<open>time.time\<close> and \<open>time.perf_counter\<close>) are their readings in order, and \<open>ha_server n\<close> is what
  the server has done to the disk by the time the connection with number \<open>n\<close> is closed.
\<close>

record harness =
  ha_fs :: file_system
  ha_net :: "nat \<Rightarrow> conn res"
  ha_dialled :: nat
  ha_clock :: "nat \<Rightarrow> real"
  ha_read :: nat
  ha_timer :: "nat \<Rightarrow> real"
  ha_ticks :: nat
  ha_server :: "nat \<Rightarrow> file_system \<Rightarrow> file_system"
  ha_conn :: conn
  ha_closed :: "conn list"
  ha_running :: bool

definition perf_counter :: "(harness, real) st_res" where
  "perf_counter s = (Inr (ha_timer s (ha_ticks s)), s\<lparr>ha_ticks := Suc (ha_ticks s)\<rparr>)"

definition connect :: "(harness, unit) st_res" where
  "connect s = (case ha_net s (ha_dialled s) of
     Inl e \<Rightarrow> (Inl e, s\<lparr>ha_dialled := Suc (ha_dialled s)\<rparr>)
   | Inr c \<Rightarrow> (Inr (), s\<lparr>ha_dialled := Suc (ha_dialled s), ha_conn := c\<rparr>))"

definition close_socket :: "harness \<Rightarrow> harness" where
  "close_socket s = s\<lparr>ha_closed := ha_closed s @ [ha_conn s], ha_fs := ha_server s (ha_dialled s) (ha_fs s)\<rparr>"

definition on_socket :: "(conn, 'a) st_res \<Rightarrow> (harness, 'a) st_res" where
  "on_socket m s = (case m (ha_conn s) of (r, c) \<Rightarrow> (r, s\<lparr>ha_conn := c\<rparr>))"

definition on_disk :: "(file_system, 'a) st_res \<Rightarrow> (harness, 'a) st_res" where
  "on_disk m s = (case m (ha_fs s) of (r, fs) \<Rightarrow> (r, s\<lparr>ha_fs := fs\<rparr>))"

text \<open>\<open>try: m  finally: f\<close>.\<close>

definition finallyS :: "('s, 'a) st_res \<Rightarrow> ('s \<Rightarrow> 's) \<Rightarrow> ('s, 'a) st_res" where
  "finallyS m f s = (case m s of (r, s') \<Rightarrow> (r, f s'))"

text \<open>A connection that is closed whatever happens on it.\<close>

definition with_socket :: "(harness, 'a) st_res \<Rightarrow> (harness, 'a) st_res" where
  "with_socket m = bindS connect (\<lambda>_. finallyS m close_socket)"

text \<open>The timer read before and after an operation.\<close>

definition timed :: "(harness, 'a) st_res \<Rightarrow> (harness, 'a \<times> real) st_res" where
  "timed m = bindS perf_counter (\<lambda>t0. bindS m (\<lambda>x. bindS perf_counter (\<lambda>t1. retS (x, t1 - t0))))"

section \<open>The programs' calls\<close>

text \<open>An operation on the open socket that reads the CA file.\<close>

definition with_ca :: "prims \<Rightarrow> pystr \<Rightarrow> (x509_cert res \<Rightarrow> (conn, 'a) st_res) \<Rightarrow> (harness, 'a) st_res" where
  "with_ca P base m s = on_socket (m (load_certificate P (CA_CERT_PATH base) (ha_fs s))) s"

text \<open>
  \<open>register\<close>: the bootstrap, what it computes before it connects (it raises there without a
  connection), and the registration on a socket of its own.
\<close>

definition registration_request :: "prims \<Rightarrow> register_random \<Rightarrow> pystr \<Rightarrow> pystr \<Rightarrow> unit res" where
  "registration_request P rnd username password =
     bindE (make_cred_id P username) (\<lambda>_.
     bindE (utf8_encode password) (\<lambda>pw.
     bindE (utf8_encode username) (\<lambda>_.
     bindE (registration_start P (rr_blind rnd) pw) (\<lambda>_. Inr ()))))"

definition register_user ::
  "prims \<Rightarrow> pystr \<Rightarrow> pki_random \<Rightarrow> register_random \<Rightarrow> check_times \<Rightarrow> pystr \<Rightarrow> pystr \<Rightarrow> (harness, unit) st_res" where
  "register_user P base prnd rnd now username password =
     bindS (on_disk (bootstrap_pki P base False prnd)) (\<lambda>_.
     bindS (liftS (registration_request P rnd username password)) (\<lambda>_.
       with_socket (with_ca P base (\<lambda>ca. register P rnd now ca username password))))"

section \<open>The wait for the server\<close>

text \<open>
  Until the deadline, one attempt to connect after the other with a pause of 0.1 seconds between them;
  the exception that is raised then depends on the last failure.  Nothing in the loop makes the time
  pass, so that it need not return: its result is \<open>None\<close> then.
\<close>

partial_function (option) wait_loop ::
  "(py_error option \<Rightarrow> py_error) \<Rightarrow> real \<Rightarrow> py_error option \<Rightarrow> harness \<Rightarrow> (unit res \<times> harness) option" where
  "wait_loop failure deadline last_err s =
     (let now = ha_clock s (ha_read s); s = s\<lparr>ha_read := Suc (ha_read s)\<rparr> in
      if now < deadline then
        (case connect s of
           (Inr _, s) \<Rightarrow> Some (Inr (), close_socket s)
         | (Inl e, s) \<Rightarrow> wait_loop failure deadline (Some e) s)
      else Some (Inl (failure last_err), s))"

definition wait_for_server :: "(py_error option \<Rightarrow> py_error) \<Rightarrow> harness \<Rightarrow> (unit res \<times> harness) option" where
  "wait_for_server failure s =
     wait_loop failure (ha_clock s (ha_read s) + 10) None (s\<lparr>ha_read := Suc (ha_read s)\<rparr>)"

definition not_listening :: "py_error option \<Rightarrow> py_error" where
  "not_listening last_err = PyError RuntimeError (lit ''Server did not start listening within 10.0s: '' @
     (case last_err of None \<Rightarrow> lit ''None'' | Some e \<Rightarrow> err_msg e))"

definition not_ready :: "py_error option \<Rightarrow> py_error" where
  "not_ready last_err = PyError RuntimeError (lit ''server did not become ready'')"

section \<open>The server process and the database\<close>

definition terminate_server :: "harness \<Rightarrow> harness" where
  "terminate_server s = s\<lparr>ha_running := False, ha_fs := ha_server s (ha_dialled s) (ha_fs s)\<rparr>"

definition server_process ::
  "(py_error option \<Rightarrow> py_error) \<Rightarrow> (harness, 'a) st_res \<Rightarrow> harness \<Rightarrow> ('a res \<times> harness) option" where
  "server_process failure body s =
     (case wait_for_server failure (s\<lparr>ha_running := True\<rparr>) of
        None \<Rightarrow> None
      | Some (Inl e, s) \<Rightarrow> Some (Inl e, terminate_server s)
      | Some (Inr _, s) \<Rightarrow> Some (finallyS body terminate_server s))"

text \<open>
  The database files are copied to a fresh directory that the body does not know, and back at the end;
  a file that was absent is removed.
\<close>

definition save_paths :: "pystr list \<Rightarrow> file_system \<Rightarrow> (pystr \<times> bytes option) list" where
  "save_paths paths fs = map (\<lambda>path. (path, fs path)) paths"

fun restore_paths :: "(pystr \<times> bytes option) list \<Rightarrow> file_system \<Rightarrow> file_system" where
  "restore_paths [] fs = fs"
| "restore_paths ((path, src) # saved) fs = restore_paths saved (fs(path := src))"

definition preserve_db_state ::
  "pystr \<Rightarrow> (harness \<Rightarrow> ('a res \<times> harness) option) \<Rightarrow> harness \<Rightarrow> ('a res \<times> harness) option" where
  "preserve_db_state base body s =
     (let saved = save_paths [USERS_DB_PATH base, SERVER_STATE_PATH base] (ha_fs s) in
      case body s of
        None \<Rightarrow> None
      | Some (r, s) \<Rightarrow> Some (r, s\<lparr>ha_fs := restore_paths saved (ha_fs s)\<rparr>))"

section \<open>What the wait does\<close>

text \<open>The clock does not go back, and at least the 0.1 seconds of the pause pass from one test of the deadline to the next.\<close>

definition time_passes :: "harness \<Rightarrow> bool" where
  "time_passes s \<longleftrightarrow> ha_clock s (ha_read s) \<le> ha_clock s (Suc (ha_read s)) \<and>
     (\<forall>i > ha_read s. ha_clock s i + 1 / 10 \<le> ha_clock s (Suc i))"

text \<open>The end of a wait: the attempts up to the last one were refused, and the last one decides.\<close>

definition wait_ended :: "(py_error option \<Rightarrow> py_error) \<Rightarrow> harness \<Rightarrow> unit res \<Rightarrow> harness \<Rightarrow> bool" where
  "wait_ended failure s r s' \<longleftrightarrow> ha_net s' = ha_net s \<and>
     (\<forall>i \<ge> ha_dialled s. Suc i < ha_dialled s' \<longrightarrow> isl (ha_net s i)) \<and>
     (case r of
        Inr _ \<Rightarrow> ha_dialled s < ha_dialled s' \<and> \<not> isl (ha_net s (ha_dialled s' - 1))
      | Inl e \<Rightarrow> (\<exists>last_err. e = failure last_err) \<and> (\<forall>i \<in> {ha_dialled s..<ha_dialled s'}. isl (ha_net s i)))"

lemma wait_ended_cong:
  "wait_ended failure (s\<lparr>ha_read := n\<rparr>) = wait_ended failure s" "wait_ended failure (s\<lparr>ha_running := b\<rparr>) = wait_ended failure s"
  by (intro ext, simp add: wait_ended_def split: sum.split)+

lemma wait_loop_ends:
  assumes "\<forall>i \<ge> ha_read s. ha_clock s i + 1 / 10 \<le> ha_clock s (Suc i)"
    and "deadline \<le> ha_clock s (ha_read s) + real k / 10"
  shows "\<exists>r s'. wait_loop failure deadline last_err s = Some (r, s') \<and> ha_dialled s' \<le> ha_dialled s + k \<and>
    ha_dialled s \<le> ha_dialled s' \<and> wait_ended failure s r s'"
  using assms
proof (induction k arbitrary: s last_err)
  case 0
  then show ?case by (auto simp: wait_loop.simps Let_def wait_ended_def)
next
  case (Suc k)
  let ?s = "s\<lparr>ha_read := Suc (ha_read s)\<rparr>"
  let ?n = "ha_dialled s"
  show ?case
  proof (cases "ha_clock s (ha_read s) < deadline")
    case True
    note now = this
    show ?thesis
    proof (cases "ha_net s ?n")
      case (Inr c)
      with now show ?thesis
        by (simp add: wait_loop.simps [of _ _ _ s] Let_def connect_def close_socket_def wait_ended_def)
    next
      case (Inl e)
      let ?s1 = "?s\<lparr>ha_dialled := Suc ?n\<rparr>"
      have l: "wait_loop failure deadline last_err s = wait_loop failure deadline (Some e) ?s1"
        using now Inl by (simp add: wait_loop.simps [of _ _ _ s] Let_def connect_def)
      have "ha_clock s (ha_read s) + 1 / 10 \<le> ha_clock s (Suc (ha_read s))" using Suc.prems(1) by blast
      then have "deadline \<le> ha_clock ?s1 (ha_read ?s1) + real k / 10" using Suc.prems(2) by (simp add: field_simps)
      with Suc.IH [of ?s1 "Some e"] Suc.prems(1) obtain r s' where
        w: "wait_loop failure deadline (Some e) ?s1 = Some (r, s')" "ha_dialled s' \<le> Suc ?n + k" "Suc ?n \<le> ha_dialled s'"
          "wait_ended failure ?s1 r s'" by auto
      have "wait_ended failure s r s'"
        using w(4) Inl unfolding wait_ended_def
        by (auto simp: le_less_Suc_eq Suc_le_eq dest: le_neq_implies_less split: sum.splits)
      with w l show ?thesis by auto
    qed
  next
    case False
    then show ?thesis by (auto simp: wait_loop.simps [of _ _ _ s] Let_def wait_ended_def)
  qed
qed

lemma wait_for_server_ended:
  assumes "time_passes s"
  shows "\<exists>r s'. wait_for_server failure s = Some (r, s') \<and> ha_dialled s' \<le> ha_dialled s + 100 \<and>
    ha_dialled s \<le> ha_dialled s' \<and> wait_ended failure s r s'"
proof -
  let ?s = "s\<lparr>ha_read := Suc (ha_read s)\<rparr>"
  have "\<forall>i \<ge> ha_read ?s. ha_clock ?s i + 1 / 10 \<le> ha_clock ?s (Suc i)"
    "ha_clock s (ha_read s) + 10 \<le> ha_clock ?s (ha_read ?s) + real 100 / 10"
    using assms by (simp_all add: time_passes_def Suc_le_eq)
  from wait_loop_ends [OF this, of failure None] show ?thesis
    by (simp add: wait_for_server_def wait_ended_cong)
qed

section \<open>What holds of the process throughout\<close>

text \<open>An operation keeps an invariant of the process whether it returns or raises.\<close>

definition maintains :: "('s \<Rightarrow> bool) \<Rightarrow> ('s, 'a) st_res \<Rightarrow> bool" where
  "maintains I m \<longleftrightarrow> (\<forall>s. I s \<longrightarrow> I (snd (m s)))"

lemma maintainsD: "maintains I m \<Longrightarrow> I s \<Longrightarrow> m s = (r, s') \<Longrightarrow> I s'"
  unfolding maintains_def by (metis snd_conv)

lemma maintains_simple [intro, simp]: "maintains I (retS x)" "maintains I (liftS r)"
  by (simp_all add: maintains_def retS_def liftS_def)

lemma maintains_bind [intro]:
  assumes "maintains I m" and "\<And>x. maintains I (f x)"
  shows "maintains I (bindS m f)"
  unfolding maintains_def
proof (intro allI impI)
  fix s assume "I s"
  then have m: "I (snd (m s))" using assms(1) by (simp add: maintains_def)
  show "I (snd (bindS m f s))"
    using m assms(2) by (cases "m s"; cases "fst (m s)") (auto simp: bindS_def maintains_def)
qed

text \<open>No socket is left open: every connection that was accepted has been closed, in order.\<close>

definition accepted :: "harness \<Rightarrow> nat" where
  "accepted s = length (filter (\<lambda>i. \<not> isl (ha_net s i)) [0..<ha_dialled s])"

definition tidy :: "harness \<Rightarrow> bool" where
  "tidy s \<longleftrightarrow> length (ha_closed s) = accepted s"

text \<open>One socket is open, the others are closed.\<close>

definition dialling :: "harness \<Rightarrow> bool" where
  "dialling s \<longleftrightarrow> Suc (length (ha_closed s)) = accepted s"

lemma accepted_cong: "ha_net s' = ha_net s \<Longrightarrow> ha_dialled s' = ha_dialled s \<Longrightarrow> accepted s' = accepted s"
  by (simp add: accepted_def)

lemma maintains_local [intro]:
  "maintains tidy perf_counter" "maintains dialling perf_counter" "maintains tidy (on_disk f)" "maintains dialling (on_disk f)"
  "maintains tidy (on_socket m)" "maintains dialling (on_socket m)"
  by (auto simp: maintains_def perf_counter_def on_disk_def on_socket_def tidy_def dialling_def accepted_def split: prod.splits)

lemma connect_cases:
  assumes "connect s = (r, s')" and "tidy s"
  shows "case r of Inl _ \<Rightarrow> tidy s' | Inr _ \<Rightarrow> dialling s'"
  using assms by (auto simp: connect_def tidy_def dialling_def accepted_def split: sum.splits)

lemma close_tidy: "dialling s \<Longrightarrow> tidy (close_socket s)"
  by (simp add: dialling_def tidy_def close_socket_def accepted_def)

lemma maintains_with_socket [intro]:
  assumes "maintains dialling m"
  shows "maintains tidy (with_socket m)"
  unfolding maintains_def
proof (intro allI impI)
  fix s assume t: "tidy s"
  obtain r s1 where c: "connect s = (r, s1)" by fastforce
  note d = connect_cases [OF c t]
  show "tidy (snd (with_socket m s))"
  proof (cases r)
    case (Inr u)
    obtain r2 s2 where m: "m s1 = (r2, s2)" by fastforce
    from maintainsD [OF assms _ this] d Inr have "dialling s2" by simp
    with c Inr m show ?thesis by (simp add: with_socket_def bindS_def finallyS_def close_tidy)
  qed (use c d in \<open>simp add: with_socket_def bindS_def\<close>)
qed

lemma maintains_with_ca [intro]: "maintains tidy (with_ca P base m)" "maintains dialling (with_ca P base m)"
  using maintains_local(5,6) by (auto simp: maintains_def with_ca_def)

lemma maintains_timed [intro]: "maintains tidy m \<Longrightarrow> maintains tidy (timed m)" "maintains dialling m' \<Longrightarrow> maintains dialling (timed m')"
  unfolding timed_def by blast+

lemma wait_loop_tidy:
  assumes "\<forall>i \<ge> ha_read s. ha_clock s i + 1 / 10 \<le> ha_clock s (Suc i)"
    and "deadline \<le> ha_clock s (ha_read s) + real k / 10" and "tidy s"
    and "wait_loop failure deadline last_err s = Some (r, s')"
  shows "tidy s'"
  using assms
proof (induction k arbitrary: s last_err)
  case 0
  then show ?case by (auto simp: wait_loop.simps Let_def tidy_def accepted_def)
next
  case (Suc k)
  let ?s = "s\<lparr>ha_read := Suc (ha_read s)\<rparr>"
  obtain r1 s1 where c: "connect ?s = (r1, s1)" by fastforce
  have t: "tidy ?s" using Suc.prems(3) by (simp add: tidy_def accepted_def)
  note d = connect_cases [OF c t]
  show ?case
  proof (cases "ha_clock s (ha_read s) < deadline")
    case True
    show ?thesis
    proof (cases r1)
      case (Inl e)
      have l: "wait_loop failure deadline (Some e) s1 = Some (r, s')"
        using Suc.prems(4) True c Inl by (simp add: wait_loop.simps [of _ _ _ s] Let_def)
      have s1: "ha_clock s1 = ha_clock s" "ha_read s1 = Suc (ha_read s)"
        using c by (auto simp: connect_def split: sum.splits)
      have "ha_clock s (ha_read s) + 1 / 10 \<le> ha_clock s (Suc (ha_read s))" using Suc.prems(1) by blast
      then have "deadline \<le> ha_clock s1 (ha_read s1) + real k / 10" using Suc.prems(2) by (simp add: field_simps s1)
      from Suc.IH [OF _ this _ l] Suc.prems(1) d Inl show ?thesis by (simp add: s1)
    next
      case (Inr u)
      with Suc.prems(4) True c d show ?thesis by (auto simp: wait_loop.simps [of _ _ _ s] Let_def close_tidy)
    qed
  next
    case False
    with Suc.prems(4) t show ?thesis by (auto simp: wait_loop.simps [of _ _ _ s] Let_def)
  qed
qed

lemma wait_for_server_tidy:
  assumes "time_passes s" and "wait_for_server failure s = Some (r, s')" and "tidy s"
  shows "tidy s'"
proof -
  let ?s = "s\<lparr>ha_read := Suc (ha_read s)\<rparr>"
  have "\<forall>i \<ge> ha_read ?s. ha_clock ?s i + 1 / 10 \<le> ha_clock ?s (Suc i)"
    "ha_clock s (ha_read s) + 10 \<le> ha_clock ?s (ha_read ?s) + real 100 / 10" "tidy ?s"
    using assms(1,3) by (simp_all add: time_passes_def Suc_le_eq tidy_def accepted_def)
  from wait_loop_tidy [OF this] assms(2) show ?thesis unfolding wait_for_server_def by blast
qed

lemma maintains_case_prod [intro]: "(\<And>a b. maintains I (f a b)) \<Longrightarrow> maintains I (case p of (a, b) \<Rightarrow> f a b)"
    "(\<And>a b. maintains I (g a b y)) \<Longrightarrow> maintains I ((case p of (a, b) \<Rightarrow> g a b) y)"
  by (cases p, simp)+

lemmas maintains_intros = maintains_simple maintains_bind maintains_case_prod maintains_local maintains_with_ca maintains_timed maintains_with_socket

section \<open>A measuring program\<close>

text \<open>
  What both programs promise of their surroundings, whatever the measurements do and the server does:
  the wait ends, so that there is a result; the server has been stopped, no socket is left open, and
  the two database files are as they were.
\<close>

lemma restore_paths_save: "restore_paths (save_paths paths fs) fs' q = (if q \<in> set paths then fs q else fs' q)"
  by (induction paths arbitrary: fs') (auto simp: save_paths_def)

definition left_clean :: "pystr \<Rightarrow> harness \<Rightarrow> harness \<Rightarrow> bool" where
  "left_clean base s s' \<longleftrightarrow> \<not> ha_running s' \<and> tidy s' \<and>
     ha_fs s' (USERS_DB_PATH base) = ha_fs s (USERS_DB_PATH base) \<and>
     ha_fs s' (SERVER_STATE_PATH base) = ha_fs s (SERVER_STATE_PATH base)"

locale measurement =
  fixes body :: "(harness, 'a) st_res"
  assumes closes: "maintains tidy body"
begin

lemma clean:
  assumes "time_passes s" and "tidy s"
  shows "\<exists>r s'. preserve_db_state base (server_process failure body) s = Some (r, s') \<and> left_clean base s s' \<and>
    (case r of Inr x \<Rightarrow> \<exists>s1 s2. body s1 = (Inr x, s2)
     | Inl e \<Rightarrow> (\<exists>last_err. e = failure last_err) \<or> (\<exists>s1 s2. body s1 = (Inl e, s2)))"
proof -
  let ?s = "s\<lparr>ha_running := True\<rparr>"
  have t: "time_passes ?s" "tidy ?s" using assms(1,2) by (simp_all add: time_passes_def tidy_def accepted_def)
  obtain r1 s1 where w: "wait_for_server failure ?s = Some (r1, s1)" "wait_ended failure ?s r1 s1"
    using wait_for_server_ended [OF t(1)] by blast
  have s1: "tidy s1" by (rule wait_for_server_tidy [OF t(1) w(1) t(2)])
  have clean: "left_clean base s ((terminate_server s2)\<lparr>ha_fs := restore_paths (save_paths
      [USERS_DB_PATH base, SERVER_STATE_PATH base] (ha_fs s)) (ha_fs (terminate_server s2))\<rparr>)" if "tidy s2" for s2
    using that by (simp add: left_clean_def restore_paths_save terminate_server_def tidy_def accepted_def)
  show ?thesis
  proof (cases r1)
    case (Inl e)
    with w clean [OF s1] show ?thesis
      by (simp add: preserve_db_state_def Let_def server_process_def wait_ended_def)
  next
    case (Inr u)
    obtain r s2 where b: "body s1 = (r, s2)" by fastforce
    have "tidy s2" by (rule maintainsD [OF closes s1 b])
    from clean [OF this] show ?thesis
      using b by (cases r) (auto simp: preserve_db_state_def Let_def server_process_def w(1) Inr finallyS_def)
  qed
qed

end

text \<open>A clock in seconds, a network that accepts every connection and delivers nothing, and a server that deletes every file.\<close>

definition sample_harness :: harness where
  "sample_harness = \<lparr>ha_fs = [USERS_DB_PATH [] \<mapsto> [7]],
     ha_net = (\<lambda>_. Inr \<lparr>cn_in = [], cn_out = [], cn_faults = []\<rparr>), ha_dialled = 0, ha_clock = real, ha_read = 0,
     ha_timer = real, ha_ticks = 0, ha_server = (\<lambda>_ _. Map.empty),
     ha_conn = \<lparr>cn_in = [], cn_out = [], cn_faults = []\<rparr>, ha_closed = [], ha_running = False\<rparr>"

lemma sample_harness_ok: "time_passes sample_harness" "tidy sample_harness"
    "ha_fs sample_harness (USERS_DB_PATH []) = Some [7]"
  by (simp_all add: sample_harness_def time_passes_def tidy_def accepted_def)

lemma register_user_closes: "maintains tidy (register_user P base prnd rnd now username password)"
  unfolding register_user_def by blast

end
