(* ===== verification/Benchmark.thy ===== *)
theory Benchmark
  imports Prelude Utf8 Codec Framing Connection Primitives Sample_Primitives Kdf Record_Layer Ratelimit
    Server_Config Storage Pki Opaque Server Client Echo_Loop Handshake Registration Sample_Run File_System
    Pki_Files Summaries Harness
begin

text \<open>
  \<open>tools/benchmark_artifact.py\<close>: the rounds against the echo service, one login with its rounds and its
  two times, and \<open>main\<close> from the parsed arguments to the report.
\<close>

section \<open>The echo rounds\<close>

definition unexpected_echo :: "'a res" where
  "unexpected_echo = raise AssertionError ''Unexpected echo payload''"

fun bench_rounds :: "prims \<Rightarrow> nat \<Rightarrow> bytes \<Rightarrow> direction_state \<Rightarrow> direction_state \<Rightarrow> (conn, unit) st_res" where
  "bench_rounds P 0 message send_state recv_state c = (Inr (), c)"
| "bench_rounds P (Suc n) message send_state recv_state c =
     (case record_encrypt P CT_APP_DATA message send_state of
        (Inl e, send_state) \<Rightarrow> (Inl e, c)
      | (Inr (seq, ct), send_state) \<Rightarrow>
          bindS (liftS (encode_app_data seq ct)) (\<lambda>m.
          bindS (conn_send m) (\<lambda>_.
          bindS conn_recv (\<lambda>frame.
          bindS (liftS (decode_app_data frame)) (\<lambda>parsed c.
            case record_decrypt P CT_APP_DATA (ad_seq parsed) (ad_ciphertext parsed) recv_state of
              (Inl e, recv_state) \<Rightarrow> (Inl e, c)
            | (Inr plaintext, recv_state) \<Rightarrow>
                if plaintext \<noteq> blit ''echo:'' @ message then (unexpected_echo, c)
                else bench_rounds P n message send_state recv_state c)))) c)"

text \<open>The random values and the certificate clocks of one iteration.\<close>

record bench_random =
  br_pki :: pki_random
  br_register :: register_random
  br_register_times :: check_times
  br_client :: client_random
  br_client_times :: check_times

text \<open>The login, the rounds and the Close on one socket; the message is \<open>b"A" * message_size\<close>.\<close>

definition benchmark_login_and_app ::
  "prims \<Rightarrow> pystr \<Rightarrow> client_random \<Rightarrow> check_times \<Rightarrow> pystr \<Rightarrow> pystr \<Rightarrow> nat \<Rightarrow> nat \<Rightarrow> (harness, real \<times> real \<times> real) st_res" where
  "benchmark_login_and_app P base rnd now user password app_rounds message_size =
     bindS (with_socket
       (bindS (timed (with_ca P base (\<lambda>ca. client_login P rnd now ca user password)))
          (\<lambda>((secrets, export_key), login_elapsed).
        bindS (liftS (direction_new P (ts_client_app secrets))) (\<lambda>send_state.
        bindS (liftS (direction_new P (ts_server_app secrets))) (\<lambda>recv_state.
        bindS (timed (on_socket (bench_rounds P app_rounds (replicate message_size 65) send_state recv_state)))
          (\<lambda>(_, app_elapsed).
        bindS (on_socket (bindS (liftS encode_close) conn_send)) (\<lambda>_.
          retS (login_elapsed, app_elapsed))))))))
     (\<lambda>(login_elapsed, app_elapsed).
       retS (login_elapsed, average_rtt_ms app_elapsed app_rounds, throughput_mib_s message_size app_rounds app_elapsed))"

section \<open>The benchmark\<close>

record bench_row =
  bw_register :: real
  bw_login :: real
  bw_rtt_ms :: real
  bw_mib_s :: real

definition bench_user :: "pystr \<Rightarrow> nat \<Rightarrow> pystr" where
  "bench_user run_id i = lit ''bench_'' @ run_id @ lit ''_'' @ nat_str i"

definition bench_password :: "pystr \<Rightarrow> nat \<Rightarrow> pystr" where
  "bench_password run_id i = lit ''Bench-'' @ run_id @ lit ''-'' @ nat_str i @ lit ''-P@ssw0rd!''"

definition bench_iteration ::
  "prims \<Rightarrow> pystr \<Rightarrow> bench_random \<Rightarrow> pystr \<Rightarrow> nat \<Rightarrow> nat \<Rightarrow> nat \<Rightarrow> (harness, bench_row) st_res" where
  "bench_iteration P base rnd run_id app_rounds message_size i =
     (let user = bench_user run_id i; password = bench_password run_id i in
      bindS (timed (register_user P base (br_pki rnd) (br_register rnd) (br_register_times rnd) user password))
        (\<lambda>(_, reg_time).
      bindS (benchmark_login_and_app P base (br_client rnd) (br_client_times rnd) user password app_rounds message_size)
        (\<lambda>(login_elapsed, avg_rtt_ms, mib_s).
        retS \<lparr>bw_register = reg_time, bw_login = login_elapsed, bw_rtt_ms = avg_rtt_ms, bw_mib_s = mib_s\<rparr>)))"

fun bench_iterations ::
  "prims \<Rightarrow> pystr \<Rightarrow> (nat \<Rightarrow> bench_random) \<Rightarrow> pystr \<Rightarrow> nat \<Rightarrow> nat \<Rightarrow> nat list \<Rightarrow> (harness, bench_row list) st_res" where
  "bench_iterations P base rnd run_id app_rounds message_size [] = retS []"
| "bench_iterations P base rnd run_id app_rounds message_size (i # is) =
     bindS (bench_iteration P base (rnd i) run_id app_rounds message_size i) (\<lambda>row.
     bindS (bench_iterations P base rnd run_id app_rounds message_size is) (\<lambda>rows.
       retS (row # rows)))"

record bench_report =
  bp_iterations :: nat
  bp_app_rounds :: nat
  bp_message_size :: nat
  bp_registration :: summary
  bp_login :: summary
  bp_round_trip :: summary
  bp_throughput :: summary

definition report_of :: "nat \<Rightarrow> nat \<Rightarrow> nat \<Rightarrow> bench_row list \<Rightarrow> bench_report" where
  "report_of iterations app_rounds message_size rows =
     \<lparr>bp_iterations = iterations, bp_app_rounds = app_rounds, bp_message_size = message_size,
      bp_registration = bench_summary (map bw_register rows), bp_login = bench_summary (map bw_login rows),
      bp_round_trip = round_trip_summary (map bw_rtt_ms rows), bp_throughput = throughput_summary (map bw_mib_s rows)\<rparr>"

text \<open>\<open>main\<close> with the parsed arguments, which are not negative; the result is the report that is written.\<close>

definition benchmark_main ::
  "prims \<Rightarrow> pystr \<Rightarrow> (nat \<Rightarrow> bench_random) \<Rightarrow> pystr \<Rightarrow> nat \<Rightarrow> nat \<Rightarrow> nat \<Rightarrow> harness \<Rightarrow> (bench_report res \<times> harness) option" where
  "benchmark_main P base rnd run_id iterations app_rounds message_size s =
     (case preserve_db_state base (server_process not_listening
             (bench_iterations P base rnd run_id app_rounds message_size [0..<iterations])) s of
        None \<Rightarrow> None
      | Some (Inl e, s) \<Rightarrow> Some (Inl e, s)
      | Some (Inr rows, s) \<Rightarrow> Some (Inr (report_of iterations app_rounds message_size rows), s))"

text \<open>\<open>tools/compare_baselines.py\<close> is the same file under another name: it measures the same program.\<close>

definition compare_baselines_main ::
  "prims \<Rightarrow> pystr \<Rightarrow> (nat \<Rightarrow> bench_random) \<Rightarrow> pystr \<Rightarrow> nat \<Rightarrow> nat \<Rightarrow> nat \<Rightarrow> harness \<Rightarrow> (bench_report res \<times> harness) option" where
  "compare_baselines_main = benchmark_main"

lemma login_and_app_closes: "maintains tidy (benchmark_login_and_app P base rnd now user password n k)"
  unfolding benchmark_login_and_app_def
  by (intro maintains_intros)

lemma bench_iterations_closes: "maintains tidy (bench_iterations P base rnd run_id n k is)"
proof (induction "is")
  case (Cons i "is")
  have "maintains tidy (bench_iteration P base (rnd i) run_id n k i)"
    unfolding bench_iteration_def Let_def
    by (intro maintains_intros register_user_closes login_and_app_closes)
  with Cons.IH show ?case by auto
qed simp

interpretation bench: measurement "bench_iterations P base rnd run_id n k is" for P base rnd run_id n k "is"
  by unfold_locales (rule bench_iterations_closes)

lemma bench_iterations_length:
  "bench_iterations P base rnd run_id n k is s = (Inr rows, s') \<Longrightarrow> length rows = length is"
  by (induction "is" arbitrary: s rows) (auto simp: st_res_Inr)

section \<open>Rounds against the echo service\<close>

lemma echo_ascii: "echo (replicate n 65) = blit ''echo:'' @ replicate n 65"
proof -
  have "utf8_encode (replicate n 65) = Inr (replicate n 65)"
    by (induction n) (simp_all add: utf8_char_def bindE_def)
  then show ?thesis using echo_text [of "replicate n 65"] by simp
qed

lemma bench_rounds_run:
  assumes "chacha_ok P" and "length msg \<le> MAX_FRAME - 34" and e: "echo msg = blit ''echo:'' @ msg"
  shows "send_records P CT_APP_DATA (replicate n msg) r = Some (rs, r') \<Longrightarrow>
    send_records P CT_APP_DATA (replicate n (echo msg)) s = Some (rs', s') \<Longrightarrow>
    cn_faults c = [] \<Longrightarrow> live (cn_in c) \<Longrightarrow> stream (cn_in c) = concat (map record_frame rs') @ t \<Longrightarrow>
    \<exists>i. bench_rounds P n msg r s c = (Inr (), c\<lparr>cn_out := cn_out c @ map record_frame rs, cn_in := i\<rparr>) \<and>
      stream i = t \<and> live i"
proof (induction n arbitrary: r s rs rs' c)
  case 0
  then show ?case by (intro exI [of _ "cn_in c"]) simp
next
  case (Suc n)
  have l: "length msg < 2 ^ 31" "length (echo msg) < 2 ^ 31" using assms(2) e by (simp_all add: MAX_FRAME_def)
  from Suc.prems(1) obtain a rs1 where a: "record_encrypt P CT_APP_DATA msg r = (Inr (ds_seq r, a), r\<lparr>ds_seq := ds_seq r + 1\<rparr>)"
    "send_records P CT_APP_DATA (replicate n msg) (r\<lparr>ds_seq := ds_seq r + 1\<rparr>) = Some (rs1, r')" "rs = (ds_seq r, a) # rs1"
    unfolding replicate_Suc send_records_Cons by blast
  from Suc.prems(2) obtain b rs2 where b: "record_encrypt P CT_APP_DATA (echo msg) s = (Inr (ds_seq s, b), s\<lparr>ds_seq := ds_seq s + 1\<rparr>)"
    "send_records P CT_APP_DATA (replicate n (echo msg)) (s\<lparr>ds_seq := ds_seq s + 1\<rparr>) = Some (rs2, s')" "rs' = (ds_seq s, b) # rs2"
    unfolding replicate_Suc send_records_Cons by blast
  note ba = record_encrypt_bounds [OF assms(1) l(1) a(1)] and bb = record_encrypt_bounds [OF assms(1) l(2) b(1)]
  define d where "d = c\<lparr>cn_out := cn_out c @ [record_frame (ds_seq r, a)]\<rparr>"
  have 1: "encode_app_data (ds_seq r) a = Inr (app_message (ds_seq r, a))" using ba l by (intro encode_app_message) simp_all
  have 2: "conn_send (app_message (ds_seq r, a)) c = (Inr (), d)"
    using ba l Suc.prems(3) by (simp add: conn_send_ok d_def record_frame_def)
  have "length (app_message (ds_seq s, b)) \<le> MAX_FRAME" using bb e assms(2) by (simp add: MAX_FRAME_def)
  moreover have "live (cn_in d)" "stream (cn_in d) = frame_of (app_message (ds_seq s, b)) @ concat (map record_frame rs2) @ t"
    using Suc.prems(4,5) b(3) by (simp_all add: d_def record_frame_def [of "(ds_seq s, b)"])
  ultimately obtain i where
    i: "conn_recv d = (Inr (app_message (ds_seq s, b)), d\<lparr>cn_in := i\<rparr>)" "stream i = concat (map record_frame rs2) @ t" "live i"
    using conn_recv_frame by blast
  have 3: "decode_app_data (app_message (ds_seq s, b)) = Inr \<lparr>ad_seq = ds_seq s, ad_ciphertext = b\<rparr>"
    using bb l by (intro decode_app_message) simp_all
  note 4 = decrypt_encrypt [OF assms(1) l(2) b(1)]
  from Suc.IH [OF a(2) b(2), of "d\<lparr>cn_in := i\<rparr>"] i(2,3) Suc.prems(3) obtain j where
    j: "bench_rounds P n msg (r\<lparr>ds_seq := ds_seq r + 1\<rparr>) (s\<lparr>ds_seq := ds_seq s + 1\<rparr>) (d\<lparr>cn_in := i\<rparr>) =
      (Inr (), d\<lparr>cn_out := cn_out d @ map record_frame rs1, cn_in := j\<rparr>)" "stream j = t" "live j"
    by (auto simp: d_def)
  have "bench_rounds P (Suc n) msg r s c = bench_rounds P n msg (r\<lparr>ds_seq := ds_seq r + 1\<rparr>) (s\<lparr>ds_seq := ds_seq s + 1\<rparr>) (d\<lparr>cn_in := i\<rparr>)"
    by (simp add: a(1) [unfolded CT_APP_DATA_def] 1 2 i(1) 3 4 [unfolded CT_APP_DATA_def] e bindS_def liftS_def)
  with j a(3) show ?case by (intro exI [of _ j]) (simp add: d_def)
qed

section \<open>Properties\<close>

text \<open>
  The benchmark measures a run that goes through: against the server's echo loop, with the keys of
  one login and while the sequence numbers last, its rounds never meet an unexpected payload; fed with
  the other's frames, however they are cut, the rounds return, the loop ends at the Close, and each side
  sends exactly the frames the other was fed with.
\<close>

theorem benchmark_rounds_served:
  assumes "chacha_ok P" and "k \<le> MAX_FRAME - 34" and "0 \<le> ds_seq r" and "ds_seq r + int n \<le> 2 ^ 64"
    and "0 \<le> ds_seq s" and "ds_seq s + int n \<le> 2 ^ 64"
  shows "\<exists>c_out s_out. length c_out = n \<and> length s_out = n \<and>
    (\<forall>c. cn_faults c = [] \<longrightarrow> live (cn_in c) \<longrightarrow> stream (cn_in c) = concat s_out \<longrightarrow>
       (\<exists>c'. bench_rounds P n (replicate k 65) r s c = (Inr (), c') \<and> cn_out c' = cn_out c @ c_out)) \<and>
    (\<forall>w. cn_faults (w_conn w) = [] \<longrightarrow> live (cn_in (w_conn w)) \<longrightarrow>
       stream (cn_in (w_conn w)) = concat c_out @ frame_of [6] \<longrightarrow>
       (\<exists>w'. app_loop P s r w = (Inr (), w') \<and> cn_out (w_conn w') = cn_out (w_conn w) @ s_out))"
proof -
  let ?m = "replicate k (65 :: byte)"
  note e = echo_ascii [of k]
  have l: "length ?m < 2 ^ 31" "length (echo ?m) < 2 ^ 31" using assms(2) e by (simp_all add: MAX_FRAME_def)
  obtain rs r' where rs: "send_records P CT_APP_DATA (replicate n ?m) r = Some (rs, r')"
    using send_records_total [OF assms(1), of CT_APP_DATA r "replicate n ?m"] assms(3,4) l by auto
  obtain rs' s' where rs': "send_records P CT_APP_DATA (replicate n (echo ?m)) s = Some (rs', s')"
    using send_records_total [OF assms(1), of CT_APP_DATA s "replicate n (echo ?m)"] assms(5,6) l by auto
  have client: "\<exists>c'. bench_rounds P n ?m r s c = (Inr (), c') \<and> cn_out c' = cn_out c @ map record_frame rs"
    if "cn_faults c = []" "live (cn_in c)" "stream (cn_in c) = concat (map record_frame rs')" for c
    using bench_rounds_run [OF assms(1) _ e rs rs' that(1,2), of "[]"] assms(2) that(3) by auto
  have server: "\<exists>w'. app_loop P s r w = (Inr (), w') \<and> cn_out (w_conn w') = cn_out (w_conn w) @ map record_frame rs'"
    if w: "cn_faults (w_conn w) = []" "live (cn_in (w_conn w))" "stream (cn_in (w_conn w)) = concat (map record_frame rs) @ frame_of [6]" for w
  proof -
    have "\<forall>p \<in> set (replicate n ?m). length p \<le> MAX_FRAME - 29" using assms(2) by (simp add: MAX_FRAME_def)
    from echo_loop_run [OF assms(1) rs this assms(5) _ w] assms(6) rs' obtain i where
      i: "app_loop P s r w = app_loop P s' r' (w\<lparr>w_conn := (w_conn w)\<lparr>cn_in := i,
        cn_out := cn_out (w_conn w) @ map record_frame rs'\<rparr>\<rparr>)" "stream i = frame_of [6] @ []" "live i"
      by auto
    from app_loop_close [of "w\<lparr>w_conn := (w_conn w)\<lparr>cn_in := i, cn_out := cn_out (w_conn w) @ map record_frame rs'\<rparr>\<rparr>" "[]" P s' r'] i
    show ?thesis by auto
  qed
  have n: "length rs = n" "length rs' = n" using send_records_numbers [OF rs] send_records_numbers [OF rs'] by simp_all
  show ?thesis
    by (rule exI [of _ "map record_frame rs"], rule exI [of _ "map record_frame rs'"]) (use client server n in simp)
qed

theorem benchmark_rounds_served_witness:
  "\<exists>s_out c'. bench_rounds sample 3 (replicate 1024 65) sample_state sample_state (fed s_out) = (Inr (), c') \<and>
     length s_out = 3 \<and> length (cn_out c') = 3"
proof -
  have q: "0 \<le> ds_seq sample_state" "ds_seq sample_state + int 3 \<le> 2 ^ 64" by (simp_all add: sample_state_def)
  have l: "1024 \<le> MAX_FRAME - 34" by (simp add: MAX_FRAME_def)
  from benchmark_rounds_served [OF _ l q q, of sample] obtain c_out s_out where
    o1: "length c_out = 3" "length s_out = 3" "\<forall>c. cn_faults c = [] \<longrightarrow> live (cn_in c) \<longrightarrow> stream (cn_in c) = concat s_out \<longrightarrow>
       (\<exists>c'. bench_rounds sample 3 (replicate 1024 65) sample_state sample_state c = (Inr (), c') \<and> cn_out c' = cn_out c @ c_out)"
    by auto
  from o1(3) [rule_format, OF fed_simps(1-3)] obtain c' where
    "bench_rounds sample 3 (replicate 1024 65) sample_state sample_state (fed s_out) = (Inr (), c')"
    "cn_out c' = cn_out (fed s_out) @ c_out" by blast
  with o1(1,2) show ?thesis by (intro exI [of _ s_out] exI [of _ c']) simp
qed



end
