(* ===== verification/Benchmark_Run.thy ===== *)
theory Benchmark_Run
  imports Prelude Utf8 Codec Framing Connection Primitives Sample_Primitives Kdf Record_Layer Ratelimit Server_Config
    Storage Pki File_System Pki_Files Opaque_Core Opaque Server Client Echo_Loop Handshake Registration Sample_Run
    Whole_Runs Summaries Harness Benchmark
begin

text \<open>
  An iteration of the benchmark against the server's sessions: it registers its user on one connection,
  and logs in and does its rounds on the next one.
\<close>

section \<open>The client's side\<close>

lemma register_user_run:
  assumes "\<not> pki_missing base (ha_fs s)" and "registration_request P rnd u p = Inr ()"
    and "ha_net s (ha_dialled s) = Inr c"
    and "register P rnd now (load_certificate P (CA_CERT_PATH base) (ha_fs s)) u p c = (Inr (), c')"
  shows "register_user P base prnd rnd now u p s = (Inr (), s\<lparr>ha_dialled := Suc (ha_dialled s), ha_conn := c',
    ha_closed := ha_closed s @ [c'], ha_fs := ha_server s (Suc (ha_dialled s)) (ha_fs s)\<rparr>)"
  using assms
  by (simp add: register_user_def bindS_def on_disk_def bootstrap_keeps liftS_def with_socket_def connect_def finallyS_def
      with_ca_def on_socket_def close_socket_def)

lemma timed_run: "m (s\<lparr>ha_ticks := Suc (ha_ticks s)\<rparr>) = (Inr x, s') \<Longrightarrow>
    timed m s = (Inr (x, ha_timer s' (ha_ticks s') - ha_timer s (ha_ticks s)), s'\<lparr>ha_ticks := Suc (ha_ticks s')\<rparr>)"
  by (simp add: timed_def bindS_def perf_counter_def retS_def)

lemma login_and_app_run:
  assumes "ha_net s (ha_dialled s) = Inr c"
    and "client_login P rnd now (load_certificate P (CA_CERT_PATH base) (ha_fs s)) user password c = (Inr (secrets, ek), c1)"
    and "direction_new P (ts_client_app secrets) = Inr r" and "direction_new P (ts_server_app secrets) = Inr d"
    and "bench_rounds P n (replicate k 65) r d c1 = (Inr (), c2)" and "cn_faults c2 = []"
  shows "\<exists>row s'. benchmark_login_and_app P base rnd now user password n k s = (Inr row, s') \<and>
    ha_closed s' = ha_closed s @ [c2\<lparr>cn_out := cn_out c2 @ [frame_of [6]]\<rparr>]"
proof -
  have close: "bindS (liftS encode_close) conn_send c2 = (Inr (), c2\<lparr>cn_out := cn_out c2 @ [frame_of [6]]\<rparr>)"
    using conn_send_ok [of "[6]" c2] assms(6) by (simp add: bindS_def liftS_def)
  show ?thesis
    using assms(1-5) close
    by (simp add: benchmark_login_and_app_def bindS_def with_socket_def connect_def finallyS_def timed_def perf_counter_def
        with_ca_def on_socket_def close_socket_def liftS_def retS_def)
qed

section \<open>Both sides\<close>

lemma rounds_run:
  assumes "primitives_ok P" and "good_identity P se ca (ct_now_chain now)" and "run_random_ok P rnd crnd"
    and "clocks_ok rnd now" and "registered P (se_server_key se) crnd user password sg"
    and k: "k \<le> MAX_FRAME - 34" and n: "int n \<le> 2 ^ 64" and "make_login_credential_id P user = Inr cid"
    and al: "allow (sr_now_limiter rnd) (se_ip se) cid (get_limiter lm) = (True, rl)"
  shows "\<exists>c_out s_out.
    (\<forall>s c. ha_net s (ha_dialled s) = Inr c \<longrightarrow> delivers c s_out \<longrightarrow> load_certificate P (CA_CERT_PATH base) (ha_fs s) = Inr ca \<longrightarrow>
       (\<exists>row s' c'. benchmark_login_and_app P base crnd now user password n k s = (Inr row, s') \<and>
          ha_closed s' = ha_closed s @ [c'] \<and> cn_out c' = cn_out c @ c_out)) \<and>
    (\<forall>d. delivers d c_out \<longrightarrow> (\<exists>w'. run P se rnd (session_new se d lm sg) = (Completed, w') \<and>
       cn_out (w_conn w') = cn_out d @ s_out))"
proof -
  have P: "chacha_ok P" using assms(1) by (simp add: primitives_ok_def)
  obtain L where L: "opaque_run P (se_server_key se) rnd crnd user password sg L" "messages_run P se rnd now ca L"
    using opaque_run_exists [OF assms(1,3,5)] messages_run_exists [OF assms(1-4)] by blast
  note m = messages_runD [OF L(2)]
  have cid: "cid = lx_cid L" using L(1) assms(8) by (simp add: opaque_run_def)
  let ?m = "replicate k (65 :: byte)"
  note e = echo_ascii [of k]
  have l: "length ?m < 2 ^ 31" "length (echo ?m) < 2 ^ 31" "length ?m \<le> MAX_FRAME - 29" "length ?m \<le> MAX_FRAME - 34"
    using k e by (simp_all add: MAX_FRAME_def)
  obtain rs r' where rs: "send_records P CT_APP_DATA (replicate n ?m) (lx_recv L) = Some (rs, r')"
    using send_records_total [OF P, of CT_APP_DATA "lx_recv L" "replicate n ?m"] m(25) n l by auto
  obtain rs' s' where rs': "send_records P CT_APP_DATA (replicate n (echo ?m)) (lx_send L) = Some (rs', s')"
    using send_records_total [OF P, of CT_APP_DATA "lx_send L" "replicate n (echo ?m)"] m(23) n l by auto
  let ?c = "[frame_of (lx_ch L), frame_of (lx_cf L)] @ map record_frame rs @ [frame_of [6]]"
  let ?s = "frame_of (lx_sh L) # map record_frame rs'"
  show ?thesis
  proof (rule exI [of _ ?c], rule exI [of _ ?s], intro conjI allI impI)
    fix s :: harness and c assume s: "ha_net s (ha_dialled s) = Inr c" "load_certificate P (CA_CERT_PATH base) (ha_fs s) = Inr ca"
      and c: "delivers c ?s"
    let ?lg = "\<lambda>i. c\<lparr>cn_out := cn_out c @ [frame_of (lx_ch L), frame_of (lx_cf L)], cn_in := i\<rparr>"
    from client_login_run [OF L, of c "concat (map record_frame rs')"] c obtain i where
      i: "client_login P crnd now (Inr ca) user password c = (Inr (lx_secrets L, lx_export_key L), ?lg i)"
      "stream i = concat (map record_frame rs')" "live i" by (auto simp: delivers_def)
    from bench_rounds_run [OF P l(4) e rs rs', of "?lg i" "[]"] i(2,3) c obtain j where
      j: "bench_rounds P n ?m (lx_recv L) (lx_send L) (?lg i) =
        (Inr (), (?lg i)\<lparr>cn_out := cn_out (?lg i) @ map record_frame rs, cn_in := j\<rparr>)" by (auto simp: delivers_def)
    from login_and_app_run [OF s(1) i(1) [folded s(2)] m(24) m(22) j] c
    show "\<exists>row s' c'. benchmark_login_and_app P base crnd now user password n k s = (Inr row, s') \<and>
        ha_closed s' = ha_closed s @ [c'] \<and> cn_out c' = cn_out c @ ?c"
      by (auto simp: delivers_def)
  next
    fix d assume d: "delivers d ?c"
    have "\<forall>p \<in> set (replicate n ?m). length p \<le> MAX_FRAME - 29" using l(3) by simp
    from server_run_records [OF L P this rs, of rs' s' lm rl d] rs' n al [unfolded cid] d
    show "\<exists>w'. run P se rnd (session_new se d lm sg) = (Completed, w') \<and> cn_out (w_conn w') = cn_out d @ ?s"
      by (auto simp: delivers_def)
  qed
qed

lemma iteration_run:
  assumes "ha_net s (ha_dialled s) = Inr a"
    and "\<exists>e. register P (br_register b) (br_register_times b) (Inr ca) (bench_user run_id i) (bench_password run_id i) a =
      (Inr (), e) \<and> cn_out e = cn_out a @ c1"
    and "\<not> pki_missing base (ha_fs s)" and "load_certificate P (CA_CERT_PATH base) (ha_fs s) = Inr ca"
    and "registration_request P (br_register b) (bench_user run_id i) (bench_password run_id i) = Inr ()"
    and "ha_net s (Suc (ha_dialled s)) = Inr a'"
    and "\<And>s. ha_net s (ha_dialled s) = Inr a' \<Longrightarrow> load_certificate P (CA_CERT_PATH base) (ha_fs s) = Inr ca \<Longrightarrow>
      \<exists>row s' e'. benchmark_login_and_app P base (br_client b) (br_client_times b) (bench_user run_id i)
        (bench_password run_id i) n k s = (Inr row, s') \<and> ha_closed s' = ha_closed s @ [e'] \<and> cn_out e' = cn_out a' @ c2"
    and "load_certificate P (CA_CERT_PATH base) (ha_server s (Suc (ha_dialled s)) (ha_fs s)) = Inr ca"
  shows "\<exists>row s' e e'. bench_iteration P base b run_id n k i s = (Inr row, s') \<and> ha_closed s' = ha_closed s @ [e, e'] \<and>
    cn_out e = cn_out a @ c1 \<and> cn_out e' = cn_out a' @ c2"
proof -
  let ?s = "s\<lparr>ha_ticks := Suc (ha_ticks s)\<rparr>"
  let ?reg = "register_user P base (br_pki b) (br_register b) (br_register_times b) (bench_user run_id i) (bench_password run_id i)"
  from assms(2) obtain e where e: "register P (br_register b) (br_register_times b) (Inr ca) (bench_user run_id i)
    (bench_password run_id i) a = (Inr (), e)" "cn_out e = cn_out a @ c1" by blast
  define s1 where "s1 = ?s\<lparr>ha_dialled := Suc (ha_dialled s), ha_conn := e, ha_closed := ha_closed s @ [e],
    ha_fs := ha_server s (Suc (ha_dialled s)) (ha_fs s)\<rparr>"
  have "?reg ?s = (Inr (), s1)"
    using register_user_run [of base ?s P "br_register b" _ _ a "br_register_times b" e "br_pki b"] assms e(1) by (simp add: s1_def)
  from timed_run [of ?reg s, OF this] obtain t s2 where
    t: "timed ?reg s = (Inr ((), t), s2)" "s2 = s1\<lparr>ha_ticks := Suc (ha_ticks s1)\<rparr>" by blast
  have "ha_net s2 (ha_dialled s2) = Inr a'" "load_certificate P (CA_CERT_PATH base) (ha_fs s2) = Inr ca"
    "ha_closed s2 = ha_closed s @ [e]" using assms(6,8) by (simp_all add: t(2) s1_def)
  with assms(7) obtain row s' e' where "benchmark_login_and_app P base (br_client b) (br_client_times b) (bench_user run_id i)
      (bench_password run_id i) n k s2 = (Inr row, s')" "ha_closed s' = ha_closed s @ [e, e']" "cn_out e' = cn_out a' @ c2"
    by fastforce
  with t(1) e(2) show ?thesis by (cases row) (auto simp: bench_iteration_def Let_def bindS_def retS_def)
qed

section \<open>Property\<close>

text \<open>
  C38: an iteration of the benchmark goes through: with a CA on the disk that the server's identity is good
  for, a user name and password that encode, an OPRF that unblinds both answers to one secret and a
  login the limiter admits, the iteration on two connections that deliver what two sessions of the
  server send, cut anyhow, returns its four figures; and the sessions, the second one on the store the
  first one left, end normally on what the iteration has sent and send just that.
\<close>

theorem benchmark_iteration_served:
  assumes "primitives_ok P" and "aesgcm_ok P" and "argon2_ok P" and "users_ready sg"
    and id: "good_identity P se ca (ct_now_chain (br_register_times b))" "good_identity P se ca (ct_now_chain (br_client_times b))"
    and clk: "clocks_ok rnd1 (br_register_times b)" "clocks_ok rnd2 (br_client_times b)"
    and rnd: "register_random_ok P rnd1 (br_register b)" "run_random_ok P rnd2 (br_client b)"
    and enc: "utf8_encode (bench_user run_id i) = Inr u" "utf8_encode (bench_password run_id i) = Inr pw"
    and reg: "registration_start P (rr_blind (br_register b)) pw = Inr (M, rst)" "p256_scalar_mult (sr_oprf_key rnd1) M = Inr Z"
      "oprf_finalize P pw (rr_blind (br_register b)) Z = Inr rw"
    and log: "client_login_start P (cr_blind (br_client b)) (cr_eph_priv (br_client b)) (cr_nonce (br_client b)) pw = Inr (ke1, lst)"
      "p256_scalar_mult (sr_oprf_key rnd1) (ls_M lst) = Inr Z1" "oprf_finalize P pw (cr_blind (br_client b)) Z1 = Inr rw"
    and "k \<le> MAX_FRAME - 34" and "int n \<le> 2 ^ 64" and "make_login_credential_id P (bench_user run_id i) = Inr cid"
    and "allow (sr_now_limiter rnd2) (se_ip se) cid (get_limiter lm) = (True, rl)"
  shows "\<exists>c1 s1 c2 s2 sg'.
    (\<forall>s a a'. ha_net s (ha_dialled s) = Inr a \<longrightarrow> delivers a s1 \<longrightarrow> ha_net s (Suc (ha_dialled s)) = Inr a' \<longrightarrow> delivers a' s2 \<longrightarrow>
       \<not> pki_missing base (ha_fs s) \<longrightarrow> load_certificate P (CA_CERT_PATH base) (ha_fs s) = Inr ca \<longrightarrow>
       load_certificate P (CA_CERT_PATH base) (ha_server s (Suc (ha_dialled s)) (ha_fs s)) = Inr ca \<longrightarrow>
       (\<exists>row s' e e'. bench_iteration P base b run_id n k i s = (Inr row, s') \<and> ha_closed s' = ha_closed s @ [e, e'] \<and>
          cn_out e = cn_out a @ c1 \<and> cn_out e' = cn_out a' @ c2)) \<and>
    (\<forall>d lm. delivers d c1 \<longrightarrow> (\<exists>w'. run P se rnd1 (session_new se d lm sg) = (Completed, w') \<and>
       cn_out (w_conn w') = cn_out d @ s1 \<and> w_storage w' = sg')) \<and>
    (\<forall>d. delivers d c2 \<longrightarrow> (\<exists>w'. run P se rnd2 (session_new se d lm sg') = (Completed, w') \<and>
       cn_out (w_conn w') = cn_out d @ s2))"
proof -
  let ?u = "bench_user run_id i" and ?p = "bench_password run_id i"
  from registration_run [OF assms(1-3) id(1) clk(1) rnd(1) assms(4) enc reg] obtain c1 s1 sg' where
    r: "\<forall>c. delivers c s1 \<longrightarrow> (\<exists>c'. register P (br_register b) (br_register_times b) (Inr ca) ?u ?p c = (Inr (), c') \<and>
        cn_out c' = cn_out c @ c1)"
      "\<forall>d lm. delivers d c1 \<longrightarrow> (\<exists>w'. run P se rnd1 (session_new se d lm sg) = (Completed, w') \<and>
        cn_out (w_conn w') = cn_out d @ s1 \<and> w_storage w' = sg')"
    and known: "registered P (se_server_key se) (br_client b) ?u ?p sg'"
    using log by blast
  obtain c2 s2 where
    l: "\<forall>s c. ha_net s (ha_dialled s) = Inr c \<longrightarrow> delivers c s2 \<longrightarrow> load_certificate P (CA_CERT_PATH base) (ha_fs s) = Inr ca \<longrightarrow>
       (\<exists>row s' c'. benchmark_login_and_app P base (br_client b) (br_client_times b) ?u ?p n k s = (Inr row, s') \<and>
          ha_closed s' = ha_closed s @ [c'] \<and> cn_out c' = cn_out c @ c2)"
    and srv: "\<forall>d. delivers d c2 \<longrightarrow> (\<exists>w'. run P se rnd2 (session_new se d lm sg') = (Completed, w') \<and>
       cn_out (w_conn w') = cn_out d @ s2)"
    using rounds_run [OF assms(1) id(2) rnd(2) clk(2) known assms(19-22), of base] by blast
  have req: "registration_request P (br_register b) ?u ?p = Inr ()"
    using enc reg(1) by (simp add: registration_request_def make_cred_id_def)
  have it: "\<exists>row s' e e'. bench_iteration P base b run_id n k i s = (Inr row, s') \<and> ha_closed s' = ha_closed s @ [e, e'] \<and>
      cn_out e = cn_out a @ c1 \<and> cn_out e' = cn_out a' @ c2"
    if "ha_net s (ha_dialled s) = Inr a" "delivers a s1" "ha_net s (Suc (ha_dialled s)) = Inr a'" "delivers a' s2"
      "\<not> pki_missing base (ha_fs s)" "load_certificate P (CA_CERT_PATH base) (ha_fs s) = Inr ca"
      "load_certificate P (CA_CERT_PATH base) (ha_server s (Suc (ha_dialled s)) (ha_fs s)) = Inr ca" for s a a'
    by (rule iteration_run [OF that(1) r(1) [rule_format, OF that(2)] that(5,6) req that(3) _ that(7)])
      (use l that(4) in blast)
  show ?thesis
    by (rule exI [of _ c1], rule exI [of _ s1], rule exI [of _ c2], rule exI [of _ s2], rule exI [of _ sg'])
      (use it r(2) srv in blast)
qed

text \<open>On the sample primitives every password hashes to a point, and the blind 1 leaves it alone.\<close>

lemma sample_oprf:
  "\<exists>M rw ke1 lst. registration_start sample 1 pw = Inr (M, \<lparr>rs_blind = 1, rs_password = pw\<rparr>) \<and>
     p256_scalar_mult 1 M = Inr M \<and> oprf_finalize sample pw 1 M = Inr rw \<and>
     client_login_start sample 1 3 (replicate 32 9) pw = Inr (ke1, lst) \<and> ls_M lst = M"
proof -
  have "\<exists>c. hash_to_curve sample pw = Inr c"
    by (simp add: hash_to_curve_def Let_def upt_conv_Cons)
  then obtain M where h: "hash_to_curve sample pw = Inr M" by blast
  then have m: "p256_scalar_mult 1 M = Inr M" by (rule scalar_mult_1 [OF hash_to_curve_ok])
  have "pow_mod 1 (P256_ORDER - 2) P256_ORDER = 1" by (simp add: pow_mod_eq P256_ORDER_def)
  then have f: "\<exists>rw. oprf_finalize sample pw 1 M = Inr rw" using m by (simp add: oprf_finalize_def)
  have b: "oprf_blind sample 1 pw = Inr (1, M)" unfolding oprf_blind_Inr using h m by blast
  show ?thesis
    using b f m priv_bytes_valid [OF sample_valid_priv, of 3]
    by (auto simp: client_login_start_Inr registration_start_Inr)
qed

definition sample_bench :: bench_random where
  "sample_bench = \<lparr>br_pki = sample_pki_random, br_register = sample_register_random, br_register_times = sample_times,
     br_client = sample_client_random, br_client_times = sample_times\<rparr>"

theorem benchmark_iteration_served_witness:
  "\<exists>c1 s1 c2 s2 sg' w1 w2.
     (\<forall>s a a'. ha_net s (ha_dialled s) = Inr a \<longrightarrow> delivers a s1 \<longrightarrow> ha_net s (Suc (ha_dialled s)) = Inr a' \<longrightarrow> delivers a' s2 \<longrightarrow>
       \<not> pki_missing [] (ha_fs s) \<longrightarrow> load_certificate sample (CA_CERT_PATH []) (ha_fs s) = Inr sample_ca \<longrightarrow>
       ha_server s (Suc (ha_dialled s)) (ha_fs s) = ha_fs s \<longrightarrow>
       (\<exists>row s'. bench_iteration sample [] sample_bench [97] 32 1024 0 s = (Inr row, s'))) \<and>
     run sample sample_session sample_session_random (session_new sample_session (fed c1) None sample_storage) = (Completed, w1) \<and>
     cn_out (w_conn w1) = s1 \<and>
     run sample sample_session sample_session_random (session_new sample_session (fed c2) None sg') = (Completed, w2) \<and>
     cn_out (w_conn w2) = s2"
proof -
  have b: "br_register sample_bench = sample_register_random" "br_register_times sample_bench = sample_times"
    "br_client sample_bench = sample_client_random" "br_client_times sample_bench = sample_times"
    by (simp_all add: sample_bench_def)
  let ?u = "bench_user [97] 0" and ?p = "bench_password [97] 0"
  have v: "?u = [98, 101, 110, 99, 104, 95, 97, 95, 48]"
    "?p = [66, 101, 110, 99, 104, 45, 97, 45, 48, 45, 80, 64, 115, 115, 119, 48, 114, 100, 33]"
    by (simp_all add: bench_user_def bench_password_def lit_def nat_str.simps)
  have "\<exists>u. utf8_encode ?u = Inr u" "\<exists>pw. utf8_encode ?p = Inr pw"
    unfolding v by (simp_all add: utf8_char_def)
  then obtain u pw where e: "utf8_encode ?u = Inr u" "utf8_encode ?p = Inr pw" by blast
  from sample_oprf [of pw] obtain M rw ke1 lst where o1: "registration_start sample 1 pw = Inr (M, \<lparr>rs_blind = 1, rs_password = pw\<rparr>)"
    "p256_scalar_mult 1 M = Inr M" "oprf_finalize sample pw 1 M = Inr rw"
    "client_login_start sample 1 3 (replicate 32 9) pw = Inr (ke1, lst)" "ls_M lst = M" by blast
  have r: "rr_blind sample_register_random = 1" "sr_oprf_key sample_session_random = 1" "cr_blind sample_client_random = 1"
    "cr_eph_priv sample_client_random = 3" "cr_nonce sample_client_random = replicate 32 9"
    by (simp_all add: sample_session_random_def sample_register_random_def sample_client_random_def)
  have cid: "make_login_credential_id sample ?u = Inr (hash_bytes sample [CONTEXT_STRING @ u])"
    using e(1) by (simp add: make_login_credential_id_def)
  have q: "1024 \<le> MAX_FRAME - 34" "int 32 \<le> 2 ^ 64" by (simp_all add: MAX_FRAME_def)
  obtain rl where rl: "allow (sr_now_limiter sample_session_random) (se_ip sample_session)
      (hash_bytes sample [CONTEXT_STRING @ u]) (get_limiter None) = (True, rl)" using sample_allow by blast
  have aux: "aesgcm_ok sample" "argon2_ok sample" by simp_all
  have m2: "p256_scalar_mult 1 (ls_M lst) = Inr M" by (simp only: o1(2,5))
  note served = benchmark_iteration_served [where b = sample_bench and base = "[]" and ?rnd1.0 = sample_session_random
      and ?rnd2.0 = sample_session_random, unfolded b r, OF sample_primitives_ok aux sample_users_ready
      sample_identity sample_identity sample_clocks sample_clocks sample_register_random_ok sample_run_random
      e o1(1-4) m2 o1(3) q cid rl]
  from served obtain c1 s1 c2 s2 sg' where
    it: "\<forall>s a a'. ha_net s (ha_dialled s) = Inr a \<longrightarrow> delivers a s1 \<longrightarrow> ha_net s (Suc (ha_dialled s)) = Inr a' \<longrightarrow> delivers a' s2 \<longrightarrow>
       \<not> pki_missing [] (ha_fs s) \<longrightarrow> load_certificate sample (CA_CERT_PATH []) (ha_fs s) = Inr sample_ca \<longrightarrow>
       load_certificate sample (CA_CERT_PATH []) (ha_server s (Suc (ha_dialled s)) (ha_fs s)) = Inr sample_ca \<longrightarrow>
       (\<exists>row s' e e'. bench_iteration sample [] sample_bench [97] 32 1024 0 s = (Inr row, s') \<and>
          ha_closed s' = ha_closed s @ [e, e'] \<and> cn_out e = cn_out a @ c1 \<and> cn_out e' = cn_out a' @ c2)"
    and r1: "\<forall>d lm. delivers d c1 \<longrightarrow> (\<exists>w'. run sample sample_session sample_session_random
       (session_new sample_session d lm sample_storage) = (Completed, w') \<and> cn_out (w_conn w') = cn_out d @ s1 \<and> w_storage w' = sg')"
    and r2: "\<forall>d. delivers d c2 \<longrightarrow> (\<exists>w'. run sample sample_session sample_session_random
       (session_new sample_session d None sg') = (Completed, w') \<and> cn_out (w_conn w') = cn_out d @ s2)"
    by blast
  from r1 [rule_format, OF fed_delivers, of None] obtain w1 where
    w1: "run sample sample_session sample_session_random (session_new sample_session (fed c1) None sample_storage) = (Completed, w1)"
      "cn_out (w_conn w1) = s1" by auto
  from r2 [rule_format, OF fed_delivers] obtain w2 where
    w2: "run sample sample_session sample_session_random (session_new sample_session (fed c2) None sg') = (Completed, w2)"
      "cn_out (w_conn w2) = s2" by auto
  show ?thesis
    by (rule exI [of _ c1], rule exI [of _ s1], rule exI [of _ c2], rule exI [of _ s2], rule exI [of _ sg'],
        rule exI [of _ w1], rule exI [of _ w2]) (use it w1 w2 in fastforce)
qed

end
