(* ===== verification/Timing_Study.thy ===== *)
theory Timing_Study
  imports Prelude Utf8 Codec Framing Connection Primitives Sample_Primitives Kdf Record_Layer Ratelimit
    Server_Config Storage Pki Opaque_Core Opaque Server Client Echo_Loop Handshake Registration Sample_Run
    File_System Pki_Files Summaries Harness
begin

text \<open>
  The study of the fake-user path (\<open>tools/measure_fake_user_timing.py\<close>): its two probes on a connected
  socket, what the first one can see, and \<open>main\<close> from the parsed arguments to the report.
\<close>

section \<open>The probes\<close>

definition server_hello_len :: "prims \<Rightarrow> client_random \<Rightarrow> pystr \<Rightarrow> pystr \<Rightarrow> (conn, nat \<times> string) st_res" where
  "server_hello_len P rnd username password =
     bindS (liftS (utf8_encode password)) (\<lambda>pw.
     bindS (liftS (utf8_encode username)) (\<lambda>u.
     bindS (liftS (client_login_start P (cr_blind rnd) (cr_eph_priv rnd) (cr_nonce rnd) pw)) (\<lambda>(ke1, st).
     let cred_id = hash_bytes P [CONTEXT_STRING @ u] in
     bindS (liftS (encode_client_hello 1 cred_id (ls_nonce_c st) ke1)) (\<lambda>ch.
     bindS (conn_send ch) (\<lambda>_.
     bindS conn_recv (\<lambda>frame.
     let kind = (if frame \<noteq> [] \<and> hd frame = 5 then ''alert'' else ''server_hello'') in
     bindS (if kind = ''server_hello'' then bindS (liftS (decode_server_hello frame)) (\<lambda>_. retS ())
            else bindS (liftS (decode_alert frame)) (\<lambda>_. retS ())) (\<lambda>_.
       retS (length frame, kind))))))))"

text \<open>The second probe, without the elapsed time: the exception for a login that succeeds is raised
  inside the \<open>try\<close> whose handler catches every exception.\<close>

definition failed_login :: "prims \<Rightarrow> client_random \<Rightarrow> check_times \<Rightarrow> x509_cert res \<Rightarrow> pystr \<Rightarrow> pystr \<Rightarrow> (conn, unit) st_res" where
  "failed_login P rnd now ca username password =
     tryS (bindS (client_login P rnd now ca username password)
             (\<lambda>_. liftS (raise AssertionError ''login unexpectedly succeeded'')))
       (\<lambda>_. True) (\<lambda>_. retS ()) (\<lambda>_ :: unit. retS ())"

lemma failed_login_returns: "fst (failed_login P rnd now ca username password c) = Inr ()"
  by (simp add: failed_login_def tryS_def retS_def split: prod.split sum.split)

section \<open>The length of a ServerHello\<close>

text \<open>The bytes of the two signatures, whose DER encodings vary in length.\<close>

definition signatures_length :: "bytes \<Rightarrow> nat" where
  "signatures_length sh = (case decode_server_hello sh of
     Inl _ \<Rightarrow> 0 | Inr m \<Rightarrow> length (sh_server_config_sig m) + length (sh_cert_verify_sig m))"

lemma signed_server_hello_length:
  assumes "build_signed_server_hello P se rnd t ke2 = Inr sh"
  shows "\<exists>chain. encode_cert_chain (se_ca_cert se) (se_server_cert se) = Inr chain \<and>
    length sh = signatures_length sh + length chain + length ke2 + length SERVER_ID + 59"
proof -
  from assms obtain cfg chain core csig vsig where
    cfg: "encode_server_config SERVER_ID (sr_now_config rnd) = Inr cfg"
    and chain: "encode_cert_chain (se_ca_cert se) (se_server_cert se) = Inr chain"
    and core: "encode_server_hello_core 1 (sr_server_nonce rnd) chain cfg ke2 = Inr core"
    and sh: "encode_server_hello core csig vsig = Inr sh"
    unfolding build_signed_server_hello_def by (auto simp: bindE_eq_Inr Let_def)
  define m where "m = \<lparr>sh_version = 1, sh_server_nonce = sr_server_nonce rnd, sh_opaque_ke2 = ke2,
    sh_certificate_chain = chain, sh_server_config = cfg, sh_server_config_sig = csig, sh_cert_verify_sig = vsig\<rparr>"
  have "enc_server_hello m = Inr sh" by (simp add: enc_server_hello_def m_def core sh)
  from dec_enc_server_hello [OF this, of "[]"] have "signatures_length sh = length csig + length vsig"
    by (simp add: signatures_length_def m_def)
  moreover have "length cfg = 14 + length SERVER_ID" using cfg by (auto simp: encode_server_config_Inr)
  ultimately show ?thesis
    using core sh chain by (simp add: encode_server_hello_core_Inr encode_server_hello_Inr)
qed

section \<open>The study\<close>

text \<open>What \<open>_server_hello_len\<close> computes before it connects; it raises there without a connection.\<close>

definition probe_request :: "prims \<Rightarrow> client_random \<Rightarrow> pystr \<Rightarrow> pystr \<Rightarrow> unit res" where
  "probe_request P rnd username password =
     bindE (utf8_encode password) (\<lambda>pw.
     bindE (utf8_encode username) (\<lambda>u.
     bindE (client_login_start P (cr_blind rnd) (cr_eph_priv rnd) (cr_nonce rnd) pw) (\<lambda>(ke1, st).
     bindE (encode_client_hello 1 (hash_bytes P [CONTEXT_STRING @ u]) (ls_nonce_c st) ke1) (\<lambda>_. Inr ()))))"

definition length_probe :: "prims \<Rightarrow> client_random \<Rightarrow> pystr \<Rightarrow> pystr \<Rightarrow> (harness, nat \<times> string) st_res" where
  "length_probe P rnd username password =
     bindS (liftS (probe_request P rnd username password)) (\<lambda>_.
       with_socket (on_socket (server_hello_len P rnd username password)))"

definition failed_login_time ::
  "prims \<Rightarrow> pystr \<Rightarrow> client_random \<Rightarrow> check_times \<Rightarrow> pystr \<Rightarrow> pystr \<Rightarrow> (harness, real) st_res" where
  "failed_login_time P base rnd now username password =
     with_socket (bindS (timed (with_ca P base (\<lambda>ca. failed_login P rnd now ca username password))) (\<lambda>(_, elapsed).
       retS elapsed))"

text \<open>The random values and certificate clocks of one trial.\<close>

record study_random =
  sy_pki :: pki_random
  sy_register :: register_random
  sy_register_times :: check_times
  sy_known_length :: client_random
  sy_known_login :: client_random
  sy_known_times :: check_times
  sy_unknown_length :: client_random
  sy_unknown_login :: client_random
  sy_unknown_times :: check_times

record study_row =
  sw_wrong_length :: nat
  sw_wrong_ms :: real
  sw_unknown_length :: nat
  sw_unknown_ms :: real

definition known_user :: "pystr \<Rightarrow> nat \<Rightarrow> pystr" where
  "known_user run_id i = lit ''known_'' @ run_id @ lit ''_'' @ nat_str i"

definition known_password :: "pystr \<Rightarrow> nat \<Rightarrow> pystr" where
  "known_password run_id i = lit ''Known-'' @ run_id @ lit ''-'' @ nat_str i @ lit ''-P@ssw0rd!''"

definition unknown_user :: "pystr \<Rightarrow> nat \<Rightarrow> pystr" where
  "unknown_user run_id i = lit ''unknown_'' @ run_id @ lit ''_'' @ nat_str i"

fun register_known ::
  "prims \<Rightarrow> pystr \<Rightarrow> (nat \<Rightarrow> study_random) \<Rightarrow> pystr \<Rightarrow> nat list \<Rightarrow> (harness, (pystr \<times> pystr) list) st_res" where
  "register_known P base rnd run_id [] = retS []"
| "register_known P base rnd run_id (i # is) =
     (let user = known_user run_id i; pw = known_password run_id i in
      bindS (register_user P base (sy_pki (rnd i)) (sy_register (rnd i)) (sy_register_times (rnd i)) user pw) (\<lambda>_.
      bindS (register_known P base rnd run_id is) (\<lambda>users. retS ((user, pw) # users))))"

definition study_trial ::
  "prims \<Rightarrow> pystr \<Rightarrow> study_random \<Rightarrow> pystr \<Rightarrow> nat \<Rightarrow> pystr \<Rightarrow> pystr \<Rightarrow> (harness, study_row) st_res" where
  "study_trial P base rnd run_id i user pw =
     (let wrong = pw @ lit ''-wrong''; unknown = unknown_user run_id i; guess = lit ''guess-password'' in
      bindS (length_probe P (sy_known_length rnd) user wrong) (\<lambda>(wire_len, kind).
      bindS (failed_login_time P base (sy_known_login rnd) (sy_known_times rnd) user wrong) (\<lambda>wrong_time.
      bindS (length_probe P (sy_unknown_length rnd) unknown guess) (\<lambda>(wire_len2, kind2).
      bindS (failed_login_time P base (sy_unknown_login rnd) (sy_unknown_times rnd) unknown guess) (\<lambda>unknown_time.
        retS \<lparr>sw_wrong_length = wire_len, sw_wrong_ms = 1000 * wrong_time, sw_unknown_length = wire_len2,
          sw_unknown_ms = 1000 * unknown_time\<rparr>)))))"

fun study_trials ::
  "prims \<Rightarrow> pystr \<Rightarrow> (nat \<Rightarrow> study_random) \<Rightarrow> pystr \<Rightarrow> nat \<Rightarrow> (pystr \<times> pystr) list \<Rightarrow> (harness, study_row list) st_res" where
  "study_trials P base rnd run_id i [] = retS []"
| "study_trials P base rnd run_id i ((user, pw) # users) =
     bindS (study_trial P base (rnd i) run_id i user pw) (\<lambda>row.
     bindS (study_trials P base rnd run_id (Suc i) users) (\<lambda>rows. retS (row # rows)))"

definition study_body :: "prims \<Rightarrow> pystr \<Rightarrow> (nat \<Rightarrow> study_random) \<Rightarrow> pystr \<Rightarrow> nat \<Rightarrow> (harness, study_row list) st_res" where
  "study_body P base rnd run_id trials =
     bindS (register_known P base rnd run_id [0..<trials]) (\<lambda>users. study_trials P base rnd run_id 0 users)"

text \<open>The file's own copies of the two context managers; its wait for the server raises another exception.\<close>

definition study_server_process :: "(harness, 'a) st_res \<Rightarrow> harness \<Rightarrow> ('a res \<times> harness) option" where
  "study_server_process = server_process not_ready"

definition study_preserve_db_state ::
  "pystr \<Rightarrow> (harness \<Rightarrow> ('a res \<times> harness) option) \<Rightarrow> harness \<Rightarrow> ('a res \<times> harness) option" where
  "study_preserve_db_state = preserve_db_state"

text \<open>\<open>main\<close> with the parsed arguments, which are not negative; the result is the report that is written.\<close>

definition study_main ::
  "prims \<Rightarrow> pystr \<Rightarrow> (nat \<Rightarrow> study_random) \<Rightarrow> pystr \<Rightarrow> nat \<Rightarrow> harness \<Rightarrow> ((nat \<times> timing_report) res \<times> harness) option" where
  "study_main P base rnd run_id trials s =
     (case study_preserve_db_state base (study_server_process (study_body P base rnd run_id trials)) s of
        None \<Rightarrow> None
      | Some (Inl e, s) \<Rightarrow> Some (Inl e, s)
      | Some (Inr rows, s) \<Rightarrow> Some (Inr (trials, study_report (map sw_wrong_length rows) (map sw_unknown_length rows)
          (map sw_wrong_ms rows) (map sw_unknown_ms rows)), s))"

lemma study_closes: "maintains tidy (study_body P base rnd run_id n)"
proof -
  have r: "maintains tidy (register_known P base rnd run_id is)" for "is"
    by (induction "is") (simp, unfold register_known.simps Let_def, intro maintains_intros register_user_closes)
  have t: "maintains tidy (study_trial P base rnd' run_id i user pw)" for rnd' i user pw
    unfolding study_trial_def length_probe_def failed_login_time_def Let_def by (intro maintains_intros)
  have "maintains tidy (study_trials P base rnd run_id i users)" for i users
  proof (induction users arbitrary: i)
    case (Cons u users)
    then show ?case by (cases u) (simp only: study_trials.simps, intro maintains_intros t)
  qed simp
  with r show ?thesis unfolding study_body_def by (intro maintains_intros)
qed

interpretation study: measurement "study_body P base rnd run_id n" for P base rnd run_id n
  by unfold_locales (rule study_closes)

lemma study_rows:
  assumes "study_body P base rnd run_id n s = (Inr rows, s')"
  shows "length rows = n"
proof -
  have 1: "register_known P base rnd run_id is s = (Inr users, s') \<Longrightarrow> length users = length is" for "is" s users s'
    by (induction "is" arbitrary: s users) (auto simp: st_res_Inr Let_def)
  have 2: "study_trials P base rnd run_id i users s = (Inr rows, s') \<Longrightarrow> length rows = length users" for i users s rows s'
    by (induction users arbitrary: i s rows) (auto simp: st_res_Inr)
  from assms show ?thesis by (auto simp: study_body_def st_res_Inr dest!: 1 2)
qed

section \<open>Properties\<close>

text \<open>
  What the study can see: the ServerHello for an unknown user and for a wrong password differ in
  length by exactly the difference of their signatures' lengths, which vary from one session to the
  next for either kind of user; and the second probe reports a time even when the login succeeds.
\<close>

theorem timing_study_sees:
  assumes "ec_keys_ok P" and "fake_random_ok r1" and "fake_random_ok r2"
    and "server_login_reply P r1 k None ke1 = Inr (ke2, ss)"
    and "server_login_reply P r2 k (Some rec) ke1' = Inr (ke2', ss')" and "length (or_envelope rec) = 142"
    and "build_signed_server_hello P se rnd t ke2 = Inr sh" and "build_signed_server_hello P se rnd' t' ke2' = Inr sh'"
  shows "length sh + signatures_length sh' = length sh' + signatures_length sh \<and>
    fst (failed_login P crnd now ca username password c) = Inr ()"
  using login_reply_length [OF assms(1,4,2)] login_reply_length [OF assms(1,5,3)] assms(6)
    signed_server_hello_length [OF assms(7)] signed_server_hello_length [OF assms(8)] failed_login_returns
  by auto

theorem timing_study_sees_witness:
  "\<exists>ke2 ke2' ss ss' sh sh' t. server_login_reply sample (sample_random 1) 5 None sample_ke1 = Inr (ke2, ss) \<and>
     server_login_reply sample (sample_random 1) 5 (Some sample_record) sample_ke1 = Inr (ke2', ss') \<and>
     build_signed_server_hello sample sample_session sample_session_random t ke2 = Inr sh \<and>
     build_signed_server_hello sample sample_session sample_session_random t ke2' = Inr sh' \<and>
     length sh + signatures_length sh' = length sh' + signatures_length sh"
proof -
  obtain ke2 ss ke2' ss' where r: "server_login_reply sample (sample_random 1) 5 None sample_ke1 = Inr (ke2, ss)"
    "server_login_reply sample (sample_random 1) 5 (Some sample_record) sample_ke1 = Inr (ke2', ss')"
    using sample_fake_reply sample_real_reply by blast
  have env: "length (or_envelope sample_record) = 142" by (simp add: sample_record_def)
  have l: "length ke2 < 65536" "length ke2' < 65536"
    using login_reply_length [OF _ r(1)] login_reply_length [OF _ r(2)] env by simp_all
  obtain t where t: "transcript_add (lit ''client_hello'') [] transcript_new = Inr t"
    using transcript_add_label [of "[]" "''client_hello''"] by auto
  have rnd: "length (sr_server_nonce sample_session_random) = 32" by (simp add: sample_session_random_def)
  note clk = sample_clocks [unfolded clocks_ok_def]
  obtain sh sh' where sh: "build_signed_server_hello sample sample_session sample_session_random t ke2 = Inr sh"
    "build_signed_server_hello sample sample_session sample_session_random t ke2' = Inr sh'"
    using server_hello_accepted [OF _ sample_identity _ _ _ rnd l(1) t] server_hello_accepted [OF _ sample_identity _ _ _ rnd l(2) t]
      clk by auto
  have "length sh + signatures_length sh' = length sh' + signatures_length sh"
    using timing_study_sees [OF _ _ _ r env sh] by simp
  with r sh show ?thesis by blast
qed

text \<open>
  The study cleans up after itself, as the benchmark does: \<open>main\<close> ends, with the server stopped, every
  socket closed and both database files as they were, whatever the probes meet; and a report is made of
  as many lengths and times of either kind as there were trials.
\<close>

theorem study_main_clean:
  assumes "time_passes s" and "tidy s"
  shows "\<exists>r s'. study_main P base rnd run_id n s = Some (r, s') \<and> left_clean base s s' \<and>
    (case r of
       Inr (trials, report) \<Rightarrow> trials = n \<and>
         (\<forall>f \<in> {tr_wrong_lengths, tr_unknown_lengths, tr_wrong_times, tr_unknown_times}. sm_count (f report) = n)
     | Inl e \<Rightarrow> (\<exists>last_err. e = not_ready last_err) \<or> (\<exists>s1 s2. study_body P base rnd run_id n s1 = (Inl e, s2)))"
proof -
  from study.clean [OF assms, of base not_ready P base rnd run_id n] obtain r s' where
    r: "preserve_db_state base (server_process not_ready (study_body P base rnd run_id n)) s = Some (r, s')"
    "left_clean base s s'"
    "case r of Inr x \<Rightarrow> \<exists>s1 s2. study_body P base rnd run_id n s1 = (Inr x, s2)
     | Inl e \<Rightarrow> (\<exists>last_err. e = not_ready last_err) \<or> (\<exists>s1 s2. study_body P base rnd run_id n s1 = (Inl e, s2))" by blast
  show ?thesis
  proof (cases r)
    case (Inr rows)
    with r(3) have "length rows = n" by (auto dest: study_rows)
    with r Inr show ?thesis
      by (simp add: study_main_def study_preserve_db_state_def study_server_process_def study_report_def)
  qed (use r in \<open>simp add: study_main_def study_preserve_db_state_def study_server_process_def\<close>)
qed

theorem study_main_clean_witness:
  "\<forall>rnd. \<exists>r s'. study_main sample [] rnd [48] 10 sample_harness = Some (r, s') \<and> \<not> ha_running s' \<and>
     ha_fs s' (USERS_DB_PATH []) = Some [7] \<and> tidy s'"
proof
  fix rnd
  from study_main_clean [OF sample_harness_ok(1,2), of sample "[]" rnd "[48]" 10] obtain r s' where
    "study_main sample [] rnd [48] 10 sample_harness = Some (r, s')" "left_clean [] sample_harness s'" by blast
  then show "\<exists>r s'. study_main sample [] rnd [48] 10 sample_harness = Some (r, s') \<and> \<not> ha_running s' \<and>
     ha_fs s' (USERS_DB_PATH []) = Some [7] \<and> tidy s'"
    using sample_harness_ok(3) by (auto simp: left_clean_def)
qed

end
