(* ===== verification/Spec2Isabelle.thy ===== *)
theory Spec2Isabelle
  imports Prelude Utf8 Hex Codec Framing Connection Primitives Sample_Primitives Kdf Record_Layer Ratelimit
    Server_Config Storage Pki File_System Pki_Files Pki_Race Sha512 P256 Opaque_Core Opaque Server Client Echo_Loop Handshake
    Registration Startup Whole_Runs Sample_Run Session_Machine Login_Security Concurrent Thread_Alone Thread_Traces Interleaving Isolation
    Failed_Logins Client_Safety
    Trace_Checker Fuzz Summaries Harness Benchmark Benchmark_Run Timing_Study
begin

text \<open>
  A verification library for VAULTTLS, a client and a server that authenticate each other in one
  handshake (the server by a certificate of a pinned CA, the client by a password through
  OPAQUE-3DH) and then exchange encrypted records over TCP.

  Parts of the program and where they are modelled (file names under \<open>src/\<close>):

    \<^item> \<open>codec.py\<close>, the wire messages: theory \<open>Codec\<close> (over \<open>Utf8\<close> and \<open>Hex\<close> for Python's text operations).
      The reader \<open>_R\<close> is the record \<open>reader\<close>, each dataclass a record, each encoder and decoder a
      function into \<open>py_error + 'a\<close>.  The locales \<open>field_codec\<close>, \<open>message_codec\<close> and \<open>canonical_codec\<close> state
      what a field and a message format promise; every field and message is an interpretation.
    \<^item> \<open>transcript.py\<close>, framing: theory \<open>Framing\<close>.  A socket is the list of segments it will deliver; the
      read loop refines parsing of the byte stream (locale \<open>stream_reader\<close>).
    \<^item> \<open>tls13_kdf.py\<close> and \<open>record.py\<close>: theories \<open>Kdf\<close> and \<open>Record_Layer\<close>.  \<open>DirectionState\<close> is a record;
      the locale \<open>in_order_receiver\<close> carries the facts about sequence numbers and replays.
    \<^item> \<open>ratelimit.py\<close>: theory \<open>Ratelimit\<close>, the pruning limiter against a limiter that keeps its whole
      history (locale \<open>keyed_limiter\<close>, interpreted on both).
    \<^item> \<open>server_config.py\<close>, \<open>storage.py\<close>: theories \<open>Server_Config\<close> and \<open>Storage\<close> (locale \<open>kv_store\<close>, the
      steps of concurrent \<open>set\<close> calls under the store's lock, crash points of a write).
    \<^item> \<open>pki.py\<close>: theories \<open>Pki\<close> (certificates, chains, signatures) and \<open>Pki_Files\<close> (the PEM files and the
      bootstrap on the disk, over the files of \<open>File_System\<close> and its locale \<open>file_object\<close>; the bootstrap
      on disk refines one that holds the objects, and its writes have crash points); \<open>Pki_Race\<close> has the
      bootstraps of several processes, interleaved.
    \<^item> \<open>opaque_adapter.py\<close>: theories \<open>P256\<close> (point arithmetic on integers), \<open>Opaque_Core\<close> (hashing to the
      curve, OPRF, envelope, 3DH, message packing) and \<open>Opaque\<close> (client and server).
    \<^item> \<open>server.py\<close>: theory \<open>Server\<close>.  The state of a session is the record \<open>world\<close>: the connection, the
      process-wide limiter and record store, and the session's OPAQUE object.  \<open>run\<close>, \<open>_handle_login\<close>,
      \<open>_handle_registration\<close>, \<open>_app_loop\<close> and \<open>_alert\<close> are operations on it that may raise.  The threads
      of \<open>main\<close> are in \<open>Concurrent\<close>: the record \<open>process_state\<close> is what they share, \<open>thread_step\<close> takes a thread
      from one access to it to the next, \<open>process_run\<close> is any interleaving, and \<open>process_exec\<close> of
      \<open>Isolation\<close> the one of a given schedule (\<open>Interleaving\<close>, with its locale \<open>isolated_threads\<close>).
    \<^item> \<open>client.py\<close> and \<open>register_user.py\<close>: theory \<open>Client\<close>, on a connected socket; \<open>Startup\<close> has the
      three programs from their parsed arguments on, with the disk they start on.
    \<^item> \<open>formal/trace_checker.py\<close>: theory \<open>Trace_Checker\<close>; \<open>tools/fuzz_codec.py\<close>: theory \<open>Fuzz\<close>.
    \<^item> \<open>tools/benchmark_artifact.py\<close> and \<open>tools/measure_fake_user_timing.py\<close>: theories \<open>Benchmark\<close> and
      \<open>Timing_Study\<close>, from the parsed arguments to the report, over \<open>Harness\<close> (sockets, clocks, the server
      as a child process, the database put back; locale \<open>measurement\<close>) and \<open>Summaries\<close> (the statistics).
      \<open>tools/compare_baselines.py\<close> is a copy of the benchmark.

  \<open>Prelude\<close> holds exceptions as values, Python's integer and slice primitives and the shared lemmas;
  \<open>Connection\<close> the two ends of a TCP connection and the sequencing of operations with a state and
  exceptions (\<open>bindS\<close>, \<open>tryS\<close>).

  How the parts interact: the server and the clients start on a disk and bootstrap the PKI.  A server
  session reads the ClientHello and runs the registration or the login.  Both sign a ServerHello over
  the transcript so far (\<open>Pki\<close>, \<open>Server_Config\<close>, \<open>Kdf\<close>) around an OPAQUE message (\<open>Opaque\<close>, \<open>Storage\<close>); a
  login first asks the limiter, and after the client's MAC derives traffic keys, clears the limiter's
  key and echoes records.  \<open>Handshake\<close>, \<open>Registration\<close> and \<open>Whole_Runs\<close> compose the two ends; this theory
  states the results for whole programs.

  What the groups of lemmas show:

    \<^item> Composition: an honest login or registration goes through on both ends whatever segments the
      network cuts the frames into, also on a fresh installation and in the benchmark (this theory,
      \<open>Handshake\<close>, \<open>Registration\<close>, \<open>Whole_Runs\<close>, \<open>Echo_Loop\<close>, \<open>Benchmark_Run\<close>).
    \<^item> The session against any peer: its output is a trace of an abstract state machine
      (\<open>Session_Machine\<close>), the loop ends and answers only records it opened in order (\<open>Echo_Loop\<close>), the
      loop is reached only with the client's MAC (\<open>Login_Security\<close>); the clients give away nothing before
      the server is authentic (\<open>Client_Safety\<close>).
    \<^item> The threads of the server in any interleaving: each sends a trace of the session machine
      (\<open>Thread_Traces\<close>), password guesses are bounded for every limiter the process has (\<open>Concurrent\<close>), a
      thread left alone does what the session does (\<open>Thread_Alone\<close>), and the threads of other users
      cannot be noticed: a thread is where its own turns alone would have brought it, and nine of them
      end its session as \<open>run\<close> ends it (\<open>Isolation\<close>; this theory has the honest login among them).
    \<^item> The logins that fail, as runs of both programs: refused by the limiter, with a wrong password, of an
      unknown user (\<open>Failed_Logins\<close>).
    \<^item> Each component on its own: round trips and canonical forms of every format, refinement of the
      framing, of the limiter and of the bootstrap, equivalence of the two validations with their
      conditions and of the two tools' statistics, invariants of the stores and of the record layer,
      error behaviour of the decoders, the verdict of the trace checker, closure of the curve, the end and the
      cleaning up of the measuring programs.
    \<^item> Limits of the program, as theorems: registration overwrites, unknown users can be told apart,
      two stores on one file lose an update, late clock readings admit too many attempts, threads that
      race create two limiters, a crash of the bootstrap or two bootstraps at once can leave a PKI that
      stays broken, the trace checker raises a false alarm and two of its lemmas cannot fail.

  Third-party code (package \<open>cryptography\<close>: EC keys, ECDH, ECDSA, Ed25519, X.509 and PEM, the AEADs, HKDF;
  package \<open>argon2-cffi\<close>) is the record \<open>prims\<close>, an argument of the definitions; the hypotheses \<open>\<dots>_ok\<close> of
  \<open>Primitives\<close> state its documented functional behaviour only, never that it is secure, and
  \<open>Sample_Primitives\<close> is an instance of all of them, on which the witnesses run (\<open>Sample_Run\<close>).  SHA-512 and
  HMAC of the standard library are defined in \<open>Sha512\<close>.  That the OPRF unblinds to one value is a
  hypothesis of the login properties on the run at hand, because the group law of P-256 is not proved
  here.

  Random values and clock readings are arguments, one for each place that draws one, or, in the
  measuring programs, the readings in order.  Strings are lists of code points and byte strings lists
  of octets; Python's integers are \<open>int\<close> or \<open>nat\<close>.  Floats occur in the tools' statistics only and are
  taken as the reals they denote, with exact arithmetic.

  Loops and bounds: the read loop ends by the missing bytes, the echo loop by the input
  (\<open>echo_loop_terminates\<close> bounds the iterations), a session by nine turns of its thread
  (\<open>thread_steps_finish\<close>; the lemma counts down \<open>pc_rank\<close>), the scalar loop by the bits of the scalar; hashing to the
  curve has the 256 tries of the code.  The tools' wait for the server need not end, so it is a partial
  function; it makes at most a hundred attempts when the time it sleeps passes (\<open>wait_for_server_ended\<close>).
  Record payloads are bounded by the frame limit of 4 MiB less the header where a theorem needs a frame
  to be accepted.

  Not modelled: console output (but for the lines of the trace checker), argument parsing and password prompts; binding, listening and the
  options of sockets; making directories, permissions and a full disk; the start and the log of the
  server as a subprocess of the tools (what it does to the network and the disk is arbitrary there),
  and writing their reports; rounding of floats; the ProVerif and Tamarin models.  A step of a thread
  accesses the limiters or the store at most once and is atomic; the steps inside an access to the
  store are interleaved in \<open>Storage\<close>.
\<close>

section \<open>Properties that span components\<close>

text \<open>
  C1: client and server together: for a registered user with the right password, clocks that agree
  and a login the rate limiter admits, the client's program and the server's session understand each
  other, however the network cuts the frames: fed with the other's frames each one ends normally and
  sends exactly the frames the other was fed with; the client shows \<open>echo:\<close> and its message, and the
  server has cleared the attempt counter of the user.
\<close>

theorem login_and_echo:
  assumes "primitives_ok P" and "good_identity P se ca (ct_now_chain now)" and "run_random_ok P rnd crnd"
    and "clocks_ok rnd now" and "registered P (se_server_key se) crnd username password sg"
    and "utf8_encode message = Inr msg" and "length msg \<le> MAX_FRAME - 34"
    and "make_login_credential_id P username = Inr cid"
    and "allow (sr_now_limiter rnd) (se_ip se) cid (get_limiter limiter) = (True, rl)"
  shows "\<exists>c_out s_out.
    (\<forall>c. delivers c s_out \<longrightarrow>
       (\<exists>c'. client_main P crnd now (Inr ca) username password message c = (Inr (Some (lit ''echo:'' @ message)), c') \<and>
          cn_out c' = cn_out c @ c_out)) \<and>
    (\<forall>d. delivers d c_out \<longrightarrow>
       (\<exists>w'. run P se rnd (session_new se d limiter sg) = (Completed, w') \<and> cn_out (w_conn w') = cn_out d @ s_out \<and>
          w_limiter w' = Some (reset_limiter (se_ip se) cid rl)))"
  by (rule login_run [OF assms])

theorem login_and_echo_witness:
  "\<exists>sg c_out s_out c' w'.
     client_main sample sample_client_random sample_times (Inr sample_ca) [97] [112, 119] [104, 105] (fed s_out) =
       (Inr (Some (lit ''echo:hi'')), c') \<and> cn_out c' = c_out \<and>
     run sample sample_session sample_session_random (session_new sample_session (fed c_out) None sg) = (Completed, w') \<and>
     cn_out (w_conn w') = s_out"
proof -
  obtain sg where sg: "registered sample (se_server_key sample_session) sample_client_random [97] [112, 119] sg"
    using sample_registered by (auto simp: sample_session_def)
  obtain cid where cid: "make_login_credential_id sample [97] = Inr cid"
    by (simp add: make_login_credential_id_def utf8_char_def)
  obtain rl where rl: "allow (sr_now_limiter sample_session_random) (se_ip sample_session) cid (get_limiter None) = (True, rl)"
    using sample_allow by blast
  have l: "length [104, 105 :: byte] \<le> MAX_FRAME - 34" by (simp add: MAX_FRAME_def)
  have t: "lit ''echo:'' @ [104, 105] = lit ''echo:hi''" by (simp add: lit_def)
  from login_and_echo [OF sample_primitives_ok sample_identity sample_run_random sample_clocks sg sample_names(3) l cid rl]
  obtain c_out s_out where
    c: "\<forall>c. delivers c s_out \<longrightarrow>
       (\<exists>c'. client_main sample sample_client_random sample_times (Inr sample_ca) [97] [112, 119] [104, 105] c =
          (Inr (Some (lit ''echo:'' @ [104, 105])), c') \<and> cn_out c' = cn_out c @ c_out)"
    and s: "\<forall>d. delivers d c_out \<longrightarrow>
       (\<exists>w'. run sample sample_session sample_session_random (session_new sample_session d None sg) = (Completed, w') \<and>
          cn_out (w_conn w') = cn_out d @ s_out \<and> w_limiter w' = Some (reset_limiter (se_ip sample_session) cid rl))"
    by blast
  from c [rule_format, OF fed_delivers] s [rule_format, OF fed_delivers] show ?thesis
    unfolding t fed_simps(4) append_Nil by blast
qed

text \<open>
  C2: a registration between \<open>register\<close> and the server's session goes through: fed with the other's
  frames, however they are cut, each side ends normally and sends exactly the frames the other was fed
  with, and the store then holds the user's record.  A later login with the same password finds the
  user registered, whenever the OPRF unblinds the two answers to the same secret.
\<close>

theorem registration_completes:
  assumes "primitives_ok P" and "aesgcm_ok P" and "argon2_ok P" and "good_identity P se ca (ct_now_chain now)"
    and "clocks_ok rnd now" and "register_random_ok P rnd rrnd" and "users_ready sg"
    and "utf8_encode username = Inr u" and "utf8_encode password = Inr pw"
    and "registration_start P (rr_blind rrnd) pw = Inr (M, rst)" and "p256_scalar_mult (sr_oprf_key rnd) M = Inr Z"
    and "oprf_finalize P pw (rr_blind rrnd) Z = Inr rw"
  shows "\<exists>c_out s_out sg'.
    (\<forall>c. delivers c s_out \<longrightarrow>
       (\<exists>c'. register P rrnd now (Inr ca) username password c = (Inr (), c') \<and> cn_out c' = cn_out c @ c_out)) \<and>
    (\<forall>d limiter. delivers d c_out \<longrightarrow>
       (\<exists>w'. run P se rnd (session_new se d limiter sg) = (Completed, w') \<and> cn_out (w_conn w') = cn_out d @ s_out \<and>
          w_storage w' = sg')) \<and>
    (\<forall>crnd ke1 lst Z1.
       client_login_start P (cr_blind crnd) (cr_eph_priv crnd) (cr_nonce crnd) pw = Inr (ke1, lst) \<longrightarrow>
       p256_scalar_mult (sr_oprf_key rnd) (ls_M lst) = Inr Z1 \<longrightarrow> oprf_finalize P pw (cr_blind crnd) Z1 = Inr rw \<longrightarrow>
       registered P (se_server_key se) crnd username password sg')"
  by (rule registration_run [OF assms])

theorem registration_completes_witness:
  "\<exists>c_out s_out c' w'.
     register sample sample_register_random sample_times (Inr sample_ca) [97] [112, 119] (fed s_out) = (Inr (), c') \<and>
     cn_out c' = c_out \<and>
     run sample sample_session sample_session_random (session_new sample_session (fed c_out) None sample_storage) = (Completed, w') \<and>
     cn_out (w_conn w') = s_out \<and> registered sample 5 sample_client_random [97] [112, 119] (w_storage w')"
proof -
  obtain rw where rw: "oprf_finalize sample [112, 119] 1 sample_point = Inr rw" using sample_finalize by blast
  obtain lst where lst: "client_login_start sample (cr_blind sample_client_random) (cr_eph_priv sample_client_random)
     (cr_nonce sample_client_random) [112, 119] = Inr (sample_ke1, lst)" "ls_M lst = sample_point"
    using sample_client_start by blast
  have k: "sr_oprf_key sample_session_random = 1" "rr_blind sample_register_random = 1" "cr_blind sample_client_random = 1"
    "se_server_key sample_session = 5"
    by (simp_all add: sample_session_random_def sample_register_random_def sample_client_random_def sample_session_def)
  from registration_completes [OF sample_primitives_ok _ _ sample_identity sample_clocks sample_register_random_ok
      sample_users_ready sample_names(1,2) sample_registration_start, unfolded k, OF _ _ sample_point_mult rw]
  obtain c_out s_out sg where
    c: "\<forall>c. delivers c s_out \<longrightarrow>
       (\<exists>c'. register sample sample_register_random sample_times (Inr sample_ca) [97] [112, 119] c = (Inr (), c') \<and>
          cn_out c' = cn_out c @ c_out)"
    and s: "\<forall>d limiter. delivers d c_out \<longrightarrow>
       (\<exists>w'. run sample sample_session sample_session_random (session_new sample_session d limiter sample_storage) = (Completed, w') \<and>
          cn_out (w_conn w') = cn_out d @ s_out \<and> w_storage w' = sg)"
    and r: "\<forall>crnd ke1 lst Z1. client_login_start sample (cr_blind crnd) (cr_eph_priv crnd) (cr_nonce crnd) [112, 119] = Inr (ke1, lst) \<longrightarrow>
       p256_scalar_mult 1 (ls_M lst) = Inr Z1 \<longrightarrow> oprf_finalize sample [112, 119] (cr_blind crnd) Z1 = Inr rw \<longrightarrow>
       registered sample 5 crnd [97] [112, 119] sg"
    by (auto simp del: One_nat_def)
  have "registered sample 5 sample_client_random [97] [112, 119] sg"
    by (rule r [rule_format, OF lst(1), unfolded lst(2) k, OF sample_point_mult rw])
  with c [rule_format, OF fed_delivers] s [rule_format, OF fed_delivers, of None] show ?thesis
    unfolding fed_simps(4) append_Nil by blast
qed

text \<open>
  C3: a fresh installation works: when the server starts on a disk without a PKI, with a certificate builder
  that does what it is told, what it has put on the disk makes it and the client program understand each
  other.  A client started later on the same disk finds the CA there, and a login of a registered user
  with the password given or typed goes through while the server certificate is valid; the client's
  start leaves the disk as it was.
\<close>

theorem installed_login:
  assumes "primitives_ok P" and "generation_ok P prnd" and "pki_missing base fs" and "within_validity prnd (pr_now_check prnd)"
    and "length (crt_der (generated_ca P prnd)) \<le> 2 ^ 20" and "length (crt_der (generated_server P prnd)) \<le> 2 ^ 20"
    and "server_start P base prnd fs = (Inr identity, fs')" and "within_validity prnd (ct_now_chain now)"
    and "run_random_ok P rnd crnd" and "clocks_ok rnd now"
    and "registered P (fst identity) crnd user (chosen_password password prompted) sg"
    and "utf8_encode message = Inr msg" and "length msg \<le> MAX_FRAME - 34" and "make_login_credential_id P user = Inr cid"
    and "allow (sr_now_limiter rnd) ip cid (get_limiter limiter) = (True, rl)"
  shows "\<exists>c_out s_out.
    (\<forall>c prnd'. delivers c s_out \<longrightarrow> (\<exists>c'. client_program P base prnd' crnd now user password prompted message (fs', c) =
       (Inr (Some (lit ''echo:'' @ message)), (fs', c')) \<and> cn_out c' = cn_out c @ c_out)) \<and>
    (\<forall>d. delivers d c_out \<longrightarrow> (\<exists>w'. run P (accepted_session identity ip) rnd
       (session_new (accepted_session identity ip) d limiter sg) = (Completed, w') \<and> cn_out (w_conn w') = cn_out d @ s_out))"
  by (rule installed_run [OF assms])

theorem installed_login_witness:
  "\<exists>fs sg c_out s_out c' w'.
     server_start sample [] sample_pki_random Map.empty = (Inr (5, sample_server, sample_ca), fs) \<and>
     client_program sample [] sample_pki_random sample_client_random sample_times [97] (Some []) [112, 119] [104, 105]
       (fs, fed s_out) = (Inr (Some (lit ''echo:'' @ [104, 105])), (fs, c')) \<and> cn_out c' = c_out \<and>
     run sample sample_session sample_session_random (session_new sample_session (fed c_out) None sg) = (Completed, w') \<and>
     cn_out (w_conn w') = s_out"
proof -
  have m: "pki_missing [] Map.empty" by (simp add: pki_missing_def)
  have t: "within_validity sample_pki_random (pr_now_check sample_pki_random)"
    "within_validity sample_pki_random (ct_now_chain sample_times)"
    by (simp_all add: within_validity_def sample_pki_random_def sample_times_def)
  have len: "length (crt_der (generated_ca sample sample_pki_random)) \<le> 2 ^ 20"
    "length (crt_der (generated_server sample sample_pki_random)) \<le> 2 ^ 20"
    unfolding sample_generated by (simp_all add: sample_ca_def sample_server_def)
  have key: "pr_srv_key sample_pki_random = 5" by (simp add: sample_pki_random_def)
  define identity where "identity = (5 :: int, sample_server, sample_ca)"
  define fs where "fs = pki_saved sample [] sample_pki_random Map.empty"
  have st: "server_start sample [] sample_pki_random Map.empty = (Inr identity, fs)"
    using server_start_fresh [OF sample_generation_ok(1) m t(1)] by (simp add: identity_def fs_def sample_generated key)
  obtain sg where sg: "registered sample (fst identity) sample_client_random [97] (chosen_password (Some []) [112, 119]) sg"
    using sample_registered by (auto simp: identity_def chosen_password_def)
  obtain cid where cid: "make_login_credential_id sample [97] = Inr cid"
    by (simp add: make_login_credential_id_def utf8_char_def)
  obtain rl where rl: "allow (sr_now_limiter sample_session_random) (se_ip sample_session) cid (get_limiter None) = (True, rl)"
    using sample_allow by blast
  have se: "accepted_session identity (se_ip sample_session) = sample_session"
    by (simp add: accepted_session_def identity_def sample_session_def)
  have l: "length [104, 105 :: byte] \<le> MAX_FRAME - 34" by (simp add: MAX_FRAME_def)
  from installed_login [OF sample_primitives_ok sample_generation_ok(1) m t(1) len st t(2) sample_run_random sample_clocks sg
      sample_names(3) l cid rl, unfolded se]
  obtain c_out s_out where
    c: "\<forall>c prnd'. delivers c s_out \<longrightarrow> (\<exists>c'. client_program sample [] prnd' sample_client_random sample_times [97] (Some [])
       [112, 119] [104, 105] (fs, c) = (Inr (Some (lit ''echo:'' @ [104, 105])), (fs, c')) \<and> cn_out c' = cn_out c @ c_out)"
    and s: "\<forall>d. delivers d c_out \<longrightarrow> (\<exists>w'. run sample sample_session sample_session_random
       (session_new sample_session d None sg) = (Completed, w') \<and> cn_out (w_conn w') = cn_out d @ s_out)"
    by blast
  from st c [rule_format, OF fed_delivers] s [rule_format, OF fed_delivers] show ?thesis
    unfolding fed_simps(4) append_Nil identity_def by blast
qed

text \<open>
  C4: the same login on a busy server: a client with the right password that connects at any moment
  to a running server is served, whatever the sessions of other users do and however their steps and
  its own interleave.  Once the thread of its connection has had nine turns, it has ended normally and has
  sent exactly the frames that make the client end normally and show the echo.  All that is asked of the
  others is that none of them names the same credential.
\<close>

theorem login_among_others:
  assumes "primitives_ok P" and "good_identity P se ca (ct_now_chain now)" and "run_random_ok P rnd crnd"
    and "clocks_ok rnd now" and "registered P (se_server_key se) crnd username password (sh_storage (ps_shared ps))"
    and "utf8_encode message = Inr msg" and "length msg \<le> MAX_FRAME - 34"
    and "make_login_credential_id P username = Inr cid"
    and "allow (sr_now_limiter rnd) (se_ip se) cid (get_limiter (current_limiter (ps_shared ps))) = (True, rl)"
    and "settled ps" and "\<And>j. j < length (ps_threads ps) \<Longrightarrow> thread_user (ps_threads ps ! j) \<noteq> Some cid"
  shows "\<exists>c_out s_out.
    (\<forall>c. delivers c s_out \<longrightarrow>
       (\<exists>c'. client_main P crnd now (Inr ca) username password message c = (Inr (Some (lit ''echo:'' @ message)), c') \<and>
          cn_out c' = cn_out c @ c_out)) \<and>
    (\<forall>d sched. delivers d c_out \<longrightarrow> (\<forall>si \<in> set (arrivals sched). hello_user (si_conn si) \<noteq> Some cid) \<longrightarrow>
       9 \<le> turns_of (length (ps_threads ps)) sched \<longrightarrow>
       (let si = \<lparr>si_session = se, si_random = rnd, si_conn = d\<rparr>;
            t = ps_threads (process_exec P (Arrive si # sched) ps) ! length (ps_threads ps) in
        th_pc t = Done Completed \<and> cn_out (th_conn t) = cn_out d @ s_out))"
proof -
  from login_frames [OF assms(1-9)] obtain c_out s_out where
    c: "\<forall>c. delivers c s_out \<longrightarrow>
       (\<exists>c'. client_main P crnd now (Inr ca) username password message c = (Inr (Some (lit ''echo:'' @ message)), c') \<and>
          cn_out c' = cn_out c @ c_out)"
    and s: "\<And>d. delivers d c_out \<Longrightarrow> \<exists>w'. run P se rnd (session_new se d (current_limiter (ps_shared ps)) (sh_storage (ps_shared ps))) =
       (Completed, w') \<and> cn_out (w_conn w') = cn_out d @ s_out"
    and h: "\<And>d. delivers d c_out \<Longrightarrow>
       \<exists>raw c' ch. conn_recv d = (Inr raw, c') \<and> decode_client_hello raw = Inr ch \<and> ch_credential_id ch = cid"
    by blast
  have "let si = \<lparr>si_session = se, si_random = rnd, si_conn = d\<rparr>;
      t = ps_threads (process_exec P (Arrive si # sched) ps) ! length (ps_threads ps) in
    th_pc t = Done Completed \<and> cn_out (th_conn t) = cn_out d @ s_out"
    if d: "delivers d c_out" and o: "\<forall>si \<in> set (arrivals sched). hello_user (si_conn si) \<noteq> Some cid"
      and n: "9 \<le> turns_of (length (ps_threads ps)) sched" for d sched
  proof -
    have "hello_user d = Some cid" using h [OF d] by (auto simp: hello_user_def)
    with session_served [OF assms(10,11) _ _ n, where si = "\<lparr>si_session = se, si_random = rnd, si_conn = d\<rparr>" and P = P] o s [OF d]
    show ?thesis by (auto simp: Let_def)
  qed
  with c show ?thesis by blast
qed

theorem login_among_others_witness:
  "\<exists>sg c_out s_out c'. let si = \<lparr>si_session = sample_session, si_random = sample_session_random, si_conn = fed c_out\<rparr>;
      t = ps_threads (process_exec sample (Arrive si # Arrive sample_silent # concat (replicate 9 [Turn 1, Turn 0])) (process_new True sg)) ! 0 in
    client_main sample sample_client_random sample_times (Inr sample_ca) [97] [112, 119] [104, 105] (fed s_out) =
      (Inr (Some (lit ''echo:'' @ [104, 105])), c') \<and> cn_out c' = c_out \<and> th_pc t = Done Completed \<and> cn_out (th_conn t) = s_out"
proof -
  obtain sg where sg: "registered sample (se_server_key sample_session) sample_client_random [97] [112, 119] sg" "users_ready sg"
    using sample_registered load_opaque_record_ready by (fastforce simp: sample_session_def registered_def)
  define ps where "ps = process_new True sg"
  have ps: "settled ps" "ps_threads ps = []" "sh_storage (ps_shared ps) = sg" "get_limiter (current_limiter (ps_shared ps)) = get_limiter None"
    using settled_new [OF sg(2)]
    by (simp_all add: ps_def process_new_def shared_warm_def current_limiter_def get_limiter_def fresh_limiter_def)
  obtain cid where cid: "make_login_credential_id sample [97] = Inr cid"
    by (simp add: make_login_credential_id_def utf8_char_def)
  obtain rl where rl: "allow (sr_now_limiter sample_session_random) (se_ip sample_session) cid
      (get_limiter (current_limiter (ps_shared ps))) = (True, rl)" using sample_allow ps(4) by metis
  have l: "length [104, 105 :: byte] \<le> MAX_FRAME - 34" by (simp add: MAX_FRAME_def)
  define sched :: "session_input turn list" where "sched = Arrive sample_silent # concat (replicate 9 [Turn 1, Turn 0])"
  have n: "arrivals sched = [sample_silent]" "turns_of 0 sched = 9" by (simp_all add: sched_def numeral_eq_Suc)
  from login_among_others [OF sample_primitives_ok sample_identity sample_run_random sample_clocks sg(1) [folded ps(3)]
      sample_names(3) l cid rl ps(1)]
  obtain c_out s_out where
    c: "\<forall>c. delivers c s_out \<longrightarrow> (\<exists>c'. client_main sample sample_client_random sample_times (Inr sample_ca) [97] [112, 119] [104, 105] c =
          (Inr (Some (lit ''echo:'' @ [104, 105])), c') \<and> cn_out c' = cn_out c @ c_out)"
    and s: "\<forall>d sched. delivers d c_out \<longrightarrow> (\<forall>si \<in> set (arrivals sched). hello_user (si_conn si) \<noteq> Some cid) \<longrightarrow>
       9 \<le> turns_of 0 sched \<longrightarrow>
       (let si = \<lparr>si_session = sample_session, si_random = sample_session_random, si_conn = d\<rparr>;
            t = ps_threads (process_exec sample (Arrive si # sched) ps) ! 0 in
        th_pc t = Done Completed \<and> cn_out (th_conn t) = cn_out d @ s_out)"
    by (auto simp: ps(2))
  have o: "\<And>si. si \<in> set (arrivals sched) \<Longrightarrow> hello_user (si_conn si) \<noteq> Some cid" by (simp add: n sample_silent_user)
  have "9 \<le> turns_of 0 sched" by (simp add: n)
  note s = s [rule_format, OF fed_delivers o this, unfolded fed_simps(4) append_Nil]
  from c [rule_format, OF fed_delivers] s show ?thesis
    unfolding sched_def ps_def Let_def fed_simps(4) append_Nil by blast
qed

end
